(* ===== verification/Else_Prelude.thy ===== *)
theory Else_Prelude
  imports Main "HOL-Library.Word" "HOL-Library.Multiset"
begin

text \<open>
  Shared vocabulary of the development: the Rust integer types as words, the standard
  library operations on integers that the kernel uses, panics as values, little- and
  big-endian reads, and the list, option and word lemmas that several components need.
  The kernel and the services are built with \<^verbatim>\<open>cargo build --release\<close>, so \<open>+\<close>, \<open>-\<close> and
  \<open>*\<close> on machine integers wrap around, which is the arithmetic of \<^typ>\<open>'a word\<close>.
\<close>

unbundle bit_operations_syntax

section \<open>Integer types\<close>

type_synonym u8 = "8 word"
type_synonym u16 = "16 word"
type_synonym u32 = "32 word"
type_synonym u64 = "64 word"

type_synonym bytes = "u8 list"

text \<open>\<open>u64::MAX\<close>, also \<open>usize::MAX\<close>. The error code \<open>(-n as isize) as u64\<close> is \<open>- n\<close> on words.\<close>

abbreviation u64_max :: u64 where
  "u64_max \<equiv> 0xFFFFFFFFFFFFFFFF"

section \<open>Standard library arithmetic\<close>

definition checked_add :: "u64 \<Rightarrow> u64 \<Rightarrow> u64 option" where
  "checked_add a b = (if unat a + unat b < 2 ^ 64 then Some (a + b) else None)"

definition saturating_add :: "u64 \<Rightarrow> u64 \<Rightarrow> u64" where
  "saturating_add a b = (if unat a + unat b < 2 ^ 64 then a + b else u64_max)"

definition saturating_sub :: "u64 \<Rightarrow> u64 \<Rightarrow> u64" where
  "saturating_sub a b = (if b \<le> a then a - b else 0)"

section \<open>Panics\<close>

text \<open>
  Every \<open>panic!\<close>, failed \<open>unwrap\<close>/\<open>expect\<close>, out-of-range index, \<open>unimplemented!\<close> and
  \<open>unreachable!\<close> of the source is a value of this type on the left of a sum.
  \<open>Undefined_Behaviour\<close> is not a panic of the code: it marks the points where the code jumps
  through or dereferences memory that does not hold what it expects.
\<close>

datatype panic =
    Panic string
  | Unwrap_None
  | Index_Out_Of_Bounds
  | Unimplemented
  | Unreachable_Code
  | Undefined_Behaviour

text \<open>A \<open>for\<close> loop whose body may panic: the state is threaded, the first panic stops it.\<close>

fun for_loop :: "('s \<Rightarrow> 'a \<Rightarrow> panic + 's) \<Rightarrow> 's \<Rightarrow> 'a list \<Rightarrow> panic + 's" where
  "for_loop body s [] = Inr s"
| "for_loop body s (x # xs) = (case body s x of Inl p \<Rightarrow> Inl p | Inr s' \<Rightarrow> for_loop body s' xs)"

text \<open>Sequencing of fallible steps, \<open>Option::expect\<close>, and a constructor that panics on a bad argument.\<close>

definition and_then :: "panic + 'a \<Rightarrow> ('a \<Rightarrow> panic + 'b) \<Rightarrow> panic + 'b" where
  "and_then m f = (case m of Inl p \<Rightarrow> Inl p | Inr x \<Rightarrow> f x)"

definition expect :: "string \<Rightarrow> 'a option \<Rightarrow> panic + 'a" where
  "expect msg x = (case x of None \<Rightarrow> Inl (Panic msg) | Some a \<Rightarrow> Inr a)"

definition checked :: "string \<Rightarrow> ('a \<Rightarrow> bool) \<Rightarrow> 'a \<Rightarrow> panic + 'a" where
  "checked msg ok x = (if ok x then Inr x else Inl (Panic msg))"

lemma and_then_simps [simp]:
  "and_then (Inl p) f = Inl p"
  "and_then (Inr x) f = f x"
  by (simp_all add: and_then_def)

lemma and_then_Inr: "and_then m f = Inr y \<longleftrightarrow> (\<exists>x. m = Inr x \<and> f x = Inr y)"
  by (cases m) simp_all

lemma expect_Inr: "expect msg x = Inr a \<longleftrightarrow> x = Some a"
  by (cases x) (simp_all add: expect_def)

lemma checked_Inr: "checked msg ok x = Inr y \<longleftrightarrow> ok x \<and> y = x"
  by (auto simp: checked_def)

section \<open>Memory as seen through pointers\<close>

type_synonym mem = "u64 \<Rightarrow> u8"

text \<open>\<open>core::ptr::write_bytes\<close> and \<open>core::ptr::copy_nonoverlapping\<close> from a byte list.\<close>

definition write_bytes :: "mem \<Rightarrow> u64 \<Rightarrow> u8 \<Rightarrow> u64 \<Rightarrow> mem" where
  "write_bytes m ptr v len = (\<lambda>a. if a - ptr < len then v else m a)"

definition copy_bytes :: "mem \<Rightarrow> u64 \<Rightarrow> bytes \<Rightarrow> mem" where
  "copy_bytes m ptr bs = (\<lambda>a. if unat (a - ptr) < length bs then bs ! unat (a - ptr) else m a)"

definition read_bytes :: "mem \<Rightarrow> u64 \<Rightarrow> nat \<Rightarrow> bytes" where
  "read_bytes m ptr n = map (\<lambda>i. m (ptr + of_nat i)) [0..<n]"

section \<open>Proof collections\<close>

named_theorems rust_arith \<open>characterisations of the standard library arithmetic\<close>

lemma unat_lt_2p64 [simp]: "unat (a :: u64) < 18446744073709551616"
  using unsigned_less [of a] by simp

lemma checked_add_Some [rust_arith]:
  "checked_add a b = Some c \<longleftrightarrow> unat a + unat b < 2 ^ 64 \<and> c = a + b"
  by (auto simp: checked_add_def)

lemma checked_add_None [rust_arith]:
  "checked_add a b = None \<longleftrightarrow> 2 ^ 64 \<le> unat a + unat b"
  by (auto simp: checked_add_def)

lemma unat_add_no_wrap:
  "unat (a :: u64) + unat b < 2 ^ 64 \<Longrightarrow> unat (a + b) = unat a + unat b"
  by (simp add: unat_word_ariths)

lemma unat_saturating_add [rust_arith]:
  "unat (saturating_add a b) = min (unat a + unat b) (2 ^ 64 - 1)"
proof (cases "unat a + unat b < 2 ^ 64")
  case True
  then show ?thesis by (simp add: saturating_add_def unat_add_no_wrap)
next
  case False
  have "unat (u64_max) = 2 ^ 64 - 1" by simp
  with False show ?thesis by (simp add: saturating_add_def)
qed

text \<open>The overflow tests on words, which the witnesses evaluate.\<close>

lemma add_overflows_iff: "unat (a :: u64) + unat b < 2 ^ 64 \<longleftrightarrow> \<not> a + b < a"
proof (cases "unat a + unat b < 2 ^ 64")
  case True
  then show ?thesis by (simp add: word_less_nat_alt unat_add_no_wrap)
next
  case False
  have ab: "unat a < 2 ^ 64" "unat b < 2 ^ 64" by simp_all
  have "unat (a + b) = (unat a + unat b) mod 2 ^ 64" by (simp add: unat_word_ariths)
  also have "\<dots> = (unat a + unat b - 2 ^ 64) mod 2 ^ 64" by (rule le_mod_geq) (use False in linarith)
  also have "\<dots> = unat a + unat b - 2 ^ 64" by (rule mod_less) (use False ab in linarith)
  finally have "unat (a + b) < unat a" using False ab by linarith
  with False show ?thesis by (simp add: word_less_nat_alt)
qed

lemma checked_add_code [code]: "checked_add a b = (if a + b < a then None else Some (a + b))"
  by (simp only: checked_add_def add_overflows_iff if_not_P split: if_split) simp

lemma saturating_add_code [code]: "saturating_add a b = (if a + b < a then u64_max else a + b)"
  by (simp only: saturating_add_def add_overflows_iff if_not_P split: if_split) simp

lemma unat_and_not_mask: "unat (w AND NOT (mask n)) = unat w div 2 ^ n * 2 ^ n" for w :: "'w::len word"
proof -
  have "w AND NOT (mask n) = push_bit n (drop_bit n w)"
    by (rule bit_word_eqI) (auto simp: bit_simps)
  moreover have "take_bit LENGTH('w) (unat w) = unat w" by (rule take_bit_nat_eq_self) (rule unsigned_less)
  ultimately have "unat (w AND NOT (mask n)) = take_bit LENGTH('w) (push_bit n (drop_bit n (unat w)))"
    by (simp only: unsigned_push_bit_eq unsigned_drop_bit_eq take_bit_push_bit)
  also have "\<dots> = take_bit LENGTH('w) (unat w div 2 ^ n * 2 ^ n)"
    by (simp add: push_bit_eq_mult drop_bit_eq_div)
  moreover have "unat w div 2 ^ n * 2 ^ n < 2 ^ LENGTH('w)"
    by (rule order_le_less_trans [OF div_times_less_eq_dividend unsigned_less])
  ultimately show ?thesis by (simp add: take_bit_nat_eq_self)
qed

section \<open>Loops and memory\<close>

lemma for_loop_append:
  "for_loop body s (xs @ ys) =
     (case for_loop body s xs of Inl p \<Rightarrow> Inl p | Inr s' \<Rightarrow> for_loop body s' ys)"
  by (induction xs arbitrary: s) (auto split: sum.splits)

lemma for_loop_preserves:
  assumes "\<And>s x s'. body s x = Inr s' \<Longrightarrow> f s' = f s"
  shows "for_loop body s xs = Inr s' \<Longrightarrow> f s' = f s"
  using assms by (induction xs arbitrary: s) (force split: sum.splits)+

text \<open>Total correctness of a loop from an invariant indexed by the iterations done.\<close>

lemma for_loop_invariant:
  assumes "I s []"
    and "\<And>s done x rest. xs = done @ x # rest \<Longrightarrow> I s done \<Longrightarrow> \<exists>s'. body s x = Inr s' \<and> I s' (done @ [x])"
  shows "\<exists>s'. for_loop body s xs = Inr s' \<and> I s' xs"
proof -
  have "xs = done @ rest \<Longrightarrow> I s done \<Longrightarrow> \<exists>s'. for_loop body s rest = Inr s' \<and> I s' xs" for s "done" rest
  proof (induction rest arbitrary: s "done")
    case (Cons x rest)
    from assms(2) [OF Cons.prems] obtain s' where "body s x = Inr s'" "I s' (done @ [x])"
      by blast
    with Cons.IH [of "done @ [x]" s'] Cons.prems(1) show ?case by auto
  qed simp
  from this [of "[]" xs s] assms(1) show ?thesis by simp
qed

lemma length_read_bytes [simp]: "length (read_bytes m p n) = n"
  by (simp add: read_bytes_def)

lemma nth_read_bytes [simp]: "i < n \<Longrightarrow> read_bytes m p n ! i = m (p + of_nat i)"
  by (simp add: read_bytes_def)

lemma read_copy_bytes:
  assumes "length bs \<le> 2 ^ 64"
  shows "read_bytes (copy_bytes m p bs) p (length bs) = bs"
proof (rule nth_equalityI)
  fix i assume "i < length (read_bytes (copy_bytes m p bs) p (length bs))"
  then have i: "i < length bs" by simp
  with assms have "unat (of_nat i :: u64) = i"
    by (simp add: unat_of_nat)
  with i show "read_bytes (copy_bytes m p bs) p (length bs) ! i = bs ! i"
    by (simp add: copy_bytes_def)
qed simp

text \<open>The same store written byte by byte, which the witnesses evaluate.\<close>

lemma copy_bytes_code [code]:
  "copy_bytes m p [] = m"
  "copy_bytes m p (b # bs) = (copy_bytes m (p + 1) bs)(p := b)"
proof -
  have "copy_bytes m p (b # bs) a = ((copy_bytes m (p + 1) bs)(p := b)) a" for a
  proof (cases "a = p")
    case False
    then have "0 < unat (a - p)" by (simp add: unat_gt_0)
    moreover have "unat (a - (p + 1)) = unat (a - p) - 1"
      using False by (simp add: unat_minus_one diff_diff_eq [symmetric])
    ultimately show ?thesis using False by (auto simp: copy_bytes_def nth_Cons')
  qed (simp add: copy_bytes_def)
  then show "copy_bytes m p (b # bs) = (copy_bytes m (p + 1) bs)(p := b)" by (rule ext)
qed (simp add: copy_bytes_def)

section \<open>Lists and options\<close>

definition opt_list :: "'a option \<Rightarrow> 'a list" where
  "opt_list x = (case x of None \<Rightarrow> [] | Some a \<Rightarrow> [a])"

lemma opt_list_simps [simp]:
  "opt_list None = []"
  "opt_list (Some a) = [a]"
  by (simp_all add: opt_list_def)

lemma set_opt_list [simp]: "set (opt_list x) = set_option x"
  by (cases x) auto

lemma mset_concat_map_upd:
  assumes "i < n"
  shows "mset (concat (map (f(i := v)) [0..<n])) + mset (f i)
       = mset (concat (map f [0..<n])) + mset v"
proof -
  have split: "[0..<n] = [0..<i] @ i # [Suc i..<n]"
    using assms upt_add_eq_append [of 0 i "n - i"] by (simp add: upt_conv_Cons)
  have "map (f(i := v)) [0..<i] = map f [0..<i]"
    and "map (f(i := v)) [Suc i..<n] = map f [Suc i..<n]"
    by auto
  then show ?thesis
    by (simp add: split)
qed

end
