(* ===== verification/Capability.thy ===== *)
theory Capability
  imports Else_Prelude
begin

text \<open>
  The capability subsystem, \<^verbatim>\<open>kernel/src/capability/mod.rs\<close>: rights, capabilities and the
  capability space of a process. \<open>Arc<Endpoint>\<close> and \<open>Arc<Mutex<ProcessState>>\<close> are
  references into the kernel's object stores (\<^verbatim>\<open>Kernel_State.thy\<close>), hence numbers here.
  The interface the rest of the kernel relies on is the locale \<open>slot_table\<close>; the lemmas
  of its clients (system calls, \<^verbatim>\<open>sys_spawn\<close>'s cloning loop, the boot sequence) are proved
  there once and reach the code through the interpretation \<open>cs\<close>.
\<close>

section \<open>Rights\<close>

type_synonym rights = u32

definition RIGHTS_NONE :: rights where "RIGHTS_NONE = 0"
definition RIGHTS_SEND :: rights where "RIGHTS_SEND = push_bit 0 1"
definition RIGHTS_RECEIVE :: rights where "RIGHTS_RECEIVE = push_bit 1 1"
definition RIGHTS_WAIT :: rights where "RIGHTS_WAIT = push_bit 2 1"
definition RIGHTS_ALL :: rights where
  "RIGHTS_ALL = RIGHTS_SEND OR RIGHTS_RECEIVE OR RIGHTS_WAIT"

text \<open>\<open>contains\<close> of a \<open>bitflags\<close> type: every bit of the argument is set.\<close>

definition rights_contains :: "rights \<Rightarrow> rights \<Rightarrow> bool" where
  "rights_contains r s \<longleftrightarrow> r AND s = s"

lemmas rights_defs =
  RIGHTS_NONE_def RIGHTS_SEND_def RIGHTS_RECEIVE_def RIGHTS_WAIT_def RIGHTS_ALL_def

section \<open>Capabilities and errors\<close>

type_synonym ep_ref = nat
type_synonym proc_ref = nat

datatype capability =
    Endpoint ep_ref rights
  | Process proc_ref rights
  | Interrupt u8
  | PortIO u16 u16 u8  \<comment> \<open>start, len, allowed width (0: any)\<close>
  | MemoryMap u64 u64

datatype cap_error = InvalidHandle | PermissionDenied | WrongType

section \<open>The capability space\<close>

record cspace =
  slots :: "capability option list"

definition cspace_new :: cspace where
  "cspace_new = \<lparr>slots = []\<rparr>"

text \<open>The loop of \<open>insert\<close>: the first empty slot is filled, else the capability is pushed.\<close>

fun insert_slots :: "capability option list \<Rightarrow> capability \<Rightarrow> nat \<times> capability option list" where
  "insert_slots [] cap = (0, [Some cap])"
| "insert_slots (None # ss) cap = (0, Some cap # ss)"
| "insert_slots (Some d # ss) cap =
     (case insert_slots ss cap of (i, ss') \<Rightarrow> (Suc i, Some d # ss'))"

definition cspace_insert :: "cspace \<Rightarrow> capability \<Rightarrow> nat \<times> cspace" where
  "cspace_insert cs cap =
     (case insert_slots (slots cs) cap of (i, ss) \<Rightarrow> (i, cs\<lparr>slots := ss\<rparr>))"

definition cspace_insert_at :: "cspace \<Rightarrow> nat \<Rightarrow> capability \<Rightarrow> cspace" where
  "cspace_insert_at cs index cap =
     (let ss = (if index \<ge> length (slots cs)
                then slots cs @ replicate (index + 1 - length (slots cs)) None
                else slots cs)
      in cs\<lparr>slots := ss[index := Some cap]\<rparr>)"

definition cspace_get :: "cspace \<Rightarrow> nat \<Rightarrow> capability option" where
  "cspace_get cs handle = (if handle < length (slots cs) then slots cs ! handle else None)"

definition cspace_remove :: "cspace \<Rightarrow> nat \<Rightarrow> capability option \<times> cspace" where
  "cspace_remove cs handle =
     (if handle < length (slots cs)
      then (slots cs ! handle, cs\<lparr>slots := (slots cs)[handle := None]\<rparr>)
      else (None, cs))"

section \<open>The interface: a table of handles\<close>

text \<open>Generic clients of the interface: a sequence of insertions, and a copying loop.\<close>

fun put_all :: "('t \<Rightarrow> 'c \<Rightarrow> nat \<times> 't) \<Rightarrow> 't \<Rightarrow> 'c list \<Rightarrow> nat list \<times> 't" where
  "put_all put t [] = ([], t)"
| "put_all put t (c # cs) =
     (case put t c of (h, t') \<Rightarrow> case put_all put t' cs of (hs, t'') \<Rightarrow> (h # hs, t''))"

fun copy_slots :: "('t \<Rightarrow> nat \<Rightarrow> 'c \<Rightarrow> 't) \<Rightarrow> nat \<Rightarrow> 'c option list \<Rightarrow> 't \<Rightarrow> 't" where
  "copy_slots put_at i [] t = t"
| "copy_slots put_at i (None # cs) t = copy_slots put_at (Suc i) cs t"
| "copy_slots put_at i (Some c # cs) t = copy_slots put_at (Suc i) cs (put_at t i c)"

locale slot_table =
  fixes lookup :: "'t \<Rightarrow> nat \<Rightarrow> 'c option"
    and put :: "'t \<Rightarrow> 'c \<Rightarrow> nat \<times> 't"
    and put_at :: "'t \<Rightarrow> nat \<Rightarrow> 'c \<Rightarrow> 't"
    and take_out :: "'t \<Rightarrow> nat \<Rightarrow> 'c option \<times> 't"
  assumes put_lookup: "put t c = (h, t') \<Longrightarrow> lookup t' = (lookup t)(h \<mapsto> c)"
    and put_free: "put t c = (h, t') \<Longrightarrow> lookup t h = None"
    and put_least: "put t c = (h, t') \<Longrightarrow> i < h \<Longrightarrow> lookup t i \<noteq> None"
    and put_at_lookup: "lookup (put_at t h c) = (lookup t)(h \<mapsto> c)"
    and take_out_lookup: "take_out t h = (r, t') \<Longrightarrow> r = lookup t h \<and> lookup t' = (lookup t)(h := None)"
begin

lemma put_keeps:
  assumes "put t c = (h, t')" and "lookup t i = Some d"
  shows "lookup t' i = Some d"
  using put_lookup [OF assms(1)] put_free [OF assms(1)] assms(2) by auto

lemma put_all_keeps:
  "put_all put t cs = (hs, t') \<Longrightarrow> lookup t i = Some d \<Longrightarrow> lookup t' i = Some d"
proof (induction cs arbitrary: t hs)
  case (Cons c cs)
  then show ?case
    by (auto split: prod.splits dest: put_keeps)
qed simp

lemma put_all_length: "put_all put t cs = (hs, t') \<Longrightarrow> length hs = length cs"
  by (induction cs arbitrary: t hs) (auto split: prod.splits)

lemma put_all_free:
  "put_all put t cs = (hs, t') \<Longrightarrow> h \<in> set hs \<Longrightarrow> lookup t h = None"
proof (induction cs arbitrary: t hs)
  case (Cons c cs)
  from Cons.prems(1) obtain h0 t0 hs0 where
    p: "put t c = (h0, t0)" "put_all put t0 cs = (hs0, t')" "hs = h0 # hs0"
    by (auto split: prod.splits)
  show ?case
  proof (cases "h = h0")
    case True
    then show ?thesis using put_free [OF p(1)] by simp
  next
    case False
    with Cons.prems(2) p(3) have "h \<in> set hs0" by simp
    then have "lookup t0 h = None" by (rule Cons.IH [OF p(2)])
    then show ?thesis using put_lookup [OF p(1)] by (auto split: if_splits)
  qed
qed simp

lemma put_all_distinct: "put_all put t cs = (hs, t') \<Longrightarrow> distinct hs"
proof (induction cs arbitrary: t hs)
  case (Cons c cs)
  from Cons.prems obtain h0 t0 hs0 where
    p: "put t c = (h0, t0)" "put_all put t0 cs = (hs0, t')" "hs = h0 # hs0"
    by (auto split: prod.splits)
  have "lookup t0 h0 = Some c" using put_lookup [OF p(1)] by simp
  then have "h0 \<notin> set hs0" using put_all_free [OF p(2)] by force
  with Cons.IH [OF p(2)] p(3) show ?case by simp
qed simp

lemma put_all_nth:
  "put_all put t cs = (hs, t') \<Longrightarrow> i < length cs \<Longrightarrow> lookup t' (hs ! i) = Some (cs ! i)"
proof (induction cs arbitrary: t hs i)
  case (Cons c cs)
  from Cons.prems(1) obtain h0 t0 hs0 where
    p: "put t c = (h0, t0)" "put_all put t0 cs = (hs0, t')" "hs = h0 # hs0"
    by (auto split: prod.splits)
  have "lookup t' h0 = Some c"
    using put_all_keeps [OF p(2)] put_lookup [OF p(1)] by simp
  with Cons.IH [OF p(2)] Cons.prems(2) p(3) show ?case
    by (cases i) auto
qed simp

lemma copy_slots_lookup:
  "lookup (copy_slots put_at i cs t) h =
     (if i \<le> h \<and> h < i + length cs \<and> cs ! (h - i) \<noteq> None then cs ! (h - i) else lookup t h)"
proof (induction cs arbitrary: i t)
  case (Cons c cs)
  show ?case
    by (cases c) (auto simp: Cons.IH put_at_lookup nth_Cons' not_less_eq_eq Suc_le_eq)
qed auto

end

section \<open>The code implements the interface\<close>

lemma insert_slots_spec:
  "insert_slots ss cap = (h, ss') \<Longrightarrow>
     h \<le> length ss \<and>
     ss' = (if h < length ss then ss[h := Some cap] else ss @ [Some cap]) \<and>
     (h < length ss \<longrightarrow> ss ! h = None) \<and> (\<forall>i < h. ss ! i \<noteq> None)"
proof (induction ss cap arbitrary: h ss' rule: insert_slots.induct)
  case (3 d ss cap)
  then show ?case
    by (force split: prod.splits simp: nth_Cons' less_Suc_eq_0_disj)
qed auto

lemma cspace_get_insert:
  assumes "cspace_insert cs cap = (h, cs')"
  shows "cspace_get cs' = (cspace_get cs)(h \<mapsto> cap)"
proof -
  from assms obtain ss' where ins: "insert_slots (slots cs) cap = (h, ss')"
    and cs': "cs' = cs\<lparr>slots := ss'\<rparr>"
    by (auto simp: cspace_insert_def split: prod.splits)
  from insert_slots_spec [OF ins] show ?thesis
    by (auto simp: cs' cspace_get_def fun_eq_iff nth_append nth_list_update)
qed

lemma cspace_insert_free:
  "cspace_insert cs cap = (h, cs') \<Longrightarrow> cspace_get cs h = None"
  by (auto simp: cspace_insert_def cspace_get_def split: prod.splits dest: insert_slots_spec)

lemma cspace_insert_least:
  "cspace_insert cs cap = (h, cs') \<Longrightarrow> i < h \<Longrightarrow> cspace_get cs i \<noteq> None"
  by (auto simp: cspace_insert_def cspace_get_def split: prod.splits dest!: insert_slots_spec)

lemma cspace_get_insert_at:
  "cspace_get (cspace_insert_at cs h cap) = (cspace_get cs)(h \<mapsto> cap)"
  by (auto simp: cspace_get_def cspace_insert_at_def Let_def fun_eq_iff nth_append nth_list_update)

interpretation cs: slot_table cspace_get cspace_insert cspace_insert_at cspace_remove
proof unfold_locales
  fix t h r t'
  assume "cspace_remove t h = (r, t')"
  then show "r = cspace_get t h \<and> cspace_get t' = (cspace_get t)(h := None)"
    by (auto simp: cspace_remove_def cspace_get_def fun_eq_iff nth_list_update split: if_splits)
qed (fact cspace_get_insert cspace_insert_free cspace_insert_least cspace_get_insert_at)+

section \<open>Properties\<close>

lemma cspace_get_new [simp]: "cspace_get cspace_new h = None"
  by (simp add: cspace_get_def cspace_new_def)

text \<open>The set of capabilities held in a capability space.\<close>

definition caps_of :: "cspace \<Rightarrow> capability set" where
  "caps_of cs = ran (cspace_get cs)"

lemma caps_of_alt: "caps_of cs = {c. Some c \<in> set (slots cs)}"
  by (auto simp: caps_of_def ran_def cspace_get_def in_set_conv_nth split: if_splits)

lemma caps_of_new [simp]: "caps_of cspace_new = {}"
  by (simp add: caps_of_def ran_def)

lemma caps_of_insert:
  assumes "cspace_insert cs cap = (h, cs')"
  shows "caps_of cs' = insert cap (caps_of cs)"
  using cspace_get_insert [OF assms] cspace_insert_free [OF assms]
  by (simp add: caps_of_def ran_map_upd)

lemma caps_of_insert_at: "caps_of (cspace_insert_at cs h cap) \<subseteq> insert cap (caps_of cs)"
  by (auto simp: caps_of_def cspace_get_insert_at ran_def split: if_splits)

lemma cspace_getD: "cspace_get cs h = Some c \<Longrightarrow> c \<in> caps_of cs"
  by (auto simp: caps_of_def ran_def)

end
