(* ===== verification/Kernel_State.thy ===== *)
theory Kernel_State
  imports Capability
begin

text \<open>
  The data of the task and IPC subsystems: \<^verbatim>\<open>kernel/src/task/context.rs\<close>, \<^verbatim>\<open>kernel/src/ipc/mod.rs\<close>,
  the structures of \<^verbatim>\<open>kernel/src/task/process.rs\<close> and \<^verbatim>\<open>kernel/src/task/scheduler.rs\<close>, and the
  kernel state they live in.

  Objects behind an \<open>Arc\<close> (endpoints, process states, capability spaces) live in stores
  indexed by numbers; a counter per store gives the next fresh reference. A store is a total
  function because a Rust reference is never dangling. The single \<open>Mutex\<close>es are not
  modelled: the kernel runs on one processor, system calls run with interrupts masked
  (\<open>SFMask\<close>) and every lock is released before a context switch. \<open>STATE_TO_UPDATE\<close>, a raw
  pointer to the \<open>state\<close> field of a thread, is the id of this thread.
\<close>

section \<open>Saved contexts\<close>

record cpu_context =
  ctx_r15 :: u64
  ctx_r14 :: u64
  ctx_r13 :: u64
  ctx_r12 :: u64
  ctx_rbp :: u64
  ctx_rbx :: u64
  ctx_rip :: u64

definition context_empty :: cpu_context where
  "context_empty = \<lparr>ctx_r15 = 0, ctx_r14 = 0, ctx_r13 = 0, ctx_r12 = 0, ctx_rbp = 0, ctx_rbx = 0,
     ctx_rip = 0\<rparr>"

text \<open>\<open>core::mem::size_of::<Context>()\<close>: seven 64-bit fields, \<open>repr(C)\<close>.\<close>

definition CONTEXT_SIZE :: u64 where "CONTEXT_SIZE = 56"

record interrupt_context =
  ic_r15 :: u64
  ic_r14 :: u64
  ic_r13 :: u64
  ic_r12 :: u64
  ic_r11 :: u64
  ic_r10 :: u64
  ic_r9 :: u64
  ic_r8 :: u64
  ic_rdi :: u64
  ic_rsi :: u64
  ic_rbp :: u64
  ic_rbx :: u64
  ic_rdx :: u64
  ic_rcx :: u64
  ic_rax :: u64
  ic_rip :: u64
  ic_cs :: u64
  ic_rflags :: u64
  ic_rsp :: u64
  ic_ss :: u64

datatype saved_thread_state =
    Cooperative u64  \<comment> \<open>stack pointer to a \<open>Context\<close>\<close>
  | Preemptive u64   \<comment> \<open>stack pointer to an \<open>InterruptContext\<close>\<close>

section \<open>Messages\<close>

record message =
  msg_rdi :: u64
  msg_rsi :: u64
  msg_rdx :: u64
  msg_r10 :: u64
  msg_r8 :: u64
  msg_r9 :: u64

definition message_zero :: message where
  "message_zero = \<lparr>msg_rdi = 0, msg_rsi = 0, msg_rdx = 0, msg_r10 = 0, msg_r8 = 0, msg_r9 = 0\<rparr>"

text \<open>A \<open>MessagePtr\<close> points to the \<open>msg_buf\<close> of one blocked call of \<open>sys_recv\<close>.\<close>

type_synonym message_ptr = nat

section \<open>Threads, endpoints, processes\<close>

type_synonym cspace_id = nat

record thread =
  tid :: u64
  state :: saved_thread_state
  stack :: "u64 \<times> u64"  \<comment> \<open>address and length of the kernel stack\<close>
  cr3 :: "u64 option"
  cspace_ref :: "cspace_id option"
  pstate_ref :: "proc_ref option"

datatype endpoint_state =
    Idle
  | SendersWaiting "(thread \<times> message) list"
  | ReceiversWaiting "(thread \<times> message_ptr) list"

record process_state =
  terminated :: bool
  wait_queue :: "thread list"

definition process_state_new :: process_state where
  "process_state_new = \<lparr>terminated = False, wait_queue = []\<rparr>"

section \<open>Kernel stacks\<close>

text \<open>
  What lies at a saved stack pointer: the context that a thread constructor wrote, the
  registers that \<open>switch_context\<close> or \<open>switch_context_to_preemptive\<close> pushed inside a blocking
  call, or the frame of an interrupt. A suspended call is identified by the call and by what
  its caller does with the result. A frame that has been popped is not there any more.
\<close>

datatype kcaller =
    From_Syscall u64  \<comment> \<open>\<open>syscall_handler\<close> copies the message to this user address\<close>
  | From_Kernel

datatype kcall =
    In_Yield
  | In_Wait
  | In_Send
  | In_Recv message_ptr kcaller
  | In_Wait_Irq
  | In_Exit

datatype switch_kind = By_Switch_Context | By_Switch_To_Preemptive

datatype kframe =
    Fresh_Context cpu_context
  | Suspended switch_kind kcall
  | Interrupted interrupt_context

section \<open>Device accesses\<close>

datatype io_event =
    Mmio_Write u64 u32
  | Port_Write u16 u8 u32  \<comment> \<open>port, width in bytes, value\<close>
  | Port_Read u16 u8
  | Pic_End_Of_Interrupt u8  \<comment> \<open>\<open>notify_end_of_interrupt\<close> of the \<open>pic8259\<close> crate\<close>
  | Pic_Initialize  \<comment> \<open>\<open>initialize\<close>, \<open>write_masks\<close> of that crate\<close>
  | Pic_Write_Masks u8 u8

section \<open>The scheduler and the kernel\<close>

record scheduler =
  run_queue :: "thread list"
  current :: "thread option"
  irq_waiters :: "u8 \<Rightarrow> thread option"
  pending_irqs :: "u8 \<Rightarrow> bool"

definition scheduler_new :: scheduler where
  "scheduler_new = \<lparr>run_queue = [], current = None, irq_waiters = (\<lambda>_. None),
     pending_irqs = (\<lambda>_. False)\<rparr>"

text \<open>
  The kernel extends the scheduler by the other statics, the object stores, the kernel
  stacks and the processor registers that a context switch writes. The last fields are
  parameters of the model: addresses of symbols, selectors, and whether the constructors
  \<open>VirtAddr::new\<close> and \<open>PhysFrame::from_start_address\<close> of the \<open>x86_64\<close> crate accept an address.
\<close>

record kernel = scheduler +
  state_to_update :: "u64 option"
  next_user_id :: u64
  next_kernel_id :: u64
  endpoints :: "nat \<Rightarrow> endpoint_state"
  next_ep :: nat
  procs :: "nat \<Rightarrow> process_state"
  next_proc :: nat
  cspaces :: "nat \<Rightarrow> cspace"
  next_cspace :: nat
  msg_bufs :: "nat \<Rightarrow> message"
  next_buf :: nat
  kstack :: "u64 \<Rightarrow> kframe option"
  tss_rsp0 :: u64
  percpu_kernel_stack :: u64
  cr3_reg :: u64
  io_trace :: "io_event list"
  lapic_addr :: u64
  hhdm_offset :: u64
  sym_user_trampoline :: u64
  sym_thread_entry_stub :: u64
  user_code_selector :: u64
  user_data_selector :: u64
  virt_addr_ok :: "u64 \<Rightarrow> bool"
  phys_frame_ok :: "u64 \<Rightarrow> bool"

section \<open>All threads of the kernel\<close>

text \<open>
  A thread that does not run is parked in one of the queues of the kernel. The reason why it
  waits tells what its suspended call expects when it goes on.
\<close>

datatype waiting =
    For_Cpu
  | For_Receiver
  | For_Message message_ptr
  | For_Exit
  | For_Irq

definition ep_parked :: "endpoint_state \<Rightarrow> (thread \<times> waiting) list" where
  "ep_parked e =
     (case e of
        Idle \<Rightarrow> []
      | SendersWaiting q \<Rightarrow> map (\<lambda>(t, m). (t, For_Receiver)) q
      | ReceiversWaiting q \<Rightarrow> map (\<lambda>(t, b). (t, For_Message b)) q)"

lemma ep_parked_simps [simp]:
  "ep_parked Idle = []"
  "ep_parked (SendersWaiting q) = map (\<lambda>(t, m). (t, For_Receiver)) q"
  "ep_parked (ReceiversWaiting r) = map (\<lambda>(t, b). (t, For_Message b)) r"
  by (simp_all add: ep_parked_def)

definition proc_parked :: "process_state \<Rightarrow> (thread \<times> waiting) list" where
  "proc_parked p = map (\<lambda>t. (t, For_Exit)) (wait_queue p)"

definition irq_parked :: "thread option \<Rightarrow> (thread \<times> waiting) list" where
  "irq_parked w = map (\<lambda>t. (t, For_Irq)) (opt_list w)"

text \<open>The three stores of waiting threads; the 256 interrupt slots are read in order.\<close>

definition irqs_parked :: "(u8 \<Rightarrow> thread option) \<Rightarrow> (thread \<times> waiting) list" where
  "irqs_parked w = concat (map (\<lambda>i. irq_parked (w (of_nat i))) [0..<256])"

definition eps_parked :: "(nat \<Rightarrow> endpoint_state) \<Rightarrow> nat \<Rightarrow> (thread \<times> waiting) list" where
  "eps_parked f n = concat (map (\<lambda>e. ep_parked (f e)) [0..<n])"

definition procs_parked :: "(nat \<Rightarrow> process_state) \<Rightarrow> nat \<Rightarrow> (thread \<times> waiting) list" where
  "procs_parked f n = concat (map (\<lambda>p. proc_parked (f p)) [0..<n])"

definition parked :: "'a kernel_scheme \<Rightarrow> (thread \<times> waiting) list" where
  "parked k =
     map (\<lambda>t. (t, For_Cpu)) (run_queue k) @ irqs_parked (irq_waiters k) @
     eps_parked (endpoints k) (next_ep k) @ procs_parked (procs k) (next_proc k)"

definition all_threads :: "'a kernel_scheme \<Rightarrow> thread list" where
  "all_threads k = opt_list (current k) @ map fst (parked k)"

text \<open>
  The roster of the kernel: all threads with multiplicity, each with everything but its saved
  state (id, kernel stack, address space, capability space, process).
\<close>

definition static_part :: "thread \<Rightarrow> thread" where
  "static_part t = t\<lparr>state := Cooperative 0\<rparr>"

definition roster :: "'a kernel_scheme \<Rightarrow> thread multiset" where
  "roster k = image_mset static_part (mset (all_threads k))"

lemma static_part_sel [simp]:
  "static_part (t\<lparr>state := st\<rparr>) = static_part t"
  "tid (static_part t) = tid t"
  "cspace_ref (static_part t) = cspace_ref t"
  "pstate_ref (static_part t) = pstate_ref t"
  by (simp_all add: static_part_def)

lemma mset_irqs_parked_upd:
  "mset (irqs_parked (w(i := t))) + mset (irq_parked (w i)) = mset (irqs_parked w) + mset (irq_parked t)"
proof -
  let ?f = "\<lambda>n :: nat. irq_parked (w (of_nat n))"
  have n: "unat i < 256" using unsigned_less [of i] by simp
  have eq: "map (\<lambda>n. irq_parked ((w(i := t)) (of_nat n))) [0..<256] = map (?f(unat i := irq_parked t)) [0..<256]"
  proof (rule map_cong [OF refl])
    fix m assume "m \<in> set [0..<256 :: nat]"
    then have "unat (of_nat m :: u8) = m" by (simp add: unat_of_nat)
    then have "(of_nat m :: u8) = i \<longleftrightarrow> m = unat i" by (metis word_of_nat_eq_iff word_unat_eq_iff unat_of_nat)
    then show "irq_parked ((w(i := t)) (of_nat m)) = (?f(unat i := irq_parked t)) m" by auto
  qed
  show ?thesis
    unfolding irqs_parked_def eq using mset_concat_map_upd [OF n, of ?f "irq_parked t"] by simp
qed

lemma mset_eps_parked_upd:
  assumes "e < n"
  shows "mset (eps_parked (f(e := s)) n) + mset (ep_parked (f e))
     = mset (eps_parked f n) + mset (ep_parked s)"
proof -
  have "(\<lambda>i. ep_parked ((f(e := s)) i)) = (\<lambda>i. ep_parked (f i))(e := ep_parked s)" by auto
  then show ?thesis
    unfolding eps_parked_def using mset_concat_map_upd [OF assms, of "\<lambda>i. ep_parked (f i)"] by simp
qed

lemma mset_procs_parked_upd:
  assumes "p < n"
  shows "mset (procs_parked (f(p := s)) n) + mset (proc_parked (f p))
     = mset (procs_parked f n) + mset (proc_parked s)"
proof -
  have "(\<lambda>i. proc_parked ((f(p := s)) i)) = (\<lambda>i. proc_parked (f i))(p := proc_parked s)" by auto
  then show ?thesis
    unfolding procs_parked_def using mset_concat_map_upd [OF assms, of "\<lambda>i. proc_parked (f i)"] by simp
qed

text \<open>A fresh object has no waiting threads.\<close>

lemma eps_parked_fresh: "eps_parked (f(n := Idle)) (Suc n) = eps_parked f n"
  by (auto simp: eps_parked_def intro!: arg_cong [where f = concat])

lemma procs_parked_fresh: "procs_parked (f(n := process_state_new)) (Suc n) = procs_parked f n"
  by (auto simp: procs_parked_def proc_parked_def process_state_new_def intro!: arg_cong [where f = concat])

section \<open>References in range\<close>

fun cap_in_range :: "'a kernel_scheme \<Rightarrow> capability \<Rightarrow> bool" where
  "cap_in_range k (Endpoint e _) = (e < next_ep k)"
| "cap_in_range k (Process p _) = (p < next_proc k)"
| "cap_in_range k _ = True"

definition thread_in_range :: "'a kernel_scheme \<Rightarrow> thread \<Rightarrow> bool" where
  "thread_in_range k t \<longleftrightarrow>
     (case cspace_ref t of None \<Rightarrow> True | Some c \<Rightarrow> c < next_cspace k) \<and>
     (case pstate_ref t of None \<Rightarrow> True | Some p \<Rightarrow> p < next_proc k)"

lemma thread_in_range_alt:
  "thread_in_range k t \<longleftrightarrow>
     (\<forall>c. cspace_ref t = Some c \<longrightarrow> c < next_cspace k) \<and> (\<forall>p. pstate_ref t = Some p \<longrightarrow> p < next_proc k)"
  by (simp add: thread_in_range_def split: option.split)

definition slots_in_range :: "'a kernel_scheme \<Rightarrow> cspace \<Rightarrow> bool" where
  "slots_in_range k cs =
     list_all (\<lambda>s. case s of None \<Rightarrow> True | Some cap \<Rightarrow> cap_in_range k cap) (slots cs)"

definition refs_ok :: "'a kernel_scheme \<Rightarrow> bool" where
  "refs_ok k \<longleftrightarrow>
     list_all (\<lambda>c. slots_in_range k (cspaces k c)) [0..<next_cspace k] \<and>
     list_all (thread_in_range k) (all_threads k)"

lemma refs_ok_alt:
  "refs_ok k \<longleftrightarrow>
     (\<forall>c < next_cspace k. \<forall>cap \<in> caps_of (cspaces k c). cap_in_range k cap) \<and>
     (\<forall>t \<in> set (all_threads k). thread_in_range k t)"
  by (fastforce simp: refs_ok_def slots_in_range_def list_all_iff caps_of_alt split: option.splits)

section \<open>A kernel without threads\<close>

text \<open>
  The statics as they are initialised, with example values for the parameters. The witnesses
  of the properties are built on it.
\<close>

definition empty_kernel :: kernel where
  "empty_kernel =
     \<lparr>run_queue = [], current = None, irq_waiters = (\<lambda>_. None), pending_irqs = (\<lambda>_. False),
      state_to_update = None, next_user_id = 1, next_kernel_id = 1,
      endpoints = (\<lambda>_. Idle), next_ep = 0,
      procs = (\<lambda>_. process_state_new), next_proc = 0,
      cspaces = (\<lambda>_. cspace_new), next_cspace = 0,
      msg_bufs = (\<lambda>_. message_zero), next_buf = 0,
      kstack = (\<lambda>_. None), tss_rsp0 = 0, percpu_kernel_stack = 0, cr3_reg = 0,
      io_trace = [], lapic_addr = 0xFEE00000, hhdm_offset = 0,
      sym_user_trampoline = 0x100, sym_thread_entry_stub = 0x200,
      user_code_selector = 0x23, user_data_selector = 0x1B,
      virt_addr_ok = (\<lambda>_. True), phys_frame_ok = (\<lambda>_. True)\<rparr>"

end
