(* ===== verification/Scheduler.thy ===== *)
theory Scheduler
  imports Kernel_State
begin

text \<open>
  The scheduler, \<^verbatim>\<open>kernel/src/task/scheduler.rs\<close>, with the stack switches of
  \<^verbatim>\<open>kernel/src/task/switch.s\<close> and the device interrupt handlers of
  \<^verbatim>\<open>kernel/src/arch/x86_64/idt.rs\<close>.

  An operation returns a panic or an outcome and the new kernel state. An outcome is the
  value the call returns to its caller, or the code that runs next after a context switch,
  or that the processor is still halted when the given interrupts have been delivered. The
  stack pointer at a switch is an input (\<open>old_rsp\<close>), and so are the batches of interrupts that
  arrive while the processor is halted.
\<close>

section \<open>Outcomes\<close>

datatype resumed =
    Return_From kcall              \<comment> \<open>a suspended call goes on\<close>
  | Enter_User interrupt_context   \<comment> \<open>\<open>iretq\<close> to this context\<close>
  | Call_Kernel_Thread u64         \<comment> \<open>\<open>call r12\<close> in \<open>thread_entry_stub\<close>\<close>

datatype 'r outcome =
    Returned 'r
  | Switched resumed
  | Halted

section \<open>Threads\<close>

definition STACK_SIZE :: u64 where "STACK_SIZE = 8192"

text \<open>\<open>stack_ptr\<close> is the address the heap gives for the kernel stack.\<close>

definition new_kernel_thread ::
  "u64 \<Rightarrow> u64 \<Rightarrow> 'a kernel_scheme \<Rightarrow> thread \<times> 'a kernel_scheme" where
  "new_kernel_thread entry_point stack_ptr k =
     (let context_ptr = stack_ptr + STACK_SIZE - CONTEXT_SIZE;
          c = context_empty\<lparr>ctx_rip := sym_thread_entry_stub k, ctx_r12 := entry_point\<rparr>
      in (\<lparr>tid = next_kernel_id k, state = Cooperative context_ptr, stack = (stack_ptr, STACK_SIZE),
           cr3 = None, cspace_ref = Some (next_cspace k), pstate_ref = None\<rparr>,
          k\<lparr>next_kernel_id := next_kernel_id k + 1,
            kstack := (kstack k)(context_ptr \<mapsto> Fresh_Context c),
            cspaces := (cspaces k)(next_cspace k := cspace_new),
            next_cspace := next_cspace k + 1\<rparr>))"

definition new_user_thread ::
  "u64 \<Rightarrow> u64 \<Rightarrow> u64 \<Rightarrow> cspace_id \<Rightarrow> proc_ref \<Rightarrow> u64 \<Rightarrow> 'a kernel_scheme \<Rightarrow>
     thread \<times> 'a kernel_scheme" where
  "new_user_thread entry_point user_stack cr3_phys cs ps stack_ptr k =
     (let context_ptr = stack_ptr + STACK_SIZE - CONTEXT_SIZE;
          c = context_empty\<lparr>ctx_rip := sym_user_trampoline k, ctx_r12 := entry_point,
                ctx_r13 := user_stack\<rparr>
      in (\<lparr>tid = next_user_id k, state = Cooperative context_ptr, stack = (stack_ptr, STACK_SIZE),
           cr3 = Some cr3_phys, cspace_ref = Some cs, pstate_ref = Some ps\<rparr>,
          k\<lparr>next_user_id := next_user_id k + 1,
            kstack := (kstack k)(context_ptr \<mapsto> Fresh_Context c)\<rparr>))"

definition user_trampoline_rust :: "u64 \<Rightarrow> u64 \<Rightarrow> 'a kernel_scheme \<Rightarrow> interrupt_context" where
  "user_trampoline_rust entry_point user_stack k =
     \<lparr>ic_r15 = 0, ic_r14 = 0, ic_r13 = 0, ic_r12 = 0, ic_r11 = 0, ic_r10 = 0, ic_r9 = 0, ic_r8 = 0,
      ic_rdi = 0, ic_rsi = 0, ic_rbp = 0, ic_rbx = 0, ic_rdx = 0, ic_rcx = 0, ic_rax = 0,
      ic_rip = entry_point,
      ic_cs = user_code_selector k,
      ic_rflags = 0x202,
      ic_rsp = user_stack,
      ic_ss = user_data_selector k\<rparr>"

section \<open>Picking the next thread\<close>

definition add_thread :: "thread \<Rightarrow> 'a kernel_scheme \<Rightarrow> 'a kernel_scheme" where
  "add_thread t k = k\<lparr>run_queue := run_queue k @ [t]\<rparr>"

definition set_tss_rsp0 :: "u64 \<Rightarrow> 'a kernel_scheme \<Rightarrow> panic + 'a kernel_scheme" where
  "set_tss_rsp0 rsp0 k =
     (if virt_addr_ok k rsp0 then Inr (k\<lparr>tss_rsp0 := rsp0\<rparr>) else Inl (Panic ''VirtAddr::new''))"

definition set_kernel_stack :: "u64 \<Rightarrow> 'a kernel_scheme \<Rightarrow> 'a kernel_scheme" where
  "set_kernel_stack rsp k = k\<lparr>percpu_kernel_stack := rsp\<rparr>"

definition prepare_thread_switch :: "thread \<Rightarrow> 'a kernel_scheme \<Rightarrow> panic + 'a kernel_scheme" where
  "prepare_thread_switch next_thread k =
     (let stack_top = fst (stack next_thread) + snd (stack next_thread)
      in case set_tss_rsp0 stack_top k of
           Inl p \<Rightarrow> Inl p
         | Inr k1 \<Rightarrow>
             let k2 = set_kernel_stack stack_top k1
             in case cr3 next_thread of
                  None \<Rightarrow> Inr k2
                | Some new_cr3 \<Rightarrow>
                    if cr3_reg k2 \<noteq> new_cr3
                    then if phys_frame_ok k2 new_cr3 then Inr (k2\<lparr>cr3_reg := new_cr3\<rparr>)
                         else Inl Unwrap_None
                    else Inr k2)"

definition pick_next ::
  "saved_thread_state \<Rightarrow> 'a kernel_scheme \<Rightarrow> panic + saved_thread_state \<times> 'a kernel_scheme" where
  "pick_next saved_state k =
     (let k1 = (case current k of
                  None \<Rightarrow> k
                | Some c \<Rightarrow> k\<lparr>current := None, run_queue := run_queue k @ [c\<lparr>state := saved_state\<rparr>]\<rparr>)
      in case run_queue k1 of
           [] \<Rightarrow> Inr (saved_state, k1)
         | next # rest \<Rightarrow>
             (case prepare_thread_switch next (k1\<lparr>run_queue := rest\<rparr>) of
                Inl p \<Rightarrow> Inl p
              | Inr k2 \<Rightarrow> Inr (state next, k2\<lparr>current := Some next\<rparr>)))"

section \<open>Context switches\<close>

text \<open>The write through \<open>STATE_TO_UPDATE\<close> reaches the thread wherever it is stored.\<close>

definition upd_state :: "u64 \<Rightarrow> saved_thread_state \<Rightarrow> thread \<Rightarrow> thread" where
  "upd_state i st t = (if tid t = i then t\<lparr>state := st\<rparr> else t)"

definition map_ep :: "(thread \<Rightarrow> thread) \<Rightarrow> endpoint_state \<Rightarrow> endpoint_state" where
  "map_ep f e =
     (case e of
        Idle \<Rightarrow> Idle
      | SendersWaiting q \<Rightarrow> SendersWaiting (map (apfst f) q)
      | ReceiversWaiting q \<Rightarrow> ReceiversWaiting (map (apfst f) q))"

definition set_thread_state :: "u64 \<Rightarrow> saved_thread_state \<Rightarrow> 'a kernel_scheme \<Rightarrow> 'a kernel_scheme" where
  "set_thread_state i st k =
     (let f = upd_state i st
      in k\<lparr>run_queue := map f (run_queue k),
           current := map_option f (current k),
           irq_waiters := (\<lambda>n. map_option f (irq_waiters k n)),
           endpoints := (\<lambda>e. map_ep f (endpoints k e)),
           procs := (\<lambda>p. (procs k p)\<lparr>wait_queue := map f (wait_queue (procs k p))\<rparr>)\<rparr>)"

definition after_switch :: "u64 \<Rightarrow> 'a kernel_scheme \<Rightarrow> 'a kernel_scheme" where
  "after_switch old_rsp k =
     (case state_to_update k of
        None \<Rightarrow> k
      | Some i \<Rightarrow> (set_thread_state i (Cooperative old_rsp) k)\<lparr>state_to_update := None\<rparr>)"

definition push_frame :: "u64 \<Rightarrow> kframe \<Rightarrow> 'a kernel_scheme \<Rightarrow> 'a kernel_scheme" where
  "push_frame rsp f k = k\<lparr>kstack := (kstack k)(rsp \<mapsto> f)\<rparr>"

definition pop_frame :: "u64 \<Rightarrow> 'a kernel_scheme \<Rightarrow> 'a kernel_scheme" where
  "pop_frame rsp k = k\<lparr>kstack := (kstack k)(rsp := None)\<rparr>"

text \<open>
  The common tail of \<open>switch_context\<close>, \<open>switch_context_to_cooperative\<close> and of the timer stub:
  pop the registers at \<open>new_rsp\<close> and return into the code that pushed them, with \<open>rax\<close> as the
  value \<open>switch_context\<close> seems to return. The trampolines and the code after \<open>switch_context\<close>
  call \<open>after_switch(rax)\<close>; the code after \<open>switch_context_to_preemptive\<close> does not.
\<close>

definition resume_cooperative ::
  "u64 \<Rightarrow> u64 \<Rightarrow> 'a kernel_scheme \<Rightarrow> panic + resumed \<times> 'a kernel_scheme" where
  "resume_cooperative new_rsp rax k =
     (let k1 = pop_frame new_rsp k
      in case kstack k new_rsp of
           Some (Fresh_Context c) \<Rightarrow>
             if ctx_rip c = sym_user_trampoline k
             then Inr (Enter_User (user_trampoline_rust (ctx_r12 c) (ctx_r13 c) k), after_switch rax k1)
             else if ctx_rip c = sym_thread_entry_stub k
             then Inr (Call_Kernel_Thread (ctx_r12 c), after_switch rax k1)
             else Inl Undefined_Behaviour
         | Some (Suspended By_Switch_Context call) \<Rightarrow> Inr (Return_From call, after_switch rax k1)
         | Some (Suspended By_Switch_To_Preemptive call) \<Rightarrow> Inr (Return_From call, k1)
         | Some (Interrupted _) \<Rightarrow> Inl Undefined_Behaviour
         | None \<Rightarrow> Inl Undefined_Behaviour)"

definition resume_preemptive ::
  "u64 \<Rightarrow> 'a kernel_scheme \<Rightarrow> panic + resumed \<times> 'a kernel_scheme" where
  "resume_preemptive new_rsp k =
     (case kstack k new_rsp of
        Some (Interrupted ic) \<Rightarrow> Inr (Enter_User ic, pop_frame new_rsp k)
      | _ \<Rightarrow> Inl Undefined_Behaviour)"

definition switch_context ::
  "u64 \<Rightarrow> u64 \<Rightarrow> kcall \<Rightarrow> 'a kernel_scheme \<Rightarrow> panic + resumed \<times> 'a kernel_scheme" where
  "switch_context new_rsp old_rsp call k =
     resume_cooperative new_rsp old_rsp (push_frame old_rsp (Suspended By_Switch_Context call) k)"

definition switch_context_to_preemptive ::
  "u64 \<Rightarrow> u64 \<Rightarrow> kcall \<Rightarrow> 'a kernel_scheme \<Rightarrow> panic + resumed \<times> 'a kernel_scheme" where
  "switch_context_to_preemptive new_rsp old_rsp call k =
     resume_preemptive new_rsp
       (after_switch old_rsp (push_frame old_rsp (Suspended By_Switch_To_Preemptive call) k))"

text \<open>The \<open>match next_state\<close> that ends every blocking call.\<close>

definition switch_to ::
  "saved_thread_state \<Rightarrow> u64 \<Rightarrow> kcall \<Rightarrow> 'a kernel_scheme \<Rightarrow> panic + resumed \<times> 'a kernel_scheme" where
  "switch_to next_state old_rsp call k =
     (case next_state of
        Cooperative new_rsp \<Rightarrow> switch_context new_rsp old_rsp call k
      | Preemptive new_rsp \<Rightarrow> switch_context_to_preemptive new_rsp old_rsp call k)"

section \<open>Interrupts\<close>

definition io :: "io_event \<Rightarrow> 'a kernel_scheme \<Rightarrow> 'a kernel_scheme" where
  "io e k = k\<lparr>io_trace := io_trace k @ [e]\<rparr>"

definition eoi :: "'a kernel_scheme \<Rightarrow> 'a kernel_scheme" where
  "eoi k = (if lapic_addr k \<noteq> 0 then io (Mmio_Write (lapic_addr k + hhdm_offset k + 0xB0) 0) k else k)"

text \<open>The pair is \<open>SchedulerReturn\<close>: the tag (0 cooperative, 1 preemptive) and the stack pointer.\<close>

definition timer_tick_handler ::
  "u64 \<Rightarrow> 'a kernel_scheme \<Rightarrow> panic + (u64 \<times> u64) \<times> 'a kernel_scheme" where
  "timer_tick_handler rsp k =
     (case pick_next (Preemptive rsp) k of
        Inl p \<Rightarrow> Inl p
      | Inr (next_state, k1) \<Rightarrow>
          Inr (case next_state of Cooperative sp \<Rightarrow> (0, sp) | Preemptive sp \<Rightarrow> (1, sp), eoi k1))"

text \<open>
  The stub pushes the interrupt context \<open>ic\<close> at \<open>rsp\<close>. At the cooperative exit \<open>rax\<close> holds the
  tag 0 with its low byte overwritten by the command for the interrupt controller.
\<close>

definition timer_interrupt_stub ::
  "u64 \<Rightarrow> interrupt_context \<Rightarrow> 'a kernel_scheme \<Rightarrow> panic + resumed \<times> 'a kernel_scheme" where
  "timer_interrupt_stub rsp ic k =
     (case timer_tick_handler rsp (push_frame rsp (Interrupted ic) k) of
        Inl p \<Rightarrow> Inl p
      | Inr ((tag, sp), k1) \<Rightarrow>
          let k2 = io (Port_Write 0x20 1 0x20) k1
          in if tag = 0 then resume_cooperative sp 0x20 k2 else resume_preemptive sp k2)"

definition unblock_irq :: "u8 \<Rightarrow> 'a kernel_scheme \<Rightarrow> 'a kernel_scheme" where
  "unblock_irq irq k =
     (case irq_waiters k irq of
        Some t \<Rightarrow> k\<lparr>irq_waiters := (irq_waiters k)(irq := None), run_queue := run_queue k @ [t]\<rparr>
      | None \<Rightarrow> k\<lparr>pending_irqs := (pending_irqs k)(irq := True)\<rparr>)"

definition keyboard_interrupt_handler :: "'a kernel_scheme \<Rightarrow> 'a kernel_scheme" where
  "keyboard_interrupt_handler k = eoi (io (Pic_End_Of_Interrupt 33) (unblock_irq 1 k))"

definition ata_interrupt_handler :: "'a kernel_scheme \<Rightarrow> 'a kernel_scheme" where
  "ata_interrupt_handler k = eoi (io (Pic_End_Of_Interrupt 46) (unblock_irq 14 k))"

definition rtl8139_interrupt_handler :: "'a kernel_scheme \<Rightarrow> 'a kernel_scheme" where
  "rtl8139_interrupt_handler k = eoi (unblock_irq 11 k)"

datatype interrupt =
    Timer_Tick u64 interrupt_context
  | Keyboard_Irq
  | Ata_Irq
  | Rtl8139_Irq

section \<open>Waiting for a runnable thread\<close>

datatype idle_result =
    Woken              \<comment> \<open>the run queue is not empty: the loop ends\<close>
  | Still_Halted       \<comment> \<open>no further interrupt has arrived\<close>
  | Preempted resumed  \<comment> \<open>a timer tick switched to a thread from inside the loop\<close>

text \<open>
  One \<open>enable_and_hlt\<close>: the interrupts taken before \<open>disable\<close>. A timer tick that finds no
  thread at all returns into the loop.
\<close>

fun take_interrupts ::
  "interrupt list \<Rightarrow> 'a kernel_scheme \<Rightarrow> panic + resumed option \<times> 'a kernel_scheme" where
  "take_interrupts [] k = Inr (None, k)"
| "take_interrupts (Keyboard_Irq # is) k = take_interrupts is (keyboard_interrupt_handler k)"
| "take_interrupts (Ata_Irq # is) k = take_interrupts is (ata_interrupt_handler k)"
| "take_interrupts (Rtl8139_Irq # is) k = take_interrupts is (rtl8139_interrupt_handler k)"
| "take_interrupts (Timer_Tick rsp ic # is) k =
     (case timer_interrupt_stub rsp ic k of
        Inl p \<Rightarrow> Inl p
      | Inr (r, k1) \<Rightarrow> if current k1 = None then take_interrupts is k1 else Inr (Some r, k1))"

fun idle_loop ::
  "interrupt list list \<Rightarrow> 'a kernel_scheme \<Rightarrow> panic + idle_result \<times> 'a kernel_scheme" where
  "idle_loop bs k =
     (if run_queue k \<noteq> [] then Inr (Woken, k)
      else case bs of
             [] \<Rightarrow> Inr (Still_Halted, k)
           | b # bs' \<Rightarrow>
               (case take_interrupts b k of
                  Inl p \<Rightarrow> Inl p
                | Inr (Some r, k1) \<Rightarrow> Inr (Preempted r, k1)
                | Inr (None, k1) \<Rightarrow> idle_loop bs' k1))"

declare idle_loop.simps [simp del]

text \<open>
  The tail shared by \<open>sys_wait\<close>, \<open>sys_send\<close>, \<open>sys_recv\<close> and \<open>sys_wait_irq\<close>, from the
  \<open>while scheduler.run_queue.is_empty()\<close> loop to the \<open>match next_state\<close>.
\<close>

definition run_next ::
  "u64 \<Rightarrow> kcall \<Rightarrow> 'a kernel_scheme \<Rightarrow> panic + resumed \<times> 'a kernel_scheme" where
  "run_next old_rsp call k =
     (case run_queue k of
        [] \<Rightarrow> Inl Unwrap_None
      | next # rest \<Rightarrow>
          (case prepare_thread_switch next (k\<lparr>run_queue := rest\<rparr>) of
             Inl p \<Rightarrow> Inl p
           | Inr k1 \<Rightarrow> switch_to (state next) old_rsp call (k1\<lparr>current := Some next\<rparr>)))"

definition block ::
  "u64 \<Rightarrow> interrupt list list \<Rightarrow> kcall \<Rightarrow> 'a kernel_scheme \<Rightarrow> panic + 'r outcome \<times> 'a kernel_scheme" where
  "block old_rsp bs call k =
     (case idle_loop bs k of
        Inl p \<Rightarrow> Inl p
      | Inr (Still_Halted, k1) \<Rightarrow> Inr (Halted, k1)
      | Inr (Preempted r, k1) \<Rightarrow> Inr (Switched r, k1)
      | Inr (Woken, k1) \<Rightarrow>
          (case run_next old_rsp call k1 of Inl p \<Rightarrow> Inl p | Inr (r, k2) \<Rightarrow> Inr (Switched r, k2)))"

section \<open>The current thread\<close>

text \<open>\<open>scheduler.current.as_ref().unwrap()\<close> and its \<open>cspace.as_ref().unwrap()\<close>.\<close>

definition current_cspace :: "'a kernel_scheme \<Rightarrow> panic + thread \<times> cspace_id" where
  "current_cspace k =
     (case current k of
        None \<Rightarrow> Inl Unwrap_None
      | Some t \<Rightarrow> (case cspace_ref t of None \<Rightarrow> Inl Unwrap_None | Some c \<Rightarrow> Inr (t, c)))"

section \<open>Exit and wait\<close>

text \<open>\<open>rax\<close> is what the register holds when the stack of the next thread is resumed.\<close>

definition exit_current_thread ::
  "u64 \<Rightarrow> u64 \<Rightarrow> 'a kernel_scheme \<Rightarrow> panic + resumed \<times> 'a kernel_scheme" where
  "exit_current_thread rax old_rsp k =
     (case current k of
        None \<Rightarrow> Inl Unwrap_None
      | Some t \<Rightarrow>
          let k1 = (case pstate_ref t of
                      None \<Rightarrow> k
                    | Some p \<Rightarrow>
                        k\<lparr>procs := (procs k)(p := \<lparr>terminated = True, wait_queue = []\<rparr>),
                          run_queue := run_queue k @ wait_queue (procs k p)\<rparr>);
              k2 = k1\<lparr>current := None\<rparr>
          in case run_queue k2 of
               [] \<Rightarrow> Inl (Panic ''All threads exited. System halted.'')
             | next # rest \<Rightarrow>
                 (case prepare_thread_switch next (k2\<lparr>run_queue := rest\<rparr>) of
                    Inl p \<Rightarrow> Inl p
                  | Inr k3 \<Rightarrow>
                      let k4 = k3\<lparr>current := Some next\<rparr>
                      in case state next of
                           Cooperative new_rsp \<Rightarrow> resume_cooperative new_rsp rax k4
                         | Preemptive new_rsp \<Rightarrow> switch_context_to_preemptive new_rsp old_rsp In_Exit k4))"

text \<open>The current thread blocks: it moves to the wait queue and \<open>STATE_TO_UPDATE\<close> points to it.\<close>

definition park_in_process :: "proc_ref \<Rightarrow> thread \<Rightarrow> 'a kernel_scheme \<Rightarrow> 'a kernel_scheme" where
  "park_in_process p t k =
     k\<lparr>current := None,
       procs := (procs k)(p := (procs k p)\<lparr>wait_queue := wait_queue (procs k p) @ [t]\<rparr>),
       state_to_update := Some (tid t)\<rparr>"

definition sys_wait ::
  "nat \<Rightarrow> u64 \<Rightarrow> interrupt list list \<Rightarrow> 'a kernel_scheme \<Rightarrow> panic + int outcome \<times> 'a kernel_scheme" where
  "sys_wait handle old_rsp bs k =
     (case current_cspace k of
        Inl p \<Rightarrow> Inl p
      | Inr (t, c) \<Rightarrow>
          (case cspace_get (cspaces k c) handle of
             Some (Process p rights) \<Rightarrow>
               if \<not> rights_contains rights RIGHTS_WAIT then Inr (Returned (-3), k)
               else if terminated (procs k p) then Inr (Returned 0, k)
               else block old_rsp bs In_Wait (park_in_process p t k)
           | _ \<Rightarrow> Inr (Returned (-2), k)))"

section \<open>Yield\<close>

definition yield_now ::
  "u64 \<Rightarrow> 'a kernel_scheme \<Rightarrow> panic + unit outcome \<times> 'a kernel_scheme" where
  "yield_now old_rsp k =
     (if run_queue k = [] then Inr (Returned (), k)
      else
        let k1 = (case current k of
                    Some t \<Rightarrow> k\<lparr>current := None, run_queue := run_queue k @ [t],
                               state_to_update := Some (tid t)\<rparr>
                  | None \<Rightarrow> k\<lparr>state_to_update := None\<rparr>)
        in case run_queue k1 of
             [] \<Rightarrow> Inl Unwrap_None
           | next # rest \<Rightarrow>
               (case prepare_thread_switch next (k1\<lparr>run_queue := rest\<rparr>) of
                  Inl p \<Rightarrow> Inl p
                | Inr k2 \<Rightarrow>
                    let k3 = k2\<lparr>current := Some next\<rparr>
                    in case state next of
                         Cooperative new_rsp \<Rightarrow>
                           (case switch_context new_rsp old_rsp In_Yield k3 of
                              Inl p \<Rightarrow> Inl p
                            | Inr (r, k4) \<Rightarrow> Inr (Switched r, k4))
                       | Preemptive _ \<Rightarrow> Inl Unimplemented))"

section \<open>Synchronous IPC\<close>

definition endpoint_cap ::
  "rights \<Rightarrow> nat \<Rightarrow> cspace \<Rightarrow> cap_error + ep_ref" where
  "endpoint_cap need handle cs =
     (case cspace_get cs handle of
        None \<Rightarrow> Inl InvalidHandle
      | Some (Endpoint ep rights) \<Rightarrow> if \<not> rights_contains rights need then Inl PermissionDenied else Inr ep
      | Some _ \<Rightarrow> Inl WrongType)"

text \<open>A message meets a waiting receiver, or the sender blocks behind the senders \<open>q\<close>.\<close>

definition hand_over ::
  "ep_ref \<Rightarrow> thread \<Rightarrow> message_ptr \<Rightarrow> (thread \<times> message_ptr) list \<Rightarrow> message \<Rightarrow>
     'a kernel_scheme \<Rightarrow> 'a kernel_scheme" where
  "hand_over ep receiver ptr q msg k =
     k\<lparr>endpoints := (endpoints k)(ep := ReceiversWaiting q),
       msg_bufs := (msg_bufs k)(ptr := msg),
       run_queue := run_queue k @ [receiver]\<rparr>"

definition park_sender ::
  "ep_ref \<Rightarrow> (thread \<times> message) list \<Rightarrow> thread \<Rightarrow> message \<Rightarrow> 'a kernel_scheme \<Rightarrow> 'a kernel_scheme" where
  "park_sender ep q t msg k =
     k\<lparr>current := None,
       endpoints := (endpoints k)(ep := SendersWaiting (q @ [(t, msg)])),
       state_to_update := Some (tid t)\<rparr>"

definition sys_send ::
  "nat \<Rightarrow> message \<Rightarrow> u64 \<Rightarrow> interrupt list list \<Rightarrow> 'a kernel_scheme \<Rightarrow>
     panic + (cap_error + unit) outcome \<times> 'a kernel_scheme" where
  "sys_send handle msg old_rsp bs k =
     (case current_cspace k of
        Inl p \<Rightarrow> Inl p
      | Inr (t, c) \<Rightarrow>
          (case endpoint_cap RIGHTS_SEND handle (cspaces k c) of
             Inl e \<Rightarrow> Inr (Returned (Inl e), k)
           | Inr ep \<Rightarrow>
               (case endpoints k ep of
                  ReceiversWaiting ((receiver, ptr) # q) \<Rightarrow>
                    Inr (Returned (Inr ()), hand_over ep receiver ptr q msg k)
                | ReceiversWaiting [] \<Rightarrow> Inr (Returned (Inr ()), k)
                | Idle \<Rightarrow> block old_rsp bs In_Send (park_sender ep [] t msg k)
                | SendersWaiting q \<Rightarrow> block old_rsp bs In_Send (park_sender ep q t msg k))))"

definition collect ::
  "ep_ref \<Rightarrow> thread \<Rightarrow> (thread \<times> message) list \<Rightarrow> 'a kernel_scheme \<Rightarrow> 'a kernel_scheme" where
  "collect ep sender q k =
     k\<lparr>endpoints := (endpoints k)(ep := SendersWaiting q), run_queue := run_queue k @ [sender]\<rparr>"

text \<open>The buffer of a blocked receiver is the local variable \<open>msg_buf\<close> of its call.\<close>

definition park_receiver ::
  "ep_ref \<Rightarrow> (thread \<times> message_ptr) list \<Rightarrow> thread \<Rightarrow> 'a kernel_scheme \<Rightarrow> 'a kernel_scheme" where
  "park_receiver ep q t k =
     k\<lparr>current := None,
       endpoints := (endpoints k)(ep := ReceiversWaiting (q @ [(t, next_buf k)])),
       msg_bufs := (msg_bufs k)(next_buf k := message_zero),
       next_buf := next_buf k + 1,
       state_to_update := Some (tid t)\<rparr>"

definition sys_recv ::
  "nat \<Rightarrow> kcaller \<Rightarrow> u64 \<Rightarrow> interrupt list list \<Rightarrow> 'a kernel_scheme \<Rightarrow>
     panic + (cap_error + message) outcome \<times> 'a kernel_scheme" where
  "sys_recv handle caller old_rsp bs k =
     (case current_cspace k of
        Inl p \<Rightarrow> Inl p
      | Inr (t, c) \<Rightarrow>
          (case endpoint_cap RIGHTS_RECEIVE handle (cspaces k c) of
             Inl e \<Rightarrow> Inr (Returned (Inl e), k)
           | Inr ep \<Rightarrow>
               let wait = (\<lambda>q. block old_rsp bs (In_Recv (next_buf k) caller) (park_receiver ep q t k))
               in case endpoints k ep of
                    SendersWaiting ((sender, msg) # q) \<Rightarrow> Inr (Returned (Inr msg), collect ep sender q k)
                  | SendersWaiting [] \<Rightarrow> Inr (Returned (Inr message_zero), k)
                  | Idle \<Rightarrow> wait []
                  | ReceiversWaiting q \<Rightarrow> wait q))"

text \<open>What \<open>sys_recv\<close> returns when the suspended call goes on: the content of its buffer.\<close>

definition recv_result :: "message_ptr \<Rightarrow> 'a kernel_scheme \<Rightarrow> message" where
  "recv_result ptr k = msg_bufs k ptr"

definition sys_endpoint_create :: "'a kernel_scheme \<Rightarrow> panic + nat \<times> 'a kernel_scheme" where
  "sys_endpoint_create k =
     (case current_cspace k of
        Inl p \<Rightarrow> Inl p
      | Inr (t, c) \<Rightarrow>
          let (handle, cs) = cspace_insert (cspaces k c) (Endpoint (next_ep k) RIGHTS_ALL)
          in Inr (handle, k\<lparr>endpoints := (endpoints k)(next_ep k := Idle), next_ep := next_ep k + 1,
                           cspaces := (cspaces k)(c := cs)\<rparr>))"

section \<open>Interrupt waits\<close>

definition park_for_irq :: "u8 \<Rightarrow> thread \<Rightarrow> 'a kernel_scheme \<Rightarrow> 'a kernel_scheme" where
  "park_for_irq irq t k =
     k\<lparr>current := None,
       irq_waiters := (irq_waiters k)(irq := Some t),
       state_to_update := Some (tid t)\<rparr>"

definition sys_wait_irq ::
  "nat \<Rightarrow> u64 \<Rightarrow> interrupt list list \<Rightarrow> 'a kernel_scheme \<Rightarrow> panic + int outcome \<times> 'a kernel_scheme" where
  "sys_wait_irq handle old_rsp bs k =
     (case current_cspace k of
        Inl p \<Rightarrow> Inl p
      | Inr (t, c) \<Rightarrow>
          (case cspace_get (cspaces k c) handle of
             Some (Interrupt irq) \<Rightarrow>
               if pending_irqs k irq
               then Inr (Returned 0, k\<lparr>pending_irqs := (pending_irqs k)(irq := False)\<rparr>)
               else block old_rsp bs In_Wait_Irq (park_for_irq irq t k)
           | _ \<Rightarrow> Inr (Returned (-2), k)))"

end
