(* ===== verification/Thread_Conservation.thy ===== *)
theory Thread_Conservation
  imports Scheduler
begin

text \<open>
  No operation of the scheduler loses or duplicates a thread, whatever interrupts arrive while
  it waits: the roster over the run queue, the current thread, the interrupt slots, the endpoints
  and the processes is kept. The two exceptions are \<open>exit_current_thread\<close>,
  which drops the current thread, and \<open>sys_wait_irq\<close> on an interrupt another thread waits for.
\<close>

section \<open>Frame lemmas\<close>

lemma prepare_thread_switch_Inr:
  assumes "prepare_thread_switch t k = Inr k'"
  obtains a b c where "k' = k\<lparr>tss_rsp0 := a, percpu_kernel_stack := b, cr3_reg := c\<rparr>"
proof -
  from assms have "k' = k\<lparr>tss_rsp0 := tss_rsp0 k', percpu_kernel_stack := percpu_kernel_stack k',
      cr3_reg := cr3_reg k'\<rparr>"
    by (auto simp: prepare_thread_switch_def set_tss_rsp0_def set_kernel_stack_def Let_def
        split: if_splits option.splits)
  then show ?thesis by (rule that)
qed

lemma parked_switch_regs [simp]:
  "parked (k\<lparr>tss_rsp0 := a\<rparr>) = parked k"
  "parked (k\<lparr>percpu_kernel_stack := a\<rparr>) = parked k"
  "parked (k\<lparr>cr3_reg := a\<rparr>) = parked k"
  "parked (k\<lparr>kstack := ks\<rparr>) = parked k"
  "parked (k\<lparr>io_trace := tr\<rparr>) = parked k"
  "parked (k\<lparr>state_to_update := u\<rparr>) = parked k"
  "parked (k\<lparr>current := c\<rparr>) = parked k"
  "parked (k\<lparr>pending_irqs := pe\<rparr>) = parked k"
  "parked (k\<lparr>msg_bufs := mb\<rparr>) = parked k"
  "parked (k\<lparr>next_buf := nb\<rparr>) = parked k"
  "parked (k\<lparr>cspaces := cs\<rparr>) = parked k"
  by (simp_all add: parked_def)

lemma upd_state_tid [simp]: "tid (upd_state i st t) = tid t"
  by (simp add: upd_state_def)

lemma upd_state_static [simp]: "static_part (upd_state i st t) = static_part t"
  by (simp add: upd_state_def)

lemma opt_list_map: "opt_list (map_option f x) = map f (opt_list x)"
  by (cases x) simp_all

lemma ep_parked_map_ep: "ep_parked (map_ep f e) = map (apfst f) (ep_parked e)"
  by (cases e) (auto simp: map_ep_def)

lemma parked_set_thread_state:
  "parked (set_thread_state i st k) = map (apfst (upd_state i st)) (parked k)"
  by (simp add: parked_def set_thread_state_def Let_def irqs_parked_def eps_parked_def
      procs_parked_def ep_parked_map_ep proc_parked_def map_concat irq_parked_def opt_list_map
      comp_def)

lemma current_set_thread_state [simp]:
  "current (set_thread_state i st k) = map_option (upd_state i st) (current k)"
  by (simp add: set_thread_state_def Let_def)

section \<open>The roster\<close>

lemma roster_eq:
  "roster k = image_mset static_part (mset (opt_list (current k))) + image_mset (static_part \<circ> fst) (mset (parked k))"
  by (simp add: roster_def all_threads_def multiset.map_comp)

lemma roster_set_thread_state [simp]: "roster (set_thread_state i st k) = roster k"
  by (cases "current k")
    (simp_all add: roster_eq parked_set_thread_state multiset.map_comp comp_def)

lemma roster_cong:
  "current k' = current k \<Longrightarrow> parked k' = parked k \<Longrightarrow> roster k' = roster k"
  by (simp add: roster_eq)

lemma roster_after_switch [simp]: "roster (after_switch r k) = roster k"
  by (cases "state_to_update k")
    (simp_all add: after_switch_def roster_cong [of "x\<lparr>state_to_update := None\<rparr>" x for x])

lemma roster_frames [simp]:
  "roster (push_frame r f k) = roster k"
  "roster (pop_frame r k) = roster k"
  "roster (io ev k) = roster k"
  "roster (eoi k) = roster k"
  by (simp_all add: roster_eq push_frame_def pop_frame_def io_def eoi_def)

lemma roster_resume_cooperative:
  "resume_cooperative new rax k = Inr (r, k') \<Longrightarrow> roster k' = roster k"
  by (auto simp: resume_cooperative_def Let_def
      split: option.splits kframe.splits switch_kind.splits if_splits)

lemma roster_resume_preemptive:
  "resume_preemptive new k = Inr (r, k') \<Longrightarrow> roster k' = roster k"
  by (auto simp: resume_preemptive_def split: option.splits kframe.splits)

lemma roster_switch_to:
  "switch_to st old call k = Inr (r, k') \<Longrightarrow> roster k' = roster k"
  by (auto simp: switch_to_def switch_context_def switch_context_to_preemptive_def
      split: saved_thread_state.splits
      dest: roster_resume_cooperative roster_resume_preemptive)

text \<open>Moving a thread between the run queue and the processor.\<close>

lemma parked_run_queue:
  "mset (parked (k\<lparr>run_queue := q\<rparr>)) + image_mset (\<lambda>t. (t, For_Cpu)) (mset (run_queue k))
     = mset (parked k) + image_mset (\<lambda>t. (t, For_Cpu)) (mset q)"
  by (simp add: parked_def)

lemma roster_run_queue:
  "roster (k\<lparr>run_queue := q\<rparr>) + image_mset static_part (mset (run_queue k))
     = roster k + image_mset static_part (mset q)"
  by (simp add: roster_eq parked_def multiset.map_comp comp_def)

lemma roster_current:
  "roster (k\<lparr>current := c\<rparr>) + image_mset static_part (mset (opt_list (current k)))
     = roster k + image_mset static_part (mset (opt_list c))"
  by (simp add: roster_eq)

lemma roster_dispatch:
  assumes "run_queue k = next # rest" and "current k = None"
    and "prepare_thread_switch next (k\<lparr>run_queue := rest\<rparr>) = Inr k1"
  shows "roster (k1\<lparr>current := Some next\<rparr>) = roster k"
proof -
  from assms(3) obtain a b c where
    "k1 = k\<lparr>run_queue := rest\<rparr>\<lparr>tss_rsp0 := a, percpu_kernel_stack := b, cr3_reg := c\<rparr>"
    by (rule prepare_thread_switch_Inr)
  with assms(1,2) show ?thesis
    by (simp add: roster_eq parked_def)
qed

lemma roster_run_next:
  "run_next old call k = Inr (r, k') \<Longrightarrow> current k = None \<Longrightarrow> roster k' = roster k"
  by (auto simp: run_next_def split: list.splits sum.splits
      dest!: roster_switch_to roster_dispatch)

lemma roster_pick_next:
  assumes "pick_next st k = Inr (st', k')"
  shows "roster k' = roster k"
proof -
  define k1 where "k1 = (case current k of None \<Rightarrow> k
    | Some c \<Rightarrow> k\<lparr>current := None, run_queue := run_queue k @ [c\<lparr>state := st\<rparr>]\<rparr>)"
  have k1: "roster k1 = roster k" "current k1 = None"
    by (auto simp: k1_def roster_eq parked_def split: option.split)
  from assms have "roster k' = roster k1"
    by (auto simp: pick_next_def Let_def simp flip: k1_def split: list.splits sum.splits
        dest: roster_dispatch [OF _ k1(2)])
  with k1 show ?thesis by simp
qed

lemma roster_timer_tick_handler:
  "timer_tick_handler rsp k = Inr (x, k') \<Longrightarrow> roster k' = roster k"
  by (auto simp: timer_tick_handler_def split: sum.splits dest: roster_pick_next)

lemma roster_timer_interrupt_stub:
  "timer_interrupt_stub rsp ic k = Inr (r, k') \<Longrightarrow> roster k' = roster k"
  by (auto simp: timer_interrupt_stub_def Let_def split: sum.splits if_splits
      dest!: roster_timer_tick_handler roster_resume_cooperative roster_resume_preemptive)

lemma parked_irq_waiters:
  "mset (parked (k\<lparr>irq_waiters := (irq_waiters k)(i := t)\<rparr>)) + mset (irq_parked (irq_waiters k i))
     = mset (parked k) + mset (irq_parked t)"
  using mset_irqs_parked_upd [of "irq_waiters k" i t] by (simp add: parked_def)

lemma parked_endpoints:
  assumes "e < next_ep k"
  shows "mset (parked (k\<lparr>endpoints := (endpoints k)(e := s)\<rparr>)) + mset (ep_parked (endpoints k e))
     = mset (parked k) + mset (ep_parked s)"
  using mset_eps_parked_upd [OF assms, of "endpoints k" s] by (simp add: parked_def)

lemma parked_procs:
  assumes "p < next_proc k"
  shows "mset (parked (k\<lparr>procs := (procs k)(p := s)\<rparr>)) + mset (proc_parked (procs k p))
     = mset (parked k) + mset (proc_parked s)"
  using mset_procs_parked_upd [OF assms, of "procs k" s] by (simp add: parked_def)

text \<open>The interrupt handler moves the waiting thread, if there is one, to the run queue.\<close>

lemma parked_unblock_irq_Some:
  assumes "irq_waiters k irq = Some t"
  shows "mset (parked (unblock_irq irq k)) + {#(t, For_Irq)#} = mset (parked k) + {#(t, For_Cpu)#}"
proof -
  have "mset (parked (unblock_irq irq k))
      = mset (parked (k\<lparr>irq_waiters := (irq_waiters k)(irq := None)\<rparr>)) + {#(t, For_Cpu)#}"
    using assms by (simp add: unblock_irq_def parked_def)
  with parked_irq_waiters [of k irq None] assms show ?thesis
    by (simp add: irq_parked_def)
qed

lemma parked_unblock_irq_None:
  "irq_waiters k irq = None \<Longrightarrow> parked (unblock_irq irq k) = parked k"
  by (simp add: unblock_irq_def)

lemma current_unblock_irq [simp]: "current (unblock_irq irq k) = current k"
  by (simp add: unblock_irq_def split: option.split)

lemma roster_unblock_irq [simp]: "roster (unblock_irq irq k) = roster k"
proof (cases "irq_waiters k irq")
  case None
  then show ?thesis by (intro roster_cong) (simp_all add: parked_unblock_irq_None)
next
  case (Some t)
  have "image_mset (static_part \<circ> fst) (mset (parked (unblock_irq irq k))) = image_mset (static_part \<circ> fst) (mset (parked k))"
    using arg_cong [OF parked_unblock_irq_Some [OF Some], of "image_mset (static_part \<circ> fst)"] by simp
  then show ?thesis by (simp add: roster_eq)
qed

lemma roster_handlers [simp]:
  "roster (keyboard_interrupt_handler k) = roster k"
  "roster (ata_interrupt_handler k) = roster k"
  "roster (rtl8139_interrupt_handler k) = roster k"
  by (simp_all add: keyboard_interrupt_handler_def ata_interrupt_handler_def rtl8139_interrupt_handler_def)

lemma current_handlers [simp]:
  "current (keyboard_interrupt_handler k) = current k"
  "current (ata_interrupt_handler k) = current k"
  "current (rtl8139_interrupt_handler k) = current k"
  by (simp_all add: keyboard_interrupt_handler_def ata_interrupt_handler_def rtl8139_interrupt_handler_def
      eoi_def io_def)

lemma roster_take_interrupts:
  "take_interrupts is k = Inr (r, k') \<Longrightarrow> roster k' = roster k"
  by (induction "is" k rule: take_interrupts.induct)
    (auto split: sum.splits if_splits dest: roster_timer_interrupt_stub)

lemma current_take_interrupts:
  "take_interrupts is k = Inr (None, k') \<Longrightarrow> current k = None \<Longrightarrow> current k' = None"
  by (induction "is" k rule: take_interrupts.induct) (auto split: sum.splits if_splits)

lemma idle_loop_props:
  "idle_loop bs k = Inr (r, k') \<Longrightarrow> current k = None \<Longrightarrow>
     roster k' = roster k \<and> (r = Woken \<longrightarrow> current k' = None \<and> run_queue k' \<noteq> [])"
proof (induction bs arbitrary: k)
  case Nil
  then show ?case by (auto simp: idle_loop.simps [of "[]"] split: if_splits)
next
  case (Cons b bs)
  show ?case
  proof (cases "run_queue k")
    case Nil
    with Cons.prems obtain o1 k1 where t: "take_interrupts b k = Inr (o1, k1)"
      by (auto simp: idle_loop.simps [of "b # bs"] split: sum.splits)
    show ?thesis
    proof (cases o1)
      case None
      with Cons.prems Nil t have "idle_loop bs k1 = Inr (r, k')"
        by (simp add: idle_loop.simps [of "b # bs"])
      from Cons.IH [OF this] None t Cons.prems(2) show ?thesis
        by (simp add: current_take_interrupts roster_take_interrupts)
    next
      case (Some r1)
      with Cons.prems Nil t have "k' = k1" "r = Preempted r1"
        by (simp_all add: idle_loop.simps [of "b # bs"])
      with t show ?thesis by (simp add: roster_take_interrupts)
    qed
  qed (use Cons.prems in \<open>simp add: idle_loop.simps [of "b # bs"]\<close>)
qed

lemma roster_block:
  "block old bs call k = Inr (out, k') \<Longrightarrow> current k = None \<Longrightarrow> roster k' = roster k"
  by (auto simp: block_def split: sum.splits idle_result.splits
      dest!: idle_loop_props roster_run_next)

text \<open>Parking the current thread in an endpoint, a process or an interrupt slot keeps the roster.\<close>

lemma roster_park:
  assumes "mset (parked k') = mset (parked k) + {#(t, w)#}" and "current k = Some t" and "current k' = None"
  shows "roster k' = roster k"
  using assms by (simp add: roster_eq)

lemma current_cspace_Inr:
  "current_cspace k = Inr (t, c) \<longleftrightarrow> current k = Some t \<and> cspace_ref t = Some c"
  by (auto simp: current_cspace_def split: option.splits)

lemma refs_ok_cap:
  assumes "refs_ok k" and "current_cspace k = Inr (t, c)" and "cspace_get (cspaces k c) h = Some cap"
  shows "cap_in_range k cap"
proof -
  have "t \<in> set (all_threads k)" "cspace_ref t = Some c"
    using assms(2) by (auto simp: current_cspace_Inr all_threads_def)
  then have "c < next_cspace k" using assms(1) by (auto simp: refs_ok_alt thread_in_range_alt)
  then show ?thesis using assms(1,3) by (auto simp: refs_ok_alt dest: cspace_getD)
qed

lemma endpoint_cap_Inr:
  "endpoint_cap need h cs = Inr ep \<longleftrightarrow>
     (\<exists>rights. cspace_get cs h = Some (Endpoint ep rights) \<and> rights_contains rights need)"
  by (auto simp: endpoint_cap_def split: option.splits capability.splits if_splits)

lemma refs_ok_endpoint:
  "refs_ok k \<Longrightarrow> current_cspace k = Inr (t, c) \<Longrightarrow> endpoint_cap need h (cspaces k c) = Inr ep \<Longrightarrow>
     ep < next_ep k"
  by (auto simp: endpoint_cap_Inr dest: refs_ok_cap)

section \<open>Queues\<close>

text \<open>How the operations on the queues move a thread from one reason to wait to another.\<close>

lemma parked_hand_over:
  assumes "endpoints k ep = ReceiversWaiting ((r, ptr) # q)" and "ep < next_ep k"
  shows "mset (parked (hand_over ep r ptr q m k)) + {#(r, For_Message ptr)#}
     = mset (parked k) + {#(r, For_Cpu)#}"
proof -
  have "mset (parked (hand_over ep r ptr q m k))
      = mset (parked (k\<lparr>endpoints := (endpoints k)(ep := ReceiversWaiting q)\<rparr>)) + {#(r, For_Cpu)#}"
    by (simp add: hand_over_def parked_def)
  with parked_endpoints [OF assms(2), of "ReceiversWaiting q"] assms(1) show ?thesis by simp
qed

lemma parked_collect:
  assumes "endpoints k ep = SendersWaiting ((s, m) # q)" and "ep < next_ep k"
  shows "mset (parked (collect ep s q k)) + {#(s, For_Receiver)#} = mset (parked k) + {#(s, For_Cpu)#}"
proof -
  have "mset (parked (collect ep s q k))
      = mset (parked (k\<lparr>endpoints := (endpoints k)(ep := SendersWaiting q)\<rparr>)) + {#(s, For_Cpu)#}"
    by (simp add: collect_def parked_def)
  with parked_endpoints [OF assms(2), of "SendersWaiting q"] assms(1) show ?thesis by simp
qed

lemma parked_park_sender:
  assumes "endpoints k ep = SendersWaiting q \<or> endpoints k ep = Idle \<and> q = []" and "ep < next_ep k"
  shows "mset (parked (park_sender ep q t m k)) = mset (parked k) + {#(t, For_Receiver)#}"
  using parked_endpoints [OF assms(2), of "SendersWaiting (q @ [(t, m)])"] assms(1)
  by (auto simp: park_sender_def parked_def)

lemma parked_park_receiver:
  assumes "endpoints k ep = ReceiversWaiting q \<or> endpoints k ep = Idle \<and> q = []" and "ep < next_ep k"
  shows "mset (parked (park_receiver ep q t k)) = mset (parked k) + {#(t, For_Message (next_buf k))#}"
  using parked_endpoints [OF assms(2), of "ReceiversWaiting (q @ [(t, next_buf k)])"] assms(1)
  by (auto simp: park_receiver_def parked_def)

lemma parked_park_in_process:
  assumes "p < next_proc k"
  shows "mset (parked (park_in_process p t k)) = mset (parked k) + {#(t, For_Exit)#}"
  using parked_procs [OF assms, of "(procs k p)\<lparr>wait_queue := wait_queue (procs k p) @ [t]\<rparr>"]
  by (simp add: park_in_process_def parked_def proc_parked_def)

lemma parked_park_for_irq:
  assumes "irq_waiters k irq = None"
  shows "mset (parked (park_for_irq irq t k)) = mset (parked k) + {#(t, For_Irq)#}"
  using parked_irq_waiters [of k irq "Some t"] assms
  by (simp add: park_for_irq_def parked_def irq_parked_def)

lemma current_parks [simp]:
  "current (park_sender ep q t m k) = None"
  "current (park_receiver ep q' t k) = None"
  "current (park_in_process p t k) = None"
  "current (park_for_irq irq t k) = None"
  "current (hand_over ep t ptr q' m k) = current k"
  "current (collect ep t q k) = current k"
  by (simp_all add: park_sender_def park_receiver_def park_in_process_def park_for_irq_def
      hand_over_def collect_def)

lemma roster_wake:
  assumes "mset (parked k') + {#(t, w)#} = mset (parked k) + {#(t, w')#}" and "current k' = current k"
  shows "roster k' = roster k"
  using arg_cong [OF assms(1), of "image_mset (static_part \<circ> fst)"] assms(2) by (simp add: roster_eq)

section \<open>System calls\<close>

lemma roster_sys_send:
  assumes "sys_send h m old bs k = Inr (out, k')" and "refs_ok k"
  shows "roster k' = roster k"
proof -
  from assms(1) obtain t c where cur: "current_cspace k = Inr (t, c)"
    by (auto simp: sys_send_def split: sum.splits)
  then have t: "current k = Some t" by (simp add: current_cspace_Inr)
  show ?thesis
  proof (cases "endpoint_cap RIGHTS_SEND h (cspaces k c)")
    case (Inr ep)
    have ep: "ep < next_ep k" by (rule refs_ok_endpoint [OF assms(2) cur Inr])
    have park: "roster (park_sender ep q t m k) = roster k"
      if "endpoints k ep = SendersWaiting q \<or> endpoints k ep = Idle \<and> q = []" for q
      by (rule roster_park [OF parked_park_sender [OF that ep] t]) simp
    have hand: "roster (hand_over ep r ptr q m k) = roster k"
      if "endpoints k ep = ReceiversWaiting ((r, ptr) # q)" for r ptr q
      by (rule roster_wake [OF parked_hand_over [OF that ep]]) simp
    from assms(1) cur Inr show ?thesis
      by (auto simp: sys_send_def park hand split: endpoint_state.splits list.splits dest!: roster_block)
  qed (use assms(1) cur in \<open>simp add: sys_send_def\<close>)
qed

lemma roster_sys_recv:
  assumes "sys_recv h caller old bs k = Inr (out, k')" and "refs_ok k"
  shows "roster k' = roster k"
proof -
  from assms(1) obtain t c where cur: "current_cspace k = Inr (t, c)"
    by (auto simp: sys_recv_def split: sum.splits)
  then have t: "current k = Some t" by (simp add: current_cspace_Inr)
  show ?thesis
  proof (cases "endpoint_cap RIGHTS_RECEIVE h (cspaces k c)")
    case (Inr ep)
    have ep: "ep < next_ep k" by (rule refs_ok_endpoint [OF assms(2) cur Inr])
    have park: "roster (park_receiver ep q t k) = roster k"
      if "endpoints k ep = ReceiversWaiting q \<or> endpoints k ep = Idle \<and> q = []" for q
      by (rule roster_park [OF parked_park_receiver [OF that ep] t]) simp
    have coll: "roster (collect ep s q k) = roster k"
      if "endpoints k ep = SendersWaiting ((s, m) # q)" for s m q
      by (rule roster_wake [OF parked_collect [OF that ep]]) simp
    from assms(1) cur Inr show ?thesis
      by (auto simp: sys_recv_def park coll split: endpoint_state.splits list.splits dest!: roster_block)
  qed (use assms(1) cur in \<open>simp add: sys_recv_def\<close>)
qed

lemma roster_sys_wait:
  assumes "sys_wait h old bs k = Inr (out, k')" and "refs_ok k"
  shows "roster k' = roster k"
proof -
  from assms(1) obtain t c where cur: "current_cspace k = Inr (t, c)"
    by (auto simp: sys_wait_def split: sum.splits)
  then have t: "current k = Some t" by (simp add: current_cspace_Inr)
  have "roster (park_in_process p t k) = roster k" if "cspace_get (cspaces k c) h = Some (Process p rt)" for p rt
    using refs_ok_cap [OF assms(2) cur that]
    by (intro roster_park [OF parked_park_in_process t]) simp_all
  with assms(1) cur show ?thesis
    by (auto simp: sys_wait_def split: option.splits capability.splits if_splits dest!: roster_block)
qed

lemma roster_sys_wait_irq:
  assumes "sys_wait_irq h old bs k = Inr (out, k')"
    and "\<And>t c irq. current_cspace k = Inr (t, c) \<Longrightarrow> cspace_get (cspaces k c) h = Some (Interrupt irq) \<Longrightarrow>
           irq_waiters k irq = None"
  shows "roster k' = roster k"
proof -
  from assms(1) obtain t c where cur: "current_cspace k = Inr (t, c)"
    by (auto simp: sys_wait_irq_def split: sum.splits)
  then have t: "current k = Some t" by (simp add: current_cspace_Inr)
  have "roster (park_for_irq irq t k) = roster k" if "cspace_get (cspaces k c) h = Some (Interrupt irq)" for irq
    by (rule roster_park [OF parked_park_for_irq [OF assms(2) [OF cur that]] t]) simp
  with assms(1) cur show ?thesis
    by (auto simp: sys_wait_irq_def roster_eq split: option.splits capability.splits if_splits dest!: roster_block)
qed

lemma roster_yield_now:
  assumes "yield_now old k = Inr (out, k')"
  shows "roster k' = roster k"
proof (cases "run_queue k = []")
  case False
  define k1 where "k1 = (case current k of
      Some t \<Rightarrow> k\<lparr>current := None, run_queue := run_queue k @ [t], state_to_update := Some (tid t)\<rparr>
    | None \<Rightarrow> k\<lparr>state_to_update := None\<rparr>)"
  have k1: "roster k1 = roster k" "current k1 = None"
    by (auto simp: k1_def roster_eq parked_def split: option.split)
  from assms False have "roster k' = roster k1"
    by (auto simp: yield_now_def Let_def switch_context_def simp flip: k1_def
        split: list.splits sum.splits saved_thread_state.splits
        dest!: roster_resume_cooperative roster_dispatch [OF _ k1(2)])
  with k1 show ?thesis by simp
qed (use assms in \<open>simp add: yield_now_def\<close>)

end
