(* ===== verification/Cooperative_Safety.thy ===== *)
theory Cooperative_Safety
  imports Thread_Conservation
begin

text \<open>
  Context-switch safety of the cooperative part of the kernel. As long as threads only switch
  in system calls that find another runnable thread, every saved stack pointer leads to the
  frame that the reason for waiting promises, so no call panics or jumps through a stale frame.
  The theory ends with executions that leave this fragment (a timer tick, an empty run queue)
  and go wrong.
\<close>

section \<open>The invariant\<close>

fun fits :: "'a kernel_scheme \<Rightarrow> waiting \<Rightarrow> kframe \<Rightarrow> bool" where
  "fits k For_Cpu (Fresh_Context c) =
     (ctx_rip c = sym_user_trampoline k \<or> ctx_rip c = sym_thread_entry_stub k)"
| "fits k For_Cpu (Suspended By_Switch_Context call) = (call \<noteq> In_Exit)"
| "fits k For_Receiver (Suspended By_Switch_Context In_Send) = True"
| "fits k (For_Message b) (Suspended By_Switch_Context (In_Recv b' u)) = (b = b')"
| "fits k For_Exit (Suspended By_Switch_Context In_Wait) = True"
| "fits k For_Irq (Suspended By_Switch_Context In_Wait_Irq) = True"
| "fits k _ _ = False"

definition parked_ok :: "'a kernel_scheme \<Rightarrow> thread \<times> waiting \<Rightarrow> bool" where
  "parked_ok k x =
     (case state (fst x) of
        Cooperative rsp \<Rightarrow> (case kstack k rsp of Some f \<Rightarrow> fits k (snd x) f | None \<Rightarrow> False)
      | Preemptive _ \<Rightarrow> False)"

text \<open>The \<open>x86_64\<close> crate accepts the stack and the page table of the thread.\<close>

definition switchable :: "'a kernel_scheme \<Rightarrow> thread \<Rightarrow> bool" where
  "switchable k t \<longleftrightarrow>
     virt_addr_ok k (fst (stack t) + snd (stack t)) \<and>
     (case cr3 t of None \<Rightarrow> True | Some c \<Rightarrow> phys_frame_ok k c)"

definition coop_inv :: "'a kernel_scheme \<Rightarrow> bool" where
  "coop_inv k \<longleftrightarrow>
     state_to_update k = None \<and>
     distinct (map tid (all_threads k)) \<and>
     distinct (map (\<lambda>x. state (fst x)) (parked k)) \<and>
     list_all (parked_ok k) (parked k) \<and>
     list_all (switchable k) (all_threads k) \<and>
     refs_ok k"

section \<open>What the invariant depends on\<close>

definition same_context :: "'a kernel_scheme \<Rightarrow> 'a kernel_scheme \<Rightarrow> bool" where
  "same_context k k' \<longleftrightarrow>
     cspaces k' = cspaces k \<and> next_cspace k' = next_cspace k \<and> next_ep k' = next_ep k \<and>
     next_proc k' = next_proc k \<and> sym_user_trampoline k' = sym_user_trampoline k \<and>
     sym_thread_entry_stub k' = sym_thread_entry_stub k \<and> virt_addr_ok k' = virt_addr_ok k \<and>
     phys_frame_ok k' = phys_frame_ok k \<and>
     user_code_selector k' = user_code_selector k \<and> user_data_selector k' = user_data_selector k"

lemma fits_wakes:
  "fits k w (Suspended By_Switch_Context call) \<Longrightarrow> fits k For_Cpu (Suspended By_Switch_Context call)"
  by (cases w; cases call) auto

lemma fits_For_Cpu: "fits k w f \<Longrightarrow> fits k For_Cpu f"
  by (cases "(k, w, f)" rule: fits.cases) auto

lemma parked_ok_For_Cpu: "parked_ok k (t, w) \<Longrightarrow> parked_ok k (t, For_Cpu)"
  by (auto simp: parked_ok_def split: saved_thread_state.splits option.splits dest: fits_For_Cpu)

lemma fits_cong:
  "same_context k k' \<Longrightarrow> fits k' w f = fits k w f"
  by (cases "(k, w, f)" rule: fits.cases) (auto simp: same_context_def)

lemma switchable_static: "switchable k (static_part t) = switchable k t"
  by (simp add: switchable_def static_part_def)

lemma switchable_cong: "same_context k k' \<Longrightarrow> switchable k' t = switchable k t"
  by (simp add: switchable_def same_context_def split: option.split)

lemma thread_in_range_static: "thread_in_range k (static_part t) = thread_in_range k t"
  by (simp add: thread_in_range_alt)

lemma set_all_threads_roster: "static_part ` set (all_threads k) = set_mset (roster k)"
  by (simp add: roster_def)

lemma roster_transfer:
  assumes "roster k' = roster k" and "\<And>t. P (static_part t) = P t"
    and "\<forall>t \<in> set (all_threads k). P t"
  shows "\<forall>t \<in> set (all_threads k'). P t"
proof
  fix t assume "t \<in> set (all_threads k')"
  then have "static_part t \<in> static_part ` set (all_threads k)"
    using assms(1) set_all_threads_roster by (metis image_eqI)
  then obtain u where "u \<in> set (all_threads k)" "static_part t = static_part u" by auto
  then show "P t" using assms(2,3) by metis
qed

lemma refs_ok_transfer:
  assumes "roster k' = roster k" and "same_context k k'" and "refs_ok k"
  shows "refs_ok k'"
proof -
  have cap: "cap_in_range k' cap = cap_in_range k cap" for cap
    using assms(2) by (cases cap) (auto simp: same_context_def)
  have thr: "thread_in_range k' t = thread_in_range k t" for t
    using assms(2) by (auto simp: same_context_def thread_in_range_alt)
  have "\<forall>t \<in> set (all_threads k'). thread_in_range k t"
    by (rule roster_transfer [OF assms(1)]) (use assms(3) in \<open>auto simp: thread_in_range_static refs_ok_alt\<close>)
  with assms(2,3) cap thr show ?thesis
    by (auto simp: refs_ok_alt same_context_def)
qed

lemma mset_tids_roster: "mset (map tid (all_threads k)) = image_mset tid (roster k)"
  by (simp add: roster_def multiset.map_comp comp_def)

lemma distinct_tids_transfer:
  assumes "roster k' = roster k"
  shows "distinct (map tid (all_threads k')) = distinct (map tid (all_threads k))"
  by (rule mset_eq_imp_distinct_iff) (use assms mset_tids_roster in metis)

text \<open>The invariant after a step that keeps the roster, by what it does to the queues.\<close>

lemma coop_inv_step:
  assumes "coop_inv k" and "roster k' = roster k" and "same_context k k'"
    and "state_to_update k' = None"
    and "mset (parked k') = mset ps"
    and "distinct (map (\<lambda>x. state (fst x)) ps)" and "list_all (parked_ok k') ps"
  shows "coop_inv k'"
proof -
  have "distinct (map tid (all_threads k'))"
    using assms(1,2) by (simp add: coop_inv_def distinct_tids_transfer [OF assms(2)])
  moreover have "distinct (map (\<lambda>x. state (fst x)) (parked k'))"
  proof -
    have "mset (map (\<lambda>x. state (fst x)) (parked k')) = mset (map (\<lambda>x. state (fst x)) ps)"
      using assms(5) by simp
    then show ?thesis using assms(6) mset_eq_imp_distinct_iff by blast
  qed
  moreover have "list_all (parked_ok k') (parked k')"
    using assms(7) mset_eq_setD [OF assms(5)] by (simp add: list_all_iff)
  moreover have "list_all (switchable k') (all_threads k')"
    using roster_transfer [OF assms(2), of "switchable k'"] assms(1) switchable_cong [OF assms(3)]
    by (simp add: switchable_static coop_inv_def list_all_iff)
  moreover have "refs_ok k'"
    using refs_ok_transfer [OF assms(2,3)] assms(1) by (simp add: coop_inv_def)
  ultimately show ?thesis using assms(4) by (simp add: coop_inv_def)
qed

section \<open>Switching to the next thread\<close>

lemma prepare_thread_switch_ok:
  assumes "switchable k t"
  obtains a b c where
    "prepare_thread_switch t k = Inr (k\<lparr>tss_rsp0 := a, percpu_kernel_stack := b, cr3_reg := c\<rparr>)"
proof -
  from assms have "\<exists>k'. prepare_thread_switch t k = Inr k'"
    by (cases "cr3 t")
      (auto simp: switchable_def prepare_thread_switch_def set_tss_rsp0_def set_kernel_stack_def Let_def)
  with that show ?thesis by (metis prepare_thread_switch_Inr)
qed

lemma parked_ok_cases:
  assumes "parked_ok k (t, w)"
  obtains rsp f where "state t = Cooperative rsp" "kstack k rsp = Some f" "fits k w f"
  using assms by (auto simp: parked_ok_def split: saved_thread_state.splits option.splits)

text \<open>The code that runs when a thread is resumed, read off its saved state.\<close>

definition resumed_by :: "'a kernel_scheme \<Rightarrow> thread \<Rightarrow> resumed option" where
  "resumed_by k t =
     (case state t of
        Preemptive _ \<Rightarrow> None
      | Cooperative sp \<Rightarrow>
          (case kstack k sp of
             Some (Fresh_Context c) \<Rightarrow>
               Some (if ctx_rip c = sym_user_trampoline k
                     then Enter_User (user_trampoline_rust (ctx_r12 c) (ctx_r13 c) k)
                     else Call_Kernel_Thread (ctx_r12 c))
           | Some (Suspended _ call) \<Rightarrow> Some (Return_From call)
           | _ \<Rightarrow> None))"

lemma resumed_by_cong:
  assumes "same_context k k'" and "\<And>sp. state t = Cooperative sp \<Longrightarrow> kstack k' sp = kstack k sp"
  shows "resumed_by k' t = resumed_by k t"
proof (cases "state t")
  case (Cooperative sp)
  with assms(2) have "kstack k' sp = kstack k sp" by simp
  with Cooperative assms(1) show ?thesis
    by (simp add: resumed_by_def same_context_def user_trampoline_rust_def split: option.split kframe.split)
qed (simp add: resumed_by_def)

lemma resume_cooperative_fits:
  assumes "kstack k rsp = Some f" and "fits k For_Cpu f"
  shows "\<exists>r. resume_cooperative rsp rax k = Inr (r, after_switch rax (pop_frame rsp k)) \<and>
    (\<forall>t. state t = Cooperative rsp \<longrightarrow> resumed_by k t = Some r)"
  using assms by (cases "(k, For_Cpu, f)" rule: fits.cases)
    (auto simp: resume_cooperative_def resumed_by_def Let_def)

lemma after_switch_Some:
  "state_to_update k = Some i \<Longrightarrow>
     after_switch r k = (set_thread_state i (Cooperative r) k)\<lparr>state_to_update := None\<rparr>"
  by (simp add: after_switch_def)

lemma map_upd_state_other:
  "i \<notin> (\<lambda>x. tid (fst x)) ` set xs \<Longrightarrow> map (apfst (upd_state i st)) xs = xs"
  by (induction xs) (auto simp: upd_state_def apfst_def map_prod_def)

lemma same_context_set_thread_state [simp]:
  "same_context k (set_thread_state i st k') = same_context k k'"
  by (simp add: same_context_def set_thread_state_def Let_def)

lemma kstack_set_thread_state [simp]: "kstack (set_thread_state i st k) = kstack k"
  by (simp add: set_thread_state_def Let_def)

lemma parked_ok_cong:
  "same_context k k' \<Longrightarrow>
   (\<And>rsp. state (fst x) = Cooperative rsp \<Longrightarrow> kstack k' rsp = kstack k rsp) \<Longrightarrow>
   parked_ok k' x = parked_ok k x"
  by (auto simp: parked_ok_def fits_cong split: saved_thread_state.split option.split)

section \<open>What a step keeps\<close>

text \<open>Each message buffer belongs to one suspended receive call.\<close>

definition buf_inv :: "'a kernel_scheme \<Rightarrow> bool" where
  "buf_inv k \<longleftrightarrow>
     (\<forall>sp kd b u. kstack k sp = Some (Suspended kd (In_Recv b u)) \<longrightarrow>
        b < next_buf k \<and>
        (\<forall>sp' kd' u'. kstack k sp' = Some (Suspended kd' (In_Recv b u')) \<longrightarrow> sp' = sp))"

text \<open>
  A runnable thread stays runnable with its frame, or it runs now and its frame says where; a
  message buffer is written only for a receiver that waits for it; buffers stay unshared.
\<close>

definition keeps :: "'a kernel_scheme \<Rightarrow> resumed option \<Rightarrow> 'a kernel_scheme \<Rightarrow> bool" where
  "keeps k ro k' \<longleftrightarrow>
     (\<forall>t sp. (t, For_Cpu) \<in> set (parked k) \<and> state t = Cooperative sp \<longrightarrow>
        (t, For_Cpu) \<in> set (parked k') \<and> kstack k' sp = kstack k sp \<or>
        current k' = Some t \<and> ro = resumed_by k t) \<and>
     (\<forall>b. msg_bufs k' b \<noteq> msg_bufs k b \<longrightarrow> b = next_buf k \<or> (\<exists>t. (t, For_Message b) \<in> set (parked k))) \<and>
     (buf_inv k \<longrightarrow> buf_inv k')"

lemma keeps_quiet:
  "kstack k' = kstack k \<Longrightarrow> next_buf k' = next_buf k \<Longrightarrow>
   (\<And>t. (t, For_Cpu) \<in> set (parked k) \<Longrightarrow> (t, For_Cpu) \<in> set (parked k')) \<Longrightarrow>
   (\<And>b. msg_bufs k' b \<noteq> msg_bufs k b \<Longrightarrow> \<exists>t. (t, For_Message b) \<in> set (parked k)) \<Longrightarrow> keeps k ro k'"
  by (auto simp: keeps_def buf_inv_def)

lemma keeps_cong:
  "keeps k ro k' \<Longrightarrow> kstack k'' = kstack k' \<Longrightarrow> parked k'' = parked k' \<Longrightarrow> current k'' = current k' \<Longrightarrow>
   msg_bufs k'' = msg_bufs k' \<Longrightarrow> next_buf k'' = next_buf k' \<Longrightarrow> keeps k ro k''"
  by (simp only: keeps_def buf_inv_def)

text \<open>What a call that blocks has done to the buffers when it switches.\<close>

definition buf_step :: "'a kernel_scheme \<Rightarrow> kcall \<Rightarrow> 'a kernel_scheme \<Rightarrow> bool" where
  "buf_step k call kp \<longleftrightarrow>
     (case call of
        In_Recv b u \<Rightarrow> b = next_buf k \<and> msg_bufs kp = (msg_bufs k)(b := message_zero) \<and> next_buf kp = b + 1
      | _ \<Rightarrow> msg_bufs kp = msg_bufs k \<and> next_buf kp = next_buf k)"

lemma keeps_switch:
  assumes "buf_step k call kp" and "msg_bufs k' = msg_bufs kp" and "next_buf k' = next_buf kp"
    and "kstack k' = (kstack k)(old \<mapsto> Suspended By_Switch_Context call, sp := None)"
    and "\<And>t sp'. (t, For_Cpu) \<in> set (parked k) \<Longrightarrow> state t = Cooperative sp' \<Longrightarrow>
      (t, For_Cpu) \<in> set (parked k') \<and> sp' \<noteq> old \<and> sp' \<noteq> sp \<or> current k' = Some t \<and> ro = resumed_by k t"
  shows "keeps k ro k'"
proof -
  have "buf_inv k \<longrightarrow> buf_inv k'"
    using assms(1,3,4) unfolding buf_inv_def buf_step_def
    by (auto simp: less_Suc_eq split: kcall.splits if_splits)
  moreover have "b = next_buf k" if "msg_bufs k' b \<noteq> msg_bufs k b" for b
    using that assms(1,2) by (auto simp: buf_step_def split: kcall.splits if_splits)
  ultimately show ?thesis using assms(4,5) by (fastforce simp: keeps_def)
qed

section \<open>Switching away from the current thread\<close>

text \<open>Recording the stack pointer changes the entry of the parked thread and no other.\<close>

lemma parked_set_current_state:
  assumes inv: "coop_inv k" and cur: "current k = Some t" and R: "mset (parked k) = mset ((n, For_Cpu) # R)"
    and pk1: "mset (parked k1) = mset ((t, w) # R)"
  shows "mset (parked (set_thread_state (tid t) (Cooperative old) k1))
    = mset ((t\<lparr>state := Cooperative old\<rparr>, w) # R)"
proof -
  have "tid t \<notin> (\<lambda>x. tid (fst x)) ` set (parked k)"
    using inv cur by (auto simp: coop_inv_def all_threads_def)
  then have tR: "tid t \<notin> (\<lambda>x. tid (fst x)) ` set R" using mset_eq_setD [OF R] by simp
  show ?thesis
    using arg_cong [OF pk1, of "image_mset (apfst (upd_state (tid t) (Cooperative old)))"]
    by (simp add: parked_set_thread_state upd_state_def [of _ _ t] apfst_def
        map_upd_state_other [OF tR, unfolded apfst_def] flip: mset_map)
qed

lemma switch_away_states:
  assumes inv: "coop_inv k" and R: "mset (parked k) = mset ((next, For_Cpu) # R)"
    and st: "state next = Cooperative rsp" and free: "kstack k old = None"
  shows "distinct (map (\<lambda>x. state (fst x)) R) \<and>
    (\<forall>x \<in> set R. parked_ok k x \<and> state (fst x) \<noteq> Cooperative old \<and> state (fst x) \<noteq> Cooperative rsp)"
proof -
  have "mset (map (\<lambda>x. state (fst x)) (parked k)) = mset (map (\<lambda>x. state (fst x)) ((next, For_Cpu) # R))"
    using arg_cong [OF R, of "image_mset (\<lambda>x. state (fst x))"] by simp
  then have "distinct (map (\<lambda>x. state (fst x)) ((next, For_Cpu) # R))"
    using inv mset_eq_imp_distinct_iff unfolding coop_inv_def by blast
  moreover have "\<forall>x \<in> set R. parked_ok k x"
    using inv mset_eq_setD [OF R] by (auto simp: coop_inv_def list_all_iff)
  moreover have "\<not> parked_ok k x" if "state (fst x) = Cooperative old" for x
    using that free by (simp add: parked_ok_def)
  ultimately show ?thesis
    using st by (auto simp: rev_image_eqI)
qed

text \<open>
  The core of all blocking calls: the current thread \<open>t\<close> has been parked for reason \<open>w\<close>, there is
  another runnable thread \<open>n\<close>, and the stack pointer of \<open>t\<close> is at free stack space.
\<close>

lemma run_next_eq:
  assumes inv: "coop_inv k"
    and kp: "state_to_update kp = Some (tid t)" "same_context k kp" "kstack kp = kstack k"
      "run_queue kp = n # rest"
    and nxt: "(n, For_Cpu) \<in> set (parked k)" and free: "kstack k old = None"
    and st: "state n = Cooperative sp"
  shows "\<exists>a b c r. run_next old call kp = Inr (r,
      set_thread_state (tid t) (Cooperative old)
        (kp\<lparr>run_queue := rest, tss_rsp0 := a, percpu_kernel_stack := b, cr3_reg := c, current := Some n,
          kstack := (kstack k)(old \<mapsto> Suspended By_Switch_Context call, sp := None),
          state_to_update := None\<rparr>)) \<and> resumed_by k n = Some r"
proof -
  from inv nxt have "parked_ok k (n, For_Cpu)" by (auto simp: coop_inv_def list_all_iff)
  with st obtain f where f: "kstack k sp = Some f" "fits k For_Cpu f" by (auto elim: parked_ok_cases)
  have ne: "sp \<noteq> old" using f free by auto
  have "switchable k n" using inv nxt by (force simp: coop_inv_def list_all_iff all_threads_def)
  then have "switchable (kp\<lparr>run_queue := rest\<rparr>) n"
    using switchable_cong [of k "kp\<lparr>run_queue := rest\<rparr>"] kp(2) by (simp add: same_context_def)
  then obtain a b c where prep: "prepare_thread_switch n (kp\<lparr>run_queue := rest\<rparr>)
      = Inr (kp\<lparr>run_queue := rest, tss_rsp0 := a, percpu_kernel_stack := b, cr3_reg := c\<rparr>)"
    by (rule prepare_thread_switch_ok)
  define k1 where "k1 = kp\<lparr>run_queue := rest, tss_rsp0 := a, percpu_kernel_stack := b, cr3_reg := c,
    current := Some n, kstack := (kstack k)(old \<mapsto> Suspended By_Switch_Context call)\<rparr>"
  have sc1: "same_context k k1" using kp(2) by (simp add: k1_def same_context_def)
  then obtain r where res: "resume_cooperative sp old k1 = Inr (r, after_switch old (pop_frame sp k1))"
    and r: "resumed_by k1 n = Some r"
    using resume_cooperative_fits [of k1 sp f old] f ne st fits_cong [OF sc1] by (auto simp: k1_def)
  have "resumed_by k n = Some r"
    using r st ne resumed_by_cong [OF sc1, of n] by (simp add: k1_def)
  moreover have "run_next old call kp = Inr (r, set_thread_state (tid t) (Cooperative old)
      (kp\<lparr>run_queue := rest, tss_rsp0 := a, percpu_kernel_stack := b, cr3_reg := c, current := Some n,
        kstack := (kstack k)(old \<mapsto> Suspended By_Switch_Context call, sp := None),
        state_to_update := None\<rparr>))"
    using res kp prep st
    by (simp add: run_next_def switch_to_def switch_context_def push_frame_def pop_frame_def k1_def
        after_switch_def set_thread_state_def Let_def)
  ultimately show ?thesis by blast
qed

lemma switch_away:
  assumes inv: "coop_inv k" and cur: "current k = Some t"
    and kp: "mset (parked kp) = mset (parked k) + {#(t, w)#}" "current kp = None"
      "state_to_update kp = Some (tid t)" "same_context k kp" "kstack kp = kstack k"
      "run_queue kp = n # rest" "buf_step k call kp"
    and nxt: "(n, For_Cpu) \<in> set (parked k)"
    and free: "kstack k old = None"
    and fit: "fits k w (Suspended By_Switch_Context call)"
  shows "\<exists>r k'. run_next old call kp = Inr (r, k') \<and> coop_inv k' \<and> roster k' = roster k \<and>
    keeps k (Some r) k'"
proof -
  from inv nxt have "parked_ok k (n, For_Cpu)" by (auto simp: coop_inv_def list_all_iff)
  then obtain sp where st: "state n = Cooperative sp" by (rule parked_ok_cases)
  obtain a b c r where run: "run_next old call kp = Inr (r, set_thread_state (tid t) (Cooperative old)
        (kp\<lparr>run_queue := rest, tss_rsp0 := a, percpu_kernel_stack := b, cr3_reg := c, current := Some n,
          kstack := (kstack k)(old \<mapsto> Suspended By_Switch_Context call, sp := None),
          state_to_update := None\<rparr>))" and r: "resumed_by k n = Some r"
    using run_next_eq [OF inv kp(3-6) nxt free st, of call] by blast
  define k1 where "k1 = kp\<lparr>run_queue := rest, tss_rsp0 := a, percpu_kernel_stack := b, cr3_reg := c,
    current := Some n, kstack := (kstack k)(old \<mapsto> Suspended By_Switch_Context call, sp := None),
    state_to_update := None\<rparr>"
  define k' where "k' = set_thread_state (tid t) (Cooperative old) k1"
  have f': "current k' = Some n" "same_context k k'" "state_to_update k' = None"
    "msg_bufs k' = msg_bufs kp" "next_buf k' = next_buf kp"
    "kstack k' = (kstack k)(old \<mapsto> Suspended By_Switch_Context call, sp := None)"
    using inv cur nxt kp(4)
    by (auto simp: k'_def k1_def set_thread_state_def Let_def upd_state_def coop_inv_def all_threads_def
        same_context_def image_iff)
  have run': "run_next old call kp = Inr (r, k')" using run by (simp add: k'_def k1_def)
  have ros: "roster k' = roster k"
    using roster_run_next [OF run' kp(2)] roster_park [OF kp(1) cur kp(2)] by simp
  define R where "R = remove1 (n, For_Cpu) (parked k)"
  have R: "mset (parked k) = mset ((n, For_Cpu) # R)" using nxt by (simp add: R_def)
  have "mset (parked kp) = add_mset (n, For_Cpu) (mset (parked k1))"
    using kp(6) by (simp add: parked_def k1_def)
  then have pk1: "mset (parked k1) = mset ((t, w) # R)" using R kp(1) by simp
  have pk': "mset (parked k') = mset ((t\<lparr>state := Cooperative old\<rparr>, w) # R)"
    unfolding k'_def by (rule parked_set_current_state [OF inv cur R pk1])
  note P = switch_away_states [OF inv R st free]
  have ne: "sp \<noteq> old" using \<open>parked_ok k (n, For_Cpu)\<close> st free by (auto simp: parked_ok_def)
  have "coop_inv k'"
  proof (rule coop_inv_step [OF inv ros f'(2,3) pk'])
    show "list_all (parked_ok k') ((t\<lparr>state := Cooperative old\<rparr>, w) # R)"
      using P ne fit f'(6) fits_cong [OF f'(2)] parked_ok_cong [OF f'(2)]
      by (force simp: list_all_iff parked_ok_def)
  qed (use P in auto)
  moreover have "keeps k (Some r) k'"
    by (rule keeps_switch [OF kp(7) f'(4-6)])
      (use P mset_eq_setD [OF R] mset_eq_setD [OF pk'] f'(1) r in auto)
  ultimately show ?thesis using run' ros by blast
qed

section \<open>Steps of the cooperative kernel\<close>

text \<open>
  The calls a running thread makes, with the stack pointer at the switch, and the device
  interrupts. No timer tick is among them.
\<close>

datatype kop =
    Op_Yield u64
  | Op_Send nat message u64
  | Op_Recv nat kcaller u64
  | Op_Wait nat u64
  | Op_Wait_Irq nat u64
  | Op_Exit u64 u64
  | Op_Endpoint_Create
  | Op_Keyboard_Irq
  | Op_Ata_Irq
  | Op_Rtl8139_Irq

definition result_state :: "panic + 'r \<times> 'a kernel_scheme \<Rightarrow> panic + 'a kernel_scheme" where
  "result_state r = map_sum id snd r"

fun exec_op :: "kop \<Rightarrow> 'a kernel_scheme \<Rightarrow> panic + 'a kernel_scheme" where
  "exec_op (Op_Yield rsp) k = result_state (yield_now rsp k)"
| "exec_op (Op_Send h m rsp) k = result_state (sys_send h m rsp [] k)"
| "exec_op (Op_Recv h u rsp) k = result_state (sys_recv h u rsp [] k)"
| "exec_op (Op_Wait h rsp) k = result_state (sys_wait h rsp [] k)"
| "exec_op (Op_Wait_Irq h rsp) k = result_state (sys_wait_irq h rsp [] k)"
| "exec_op (Op_Exit rax rsp) k = result_state (exit_current_thread rax rsp k)"
| "exec_op Op_Endpoint_Create k = result_state (sys_endpoint_create k)"
| "exec_op Op_Keyboard_Irq k = Inr (keyboard_interrupt_handler k)"
| "exec_op Op_Ata_Irq k = Inr (ata_interrupt_handler k)"
| "exec_op Op_Rtl8139_Irq k = Inr (rtl8139_interrupt_handler k)"

text \<open>
  A step of the cooperative fragment: the caller is a thread with a capability space, another
  thread is runnable, the stack pointer is at free stack space, and no two threads wait for
  the same interrupt.
\<close>

definition caller_ok :: "u64 \<Rightarrow> 'a kernel_scheme \<Rightarrow> bool" where
  "caller_ok rsp k \<longleftrightarrow>
     (case current k of None \<Rightarrow> False | Some t \<Rightarrow> cspace_ref t \<noteq> None) \<and>
     run_queue k \<noteq> [] \<and> kstack k rsp = None"

fun cooperative :: "kop \<Rightarrow> 'a kernel_scheme \<Rightarrow> bool" where
  "cooperative (Op_Yield rsp) k = caller_ok rsp k"
| "cooperative (Op_Send h m rsp) k = caller_ok rsp k"
| "cooperative (Op_Recv h u rsp) k = caller_ok rsp k"
| "cooperative (Op_Wait h rsp) k = caller_ok rsp k"
| "cooperative (Op_Wait_Irq h rsp) k =
     (caller_ok rsp k \<and>
      (case current_cspace k of
         Inl _ \<Rightarrow> False
       | Inr (t, c) \<Rightarrow>
           (case cspace_get (cspaces k c) h of
              Some (Interrupt irq) \<Rightarrow> irq_waiters k irq = None
            | _ \<Rightarrow> True)))"
| "cooperative (Op_Exit rax rsp) k = caller_ok rsp k"
| "cooperative Op_Endpoint_Create k =
     (case current k of None \<Rightarrow> False | Some t \<Rightarrow> cspace_ref t \<noteq> None)"
| "cooperative _ k = True"

lemma caller_okE:
  assumes "caller_ok rsp k"
  obtains t c n rest where "current k = Some t" "cspace_ref t = Some c" "current_cspace k = Inr (t, c)"
    "run_queue k = n # rest" "kstack k rsp = None"
  using assms by (auto simp: caller_ok_def current_cspace_def neq_Nil_conv split: option.splits)

lemma block_switches:
  assumes "coop_inv k" and "current k = Some t" and "kstack k rsp = None" and "run_queue k = n # rest"
    and "mset (parked kp) = mset (parked k) + {#(t, w)#}" and "current kp = None"
      "state_to_update kp = Some (tid t)" "same_context k kp" "kstack kp = kstack k"
      "run_queue kp = run_queue k" "buf_step k call kp"
    and "fits k w (Suspended By_Switch_Context call)"
  shows "\<exists>r k'. block rsp [] call kp = Inr (Switched r, k') \<and> coop_inv k' \<and> roster k' = roster k \<and>
    keeps k (Some r) k'"
proof -
  have "(n, For_Cpu) \<in> set (parked k)" using assms(4) by (simp add: parked_def)
  with assms obtain r k' where "run_next rsp call kp = Inr (r, k')" "coop_inv k'" "roster k' = roster k"
    "keeps k (Some r) k'"
    using switch_away [OF assms(1,2,5-9), of n rest call rsp] by auto
  then show ?thesis using assms(4,10) by (simp add: block_def idle_loop.simps)
qed

text \<open>Waking threads: they move to the run queue with their frames.\<close>

lemma coop_inv_wake_all:
  assumes inv: "coop_inv k" and R: "mset (parked k) = mset (map (\<lambda>t. (t, w)) ts @ R)"
    and R': "mset (parked k') = mset (map (\<lambda>t. (t, For_Cpu)) ts @ R)"
    and cur: "current k' = current k" and sc: "same_context k k'"
    and ks: "kstack k' = kstack k" and su: "state_to_update k' = state_to_update k"
    and nb: "next_buf k' = next_buf k"
    and mb: "\<And>b. msg_bufs k' b \<noteq> msg_bufs k b \<Longrightarrow> \<exists>t. (t, For_Message b) \<in> set (parked k)"
    and w: "w \<noteq> For_Cpu"
  shows "coop_inv k' \<and> roster k' = roster k \<and> keeps k ro k'"
proof (intro conjI)
  show "keeps k ro k'"
    by (rule keeps_quiet [OF ks nb _ mb]) (use mset_eq_setD [OF R] mset_eq_setD [OF R'] w in auto)
  show ros: "roster k' = roster k"
    unfolding roster_eq cur R R' by (simp add: multiset.map_comp comp_def)
  show "coop_inv k'"
  proof (rule coop_inv_step [OF inv ros sc _ R'])
    have "mset (map (\<lambda>x. state (fst x)) (parked k))
        = mset (map (\<lambda>x. state (fst x)) (map (\<lambda>t. (t, For_Cpu)) ts @ R))"
      using R by (simp add: multiset.map_comp comp_def)
    then show "distinct (map (\<lambda>x. state (fst x)) (map (\<lambda>t. (t, For_Cpu)) ts @ R))"
      using inv mset_eq_imp_distinct_iff unfolding coop_inv_def by blast
    have "list_all (parked_ok k) (map (\<lambda>t. (t, w)) ts @ R)"
      using inv mset_eq_setD [OF R] by (simp add: coop_inv_def list_all_iff)
    then show "list_all (parked_ok k') (map (\<lambda>t. (t, For_Cpu)) ts @ R)"
      using parked_ok_For_Cpu parked_ok_cong [OF sc] ks by (fastforce simp: list_all_iff)
  qed (use inv su in \<open>simp add: coop_inv_def\<close>)
qed

lemma coop_inv_wake:
  assumes inv: "coop_inv k" and wake: "mset (parked k') + {#(t, w)#} = mset (parked k) + {#(t, For_Cpu)#}"
    and w: "w \<noteq> For_Cpu" and "current k' = current k" and "same_context k k'"
    and "kstack k' = kstack k" and "state_to_update k' = state_to_update k" and "next_buf k' = next_buf k"
    and "\<And>b. msg_bufs k' b \<noteq> msg_bufs k b \<Longrightarrow> w = For_Message b"
  shows "coop_inv k' \<and> roster k' = roster k \<and> keeps k ro k'"
proof -
  have "(t, w) \<in># mset (parked k) + {#(t, For_Cpu)#}" unfolding wake [symmetric] by simp
  with w have tw: "(t, w) \<in> set (parked k)" by simp
  define R where "R = remove1 (t, w) (parked k)"
  have R: "mset (parked k) = mset ((t, w) # R)" using tw by (simp add: R_def)
  have R': "mset (parked k') = mset ((t, For_Cpu) # R)" using wake R by (simp add: add_mset_commute)
  show ?thesis
    by (rule coop_inv_wake_all [OF inv, where w = w and ts = "[t]" and R = R])
      (use R R' assms(3-) tw in auto)
qed

lemma coop_inv_cong:
  "coop_inv k \<Longrightarrow> parked k' = parked k \<Longrightarrow> current k' = current k \<Longrightarrow> same_context k k' \<Longrightarrow>
   kstack k' = kstack k \<Longrightarrow> state_to_update k' = state_to_update k \<Longrightarrow> coop_inv k'"
  by (rule coop_inv_step [of k k' "parked k"])
    (auto simp: coop_inv_def list_all_iff parked_ok_cong intro: roster_cong)

section \<open>Every step keeps the invariant\<close>

definition next_code :: "'r outcome \<Rightarrow> resumed option" where
  "next_code out = (case out of Switched r \<Rightarrow> Some r | _ \<Rightarrow> None)"

text \<open>
  \<open>safe r k\<close>: the call does not panic, the invariant holds with the same threads, and the step
  keeps what it must.
\<close>

definition safe :: "panic + 'r outcome \<times> 'a kernel_scheme \<Rightarrow> 'a kernel_scheme \<Rightarrow> bool" where
  "safe r k \<longleftrightarrow>
     (\<exists>out k'. r = Inr (out, k') \<and> coop_inv k' \<and> roster k' = roster k \<and> keeps k (next_code out) k')"

lemma keeps_refl [simp]: "keeps k ro k"
  by (rule keeps_quiet) auto

lemma safe_same [simp]: "safe (Inr (out, k)) k = coop_inv k"
  by (simp add: safe_def)

lemma safe_wake:
  assumes "coop_inv k" and "mset (parked k') + {#(t, w)#} = mset (parked k) + {#(t, For_Cpu)#}"
    and "w \<noteq> For_Cpu" and "current k' = current k" and "same_context k k'"
    and "kstack k' = kstack k" and "state_to_update k' = state_to_update k" and "next_buf k' = next_buf k"
    and "\<And>b. msg_bufs k' b \<noteq> msg_bufs k b \<Longrightarrow> w = For_Message b"
  shows "safe (Inr (out, k')) k"
  using coop_inv_wake [OF assms, where ro = "next_code out"] by (simp add: safe_def)

lemma coop_inv_refs: "coop_inv k \<Longrightarrow> refs_ok k"
  by (simp add: coop_inv_def)

lemma safe_block:
  fixes k kp :: "'a kernel_scheme"
  assumes "coop_inv k" and "current k = Some t" and "kstack k rsp = None" and "run_queue k \<noteq> []"
    and "mset (parked kp) = mset (parked k) + {#(t, w)#}"
    and "current kp = None \<and> state_to_update kp = Some (tid t) \<and> same_context k kp \<and>
      kstack kp = kstack k \<and> run_queue kp = run_queue k \<and> buf_step k call kp"
    and "fits k w (Suspended By_Switch_Context call)"
  shows "safe (block rsp [] call kp :: panic + 'r outcome \<times> 'a kernel_scheme) k"
proof -
  obtain n rest where "run_queue k = n # rest" using assms(4) by (cases "run_queue k") auto
  then have "\<exists>r k'. block rsp [] call kp = Inr (Switched r :: 'r outcome, k') \<and> coop_inv k' \<and>
      roster k' = roster k \<and> keeps k (Some r) k'"
    using assms by (intro block_switches [OF assms(1-3) _ assms(5)]) auto
  then show ?thesis by (auto simp: safe_def next_code_def)
qed

lemma safe_sys_send:
  assumes inv: "coop_inv k" and ok: "caller_ok rsp k"
  shows "safe (sys_send h m rsp [] k) k"
proof -
  from ok obtain t c n rest where c: "current k = Some t" "current_cspace k = Inr (t, c)"
    "run_queue k = n # rest" "kstack k rsp = None" by (rule caller_okE)
  show ?thesis
  proof (cases "endpoint_cap RIGHTS_SEND h (cspaces k c)")
    case (Inr ep)
    have ep: "ep < next_ep k" by (rule refs_ok_endpoint [OF coop_inv_refs [OF inv] c(2) Inr])
    have blk: "safe (block rsp [] In_Send (park_sender ep q t m k)) k"
      if "endpoints k ep = SendersWaiting q \<or> endpoints k ep = Idle \<and> q = []" for q
      by (rule safe_block [OF inv c(1,4) _ parked_park_sender [OF that ep]])
        (simp_all add: park_sender_def same_context_def buf_step_def c)
    have "safe (Inr (out, hand_over ep r ptr q m k)) k" if e: "endpoints k ep = ReceiversWaiting ((r, ptr) # q)"
      for r ptr q and out :: "(cap_error + unit) outcome"
      by (rule safe_wake [OF inv parked_hand_over [OF e ep]])
        (auto simp: hand_over_def same_context_def split: if_splits)
    with c Inr inv blk show ?thesis
      by (auto simp: sys_send_def split: endpoint_state.split list.split)
  qed (use inv c in \<open>simp add: sys_send_def\<close>)
qed

lemma safe_sys_recv:
  assumes inv: "coop_inv k" and ok: "caller_ok rsp k"
  shows "safe (sys_recv h u rsp [] k) k"
proof -
  from ok obtain t c n rest where c: "current k = Some t" "current_cspace k = Inr (t, c)"
    "run_queue k = n # rest" "kstack k rsp = None" by (rule caller_okE)
  show ?thesis
  proof (cases "endpoint_cap RIGHTS_RECEIVE h (cspaces k c)")
    case (Inr ep)
    have ep: "ep < next_ep k" by (rule refs_ok_endpoint [OF coop_inv_refs [OF inv] c(2) Inr])
    have blk: "safe (block rsp [] (In_Recv (next_buf k) u) (park_receiver ep q t k)) k"
      if "endpoints k ep = ReceiversWaiting q \<or> endpoints k ep = Idle \<and> q = []" for q
      by (rule safe_block [OF inv c(1,4) _ parked_park_receiver [OF that ep]])
        (simp_all add: park_receiver_def same_context_def buf_step_def c)
    have "safe (Inr (out, collect ep s q k)) k" if e: "endpoints k ep = SendersWaiting ((s, m) # q)"
      for s m q and out :: "(cap_error + message) outcome"
      by (rule safe_wake [OF inv parked_collect [OF e ep]]) (auto simp: collect_def same_context_def)
    with c Inr inv blk show ?thesis
      by (auto simp: sys_recv_def split: endpoint_state.split list.split)
  qed (use inv c in \<open>simp add: sys_recv_def\<close>)
qed

lemma safe_sys_wait:
  assumes inv: "coop_inv k" and ok: "caller_ok rsp k"
  shows "safe (sys_wait h rsp [] k) k"
proof -
  from ok obtain t c n rest where c: "current k = Some t" "current_cspace k = Inr (t, c)"
    "run_queue k = n # rest" "kstack k rsp = None" by (rule caller_okE)
  have "safe (block rsp [] In_Wait (park_in_process p t k)) k"
    if "cspace_get (cspaces k c) h = Some (Process p rt)" for p rt
    by (rule safe_block [OF inv c(1,4) _ parked_park_in_process])
      (use refs_ok_cap [OF coop_inv_refs [OF inv] c(2) that] c in
        \<open>simp_all add: park_in_process_def same_context_def buf_step_def\<close>)
  with c inv show ?thesis
    by (auto simp: sys_wait_def split: option.split capability.split)
qed

lemma safe_sys_wait_irq:
  assumes inv: "coop_inv k" and ok: "cooperative (Op_Wait_Irq h rsp) k"
  shows "safe (sys_wait_irq h rsp [] k) k"
proof -
  from ok have "caller_ok rsp k" by simp
  then obtain t c n rest where c: "current k = Some t" "current_cspace k = Inr (t, c)"
    "run_queue k = n # rest" "kstack k rsp = None" by (rule caller_okE)
  have "safe (block rsp [] In_Wait_Irq (park_for_irq irq t k)) k"
    if "cspace_get (cspaces k c) h = Some (Interrupt irq)" for irq
    by (rule safe_block [OF inv c(1,4) _ parked_park_for_irq])
      (use ok that c in \<open>simp_all add: park_for_irq_def same_context_def buf_step_def\<close>)
  moreover have "safe (Inr (out, k\<lparr>pending_irqs := pe\<rparr>)) k" for pe and out :: "int outcome"
    using inv by (auto simp: safe_def same_context_def intro: coop_inv_cong roster_cong keeps_quiet)
  ultimately show ?thesis
    using c inv by (auto simp: sys_wait_irq_def split: option.split capability.split)
qed

lemma safe_sys_endpoint_create:
  assumes inv: "coop_inv k" and cur: "current_cspace k = Inr (t, c)"
  shows "\<exists>h k'. sys_endpoint_create k = Inr (h, k') \<and> coop_inv k' \<and> roster k' = roster k \<and> keeps k None k'"
proof -
  obtain h cs where ins: "cspace_insert (cspaces k c) (Endpoint (next_ep k) RIGHTS_ALL) = (h, cs)"
    by (cases "cspace_insert (cspaces k c) (Endpoint (next_ep k) RIGHTS_ALL)")
  define k' where "k' = k\<lparr>endpoints := (endpoints k)(next_ep k := Idle), next_ep := next_ep k + 1,
      cspaces := (cspaces k)(c := cs)\<rparr>"
  have park: "parked k' = parked k" by (simp add: k'_def parked_def eps_parked_fresh)
  have all: "all_threads k' = all_threads k" using park by (simp add: all_threads_def k'_def)
  have fit: "fits k' w f = fits k w f" for w f
    by (cases "(k, w, f)" rule: fits.cases) (auto simp: k'_def)
  have fields: "kstack k' = kstack k" "virt_addr_ok k' = virt_addr_ok k" "phys_frame_ok k' = phys_frame_ok k"
    by (simp_all add: k'_def)
  have cap: "cap_in_range k' cap" if "cap_in_range k cap" for cap
    using that by (cases cap) (auto simp: k'_def)
  have "\<forall>d < next_cspace k'. \<forall>cap \<in> caps_of (cspaces k' d). cap_in_range k' cap"
    using coop_inv_refs [OF inv] cap
    by (auto simp: refs_ok_alt k'_def caps_of_insert [OF ins])
  then have "refs_ok k'"
    using coop_inv_refs [OF inv] all by (auto simp: refs_ok_alt thread_in_range_alt k'_def)
  moreover have "parked_ok k' = parked_ok k" "switchable k' = switchable k"
    using fields by (auto simp: fun_eq_iff parked_ok_def switchable_def fit
        split: saved_thread_state.split option.split)
  ultimately have "coop_inv k'" using inv park all by (simp add: coop_inv_def) (simp add: k'_def)
  moreover have "sys_endpoint_create k = Inr (h, k')" "roster k' = roster k"
    using cur ins all by (simp_all add: sys_endpoint_create_def k'_def roster_def)
  moreover have "keeps k None k'"
    by (rule keeps_quiet) (use park in \<open>auto simp: k'_def\<close>)
  ultimately show ?thesis by blast
qed

lemma safe_yield_now:
  assumes inv: "coop_inv k" and ok: "caller_ok rsp k"
  shows "safe (yield_now rsp k) k"
proof -
  from ok obtain t c n rest where c: "current k = Some t" "run_queue k = n # rest" "kstack k rsp = None"
    by (rule caller_okE)
  let ?kp = "k\<lparr>current := None, run_queue := run_queue k @ [t], state_to_update := Some (tid t)\<rparr>"
  have n: "(n, For_Cpu) \<in> set (parked k)" using c by (simp add: parked_def)
  have "\<exists>r k'. run_next rsp In_Yield ?kp = Inr (r, k') \<and> coop_inv k' \<and> roster k' = roster k \<and>
      keeps k (Some r) k'"
    by (rule switch_away [OF inv c(1), where w = For_Cpu and rest = "rest @ [t]"])
      (use c n in \<open>simp_all add: same_context_def buf_step_def\<close>, simp add: parked_def)
  then obtain r k' where run: "run_next rsp In_Yield ?kp = Inr (r, k')" "coop_inv k'" "roster k' = roster k"
    "keeps k (Some r) k'"
    by blast
  have "parked_ok k (n, For_Cpu)" using inv n by (auto simp: coop_inv_def list_all_iff)
  then obtain sp where "state n = Cooperative sp" by (rule parked_ok_cases)
  with run c have "yield_now rsp k = Inr (Switched r, k')"
    by (auto simp: yield_now_def run_next_def switch_to_def Let_def split: sum.splits)
  with run show ?thesis by (simp add: safe_def next_code_def)
qed

text \<open>Device interrupts.\<close>

definition quiet :: "'a kernel_scheme \<Rightarrow> 'a kernel_scheme \<Rightarrow> bool" where
  "quiet k k' \<longleftrightarrow> coop_inv k' \<and> keeps k None k'"

lemma quiet_io:
  assumes "quiet k k'"
  shows "quiet k (io ev k')"
proof -
  have "coop_inv (io ev k')"
    by (rule coop_inv_cong [where k = k']) (use assms in \<open>simp_all add: quiet_def io_def same_context_def\<close>)
  moreover have "keeps k None (io ev k')"
    by (rule keeps_cong [where k' = k']) (use assms in \<open>simp_all add: io_def quiet_def\<close>)
  ultimately show ?thesis by (simp add: quiet_def)
qed

lemma quiet_eoi: "quiet k k' \<Longrightarrow> quiet k (eoi k')"
  by (simp add: eoi_def quiet_io)

lemma quiet_unblock_irq:
  assumes "coop_inv k"
  shows "quiet k (unblock_irq irq k)"
proof (cases "irq_waiters k irq")
  case None
  have "coop_inv (unblock_irq irq k)"
    by (rule coop_inv_cong [OF assms]) (use None in \<open>simp_all add: unblock_irq_def same_context_def\<close>)
  moreover have "keeps k None (unblock_irq irq k)"
    by (rule keeps_quiet) (use None in \<open>simp_all add: unblock_irq_def\<close>)
  ultimately show ?thesis by (simp add: quiet_def)
next
  case (Some t)
  have "coop_inv (unblock_irq irq k) \<and> roster (unblock_irq irq k) = roster k \<and> keeps k None (unblock_irq irq k)"
    by (rule coop_inv_wake [OF assms parked_unblock_irq_Some [OF Some]])
      (use Some in \<open>simp_all add: unblock_irq_def same_context_def\<close>)
  then show ?thesis by (simp add: quiet_def)
qed

lemma quiet_handlers:
  assumes "coop_inv k"
  shows "quiet k (keyboard_interrupt_handler k)" "quiet k (ata_interrupt_handler k)"
    "quiet k (rtl8139_interrupt_handler k)"
  using quiet_unblock_irq [OF assms]
  by (simp_all add: keyboard_interrupt_handler_def ata_interrupt_handler_def
      rtl8139_interrupt_handler_def quiet_io quiet_eoi)

text \<open>Exit: the waiters of the process wake up, the thread is gone, the next thread runs.\<close>

lemma refs_ok_drop_current:
  assumes "refs_ok k"
  shows "refs_ok (k\<lparr>current := None\<rparr>)"
proof -
  have "cap_in_range (k\<lparr>current := None\<rparr>) cap = cap_in_range k cap" for cap by (cases cap) auto
  with assms show ?thesis by (auto simp: refs_ok_alt all_threads_def thread_in_range_alt)
qed

lemma coop_inv_drop_current:
  assumes "coop_inv k"
  shows "coop_inv (k\<lparr>current := None\<rparr>)"
proof -
  have sc: "same_context k (k\<lparr>current := None\<rparr>)" by (simp add: same_context_def)
  have "parked_ok (k\<lparr>current := None\<rparr>) = parked_ok k" "switchable (k\<lparr>current := None\<rparr>) = switchable k"
    using parked_ok_cong [OF sc] switchable_cong [OF sc] by auto
  moreover have "refs_ok (k\<lparr>current := None\<rparr>)"
    using assms by (intro refs_ok_drop_current coop_inv_refs)
  ultimately show ?thesis using assms by (simp add: coop_inv_def all_threads_def)
qed

lemma coop_dispatch:
  assumes inv: "coop_inv k" and cur: "current k = None" and rq: "run_queue k = n # rest"
  shows "\<exists>k1 sp r k'. prepare_thread_switch n (k\<lparr>run_queue := rest\<rparr>) = Inr k1 \<and>
    state n = Cooperative sp \<and> resume_cooperative sp rax (k1\<lparr>current := Some n\<rparr>) = Inr (r, k') \<and>
    coop_inv k' \<and> roster k' = roster k \<and> parked k = (n, For_Cpu) # parked k' \<and> current k' = Some n \<and>
    kstack k' = (kstack k)(sp := None) \<and> msg_bufs k' = msg_bufs k \<and> next_buf k' = next_buf k \<and>
    resumed_by k n = Some r"
proof -
  have R: "parked k = (n, For_Cpu) # parked (k\<lparr>run_queue := rest\<rparr>)" using rq by (simp add: parked_def)
  then have "parked_ok k (n, For_Cpu)" "switchable k n"
    using inv by (auto simp: coop_inv_def list_all_iff all_threads_def)
  then obtain sp f where f: "state n = Cooperative sp" "kstack k sp = Some f" "fits k For_Cpu f"
    by (auto elim: parked_ok_cases)
  have "switchable (k\<lparr>run_queue := rest\<rparr>) n"
    using \<open>switchable k n\<close> switchable_cong [of k "k\<lparr>run_queue := rest\<rparr>"] by (simp add: same_context_def)
  then obtain a b c where prep: "prepare_thread_switch n (k\<lparr>run_queue := rest\<rparr>)
      = Inr (k\<lparr>run_queue := rest, tss_rsp0 := a, percpu_kernel_stack := b, cr3_reg := c\<rparr>)"
    by (rule prepare_thread_switch_ok)
  let ?k1 = "k\<lparr>run_queue := rest, tss_rsp0 := a, percpu_kernel_stack := b, cr3_reg := c\<rparr>"
  let ?k2 = "?k1\<lparr>current := Some n\<rparr>"
  have su: "state_to_update k = None" using inv by (simp add: coop_inv_def)
  have sc: "same_context k ?k2" by (simp add: same_context_def)
  obtain r where res: "resume_cooperative sp rax ?k2 = Inr (r, after_switch rax (pop_frame sp ?k2))"
    and "resumed_by ?k2 n = Some r"
    using resume_cooperative_fits [of ?k2 sp f rax] f fits_cong [OF sc] by auto
  then have r: "resumed_by k n = Some r" using resumed_by_cong [OF sc] by simp
  have af: "after_switch rax (pop_frame sp ?k2) = pop_frame sp ?k2"
    using su by (simp add: after_switch_def pop_frame_def)
  have sc': "same_context k (pop_frame sp ?k2)" by (simp add: same_context_def pop_frame_def)
  have ros: "roster (pop_frame sp ?k2) = roster k" using roster_dispatch [OF rq cur prep] by simp
  have "coop_inv (pop_frame sp ?k2)"
  proof (rule coop_inv_step [OF inv ros sc', where ps = "parked (k\<lparr>run_queue := rest\<rparr>)"])
    have ne: "state (fst x) \<noteq> Cooperative sp" if "x \<in> set (parked (k\<lparr>run_queue := rest\<rparr>))" for x
      using inv that f(1) unfolding coop_inv_def R by (auto simp: rev_image_eqI)
    have "parked_ok k x" if "x \<in> set (parked (k\<lparr>run_queue := rest\<rparr>))" for x
      using inv that unfolding coop_inv_def R by (auto simp: list_all_iff)
    then show "list_all (parked_ok (pop_frame sp ?k2)) (parked (k\<lparr>run_queue := rest\<rparr>))"
      using ne parked_ok_cong [OF sc'] by (force simp: list_all_iff pop_frame_def)
    show "distinct (map (\<lambda>x. state (fst x)) (parked (k\<lparr>run_queue := rest\<rparr>)))"
      using inv unfolding coop_inv_def R by simp
  qed (simp_all add: pop_frame_def su)
  then show ?thesis
    using prep f res af ros r R
    by (intro exI [where x = ?k1], intro exI [where x = sp], intro exI [where x = r],
        intro exI [where x = "pop_frame sp ?k2"]) (simp add: pop_frame_def)
qed

lemma exit_wakes:
  assumes inv: "coop_inv k" and p: "p < next_proc k"
    and k1: "k1 = k\<lparr>procs := (procs k)(p := \<lparr>terminated = True, wait_queue = []\<rparr>),
      run_queue := run_queue k @ wait_queue (procs k p)\<rparr>"
  shows "coop_inv k1 \<and> roster k1 = roster k \<and> keeps k None k1"
proof (rule coop_inv_wake_all [OF inv, where w = For_Exit and ts = "wait_queue (procs k p)"])
  let ?R = "parked (k\<lparr>procs := (procs k)(p := \<lparr>terminated = True, wait_queue = []\<rparr>)\<rparr>)"
  show "mset (parked k) = mset (map (\<lambda>t. (t, For_Exit)) (wait_queue (procs k p)) @ ?R)"
    using parked_procs [OF p, of "\<lparr>terminated = True, wait_queue = []\<rparr>"]
    by (simp add: proc_parked_def union_commute)
  show "mset (parked k1) = mset (map (\<lambda>t. (t, For_Cpu)) (wait_queue (procs k p)) @ ?R)"
    by (simp add: k1 parked_def)
qed (simp_all add: k1 same_context_def)

lemma roster_drop_current:
  "current k = Some t \<Longrightarrow> roster (k\<lparr>current := None\<rparr>) + {#static_part t#} = roster k"
  by (simp add: roster_eq)

lemma keeps_switch_exit:
  assumes "keeps k None k1" and "parked k1 = (n, For_Cpu) # parked k'" and "current k' = Some n"
    and "kstack k' = (kstack k1)(sp := None)" and "msg_bufs k' = msg_bufs k1"
    and "next_buf k' = next_buf k1" and "resumed_by k1 n = Some r" and "state n = Cooperative sp"
    and "distinct (map (\<lambda>x. state (fst x)) (parked k1))"
    and "kstack k1 = kstack k" and "msg_bufs k1 = msg_bufs k" and "next_buf k1 = next_buf k"
    and "\<And>t. resumed_by k1 t = resumed_by k t"
    and "\<forall>t. (t, For_Cpu) \<in> set (parked k) \<longrightarrow> (t, For_Cpu) \<in> set (parked k1)"
  shows "keeps k (Some r) k'"
proof -
  have "buf_inv k \<longrightarrow> buf_inv k'"
    using assms(4,6,10,12) by (auto simp: buf_inv_def)
  moreover have "(t, For_Cpu) \<in> set (parked k') \<and> sp' \<noteq> sp \<or> t = n"
    if "(t, For_Cpu) \<in> set (parked k)" "state t = Cooperative sp'" for t sp'
    using that assms(2,8,9,14) by (auto simp: image_iff) (metis fst_conv)+
  ultimately show ?thesis
    using assms(3-7,10-13) by (fastforce simp: keeps_def)
qed

lemma safe_exit:
  assumes inv: "coop_inv k" and ok: "caller_ok rsp k"
  shows "\<exists>r k' t. exit_current_thread rax rsp k = Inr (r, k') \<and> coop_inv k' \<and> current k = Some t \<and>
    roster k' + {#static_part t#} = roster k \<and> keeps k (Some r) k'"
proof -
  from ok obtain t c n rest where c: "current k = Some t" "run_queue k = n # rest" by (rule caller_okE)
  define k1 where "k1 = (case pstate_ref t of None \<Rightarrow> k
    | Some p \<Rightarrow> k\<lparr>procs := (procs k)(p := \<lparr>terminated = True, wait_queue = []\<rparr>),
                  run_queue := run_queue k @ wait_queue (procs k p)\<rparr>)"
  have "p < next_proc k" if "pstate_ref t = Some p" for p
    using coop_inv_refs [OF inv] c(1) that by (auto simp: refs_ok_alt thread_in_range_alt all_threads_def)
  then have k1: "coop_inv k1 \<and> roster k1 = roster k \<and> keeps k None k1"
    using inv exit_wakes [OF inv] by (auto simp: k1_def split: option.split)
  have c1: "current k1 = Some t" using c by (simp add: k1_def split: option.split)
  have "\<exists>rest'. run_queue k1 = n # rest'" using c by (auto simp: k1_def split: option.split)
  then obtain rest' where rq: "run_queue k1 = n # rest'" ..
  let ?k2 = "k1\<lparr>current := None\<rparr>"
  have ros: "roster ?k2 + {#static_part t#} = roster k"
    using k1 c1 by (metis roster_drop_current)
  obtain k3 sp r k' where d: "prepare_thread_switch n (?k2\<lparr>run_queue := rest'\<rparr>) = Inr k3"
    "state n = Cooperative sp" "resume_cooperative sp rax (k3\<lparr>current := Some n\<rparr>) = Inr (r, k')"
    "coop_inv k'" "roster k' = roster ?k2"
    and d': "parked ?k2 = (n, For_Cpu) # parked k'" "current k' = Some n"
    "kstack k' = (kstack ?k2)(sp := None)" "msg_bufs k' = msg_bufs ?k2" "next_buf k' = next_buf ?k2"
    "resumed_by ?k2 n = Some r"
    using coop_dispatch [OF coop_inv_drop_current [OF k1 [THEN conjunct1]], of n rest' rax] rq by auto
  have "exit_current_thread rax rsp k = Inr (r, k')"
    using c d rq by (simp add: exit_current_thread_def Let_def flip: k1_def)
  moreover have "keeps k (Some r) k'"
  proof (rule keeps_switch_exit)
    show "distinct (map (\<lambda>x. state (fst x)) (parked k1))" using k1 by (simp add: coop_inv_def)
    show k: "kstack k1 = kstack k" "msg_bufs k1 = msg_bufs k" "next_buf k1 = next_buf k"
      by (simp_all add: k1_def split: option.split)
    have sc: "same_context k k1" "same_context k1 ?k2" by (auto simp: k1_def same_context_def split: option.split)
    show "resumed_by k1 t = resumed_by k t" for t by (rule resumed_by_cong [OF sc(1)]) (simp add: k)
    show "resumed_by k1 n = Some r" using d'(6) resumed_by_cong [OF sc(2), of n] by simp
    show "\<forall>t. (t, For_Cpu) \<in> set (parked k) \<longrightarrow> (t, For_Cpu) \<in> set (parked k1)"
      by (auto simp: k1_def parked_def procs_parked_def proc_parked_def eps_parked_def split: option.split)
  qed (use k1 d' d(2) in simp_all)
  moreover have "roster k' + {#static_part t#} = roster k" using d(5) ros by simp
  ultimately show ?thesis using d(4) c(1) by blast
qed

section \<open>Sequences of steps\<close>

text \<open>The code that runs next when an operation switches to another thread.\<close>

definition switch_code :: "panic + 'r outcome \<times> 'a kernel_scheme \<Rightarrow> resumed option" where
  "switch_code r = (case r of Inl _ \<Rightarrow> None | Inr (out, _) \<Rightarrow> next_code out)"

fun op_code :: "kop \<Rightarrow> 'a kernel_scheme \<Rightarrow> resumed option" where
  "op_code (Op_Yield rsp) k = switch_code (yield_now rsp k)"
| "op_code (Op_Send h m rsp) k = switch_code (sys_send h m rsp [] k)"
| "op_code (Op_Recv h u rsp) k = switch_code (sys_recv h u rsp [] k)"
| "op_code (Op_Wait h rsp) k = switch_code (sys_wait h rsp [] k)"
| "op_code (Op_Wait_Irq h rsp) k = switch_code (sys_wait_irq h rsp [] k)"
| "op_code (Op_Exit rax rsp) k =
     (case exit_current_thread rax rsp k of Inl _ \<Rightarrow> None | Inr (r, _) \<Rightarrow> Some r)"
| "op_code _ k = None"

lemma safe_result:
  "safe r k \<Longrightarrow> \<exists>k'. result_state r = Inr k' \<and> coop_inv k' \<and> keeps k (switch_code r) k'"
  by (auto simp: safe_def result_state_def switch_code_def)

lemma exec_op_keeps:
  assumes inv: "coop_inv k" and ok: "cooperative op k"
  shows "\<exists>k'. exec_op op k = Inr k' \<and> coop_inv k' \<and> keeps k (op_code op k) k'"
proof (cases op)
  case (Op_Exit rax rsp)
  with safe_exit [OF inv, of rsp rax] ok show ?thesis by (auto simp: result_state_def)
next
  case Op_Endpoint_Create
  with ok obtain t c where "current_cspace k = Inr (t, c)"
    by (auto simp: current_cspace_def split: option.splits)
  with safe_sys_endpoint_create [OF inv this] Op_Endpoint_Create show ?thesis
    by (auto simp: result_state_def)
next
  case (Op_Wait_Irq h rsp)
  with safe_sys_wait_irq [OF inv, of h rsp] ok show ?thesis by (simp add: safe_result)
qed (use ok quiet_handlers [OF inv] in \<open>simp_all add: safe_result [OF safe_yield_now] safe_result [OF safe_sys_send]
      safe_result [OF safe_sys_recv] safe_result [OF safe_sys_wait] quiet_def inv\<close>)

lemma exec_op_safe:
  "coop_inv k \<Longrightarrow> cooperative op k \<Longrightarrow> \<exists>k'. exec_op op k = Inr k' \<and> coop_inv k'"
  using exec_op_keeps by blast

text \<open>The states that the cooperative kernel reaches.\<close>

inductive coop_reach :: "'a kernel_scheme \<Rightarrow> 'a kernel_scheme \<Rightarrow> bool" for k0 where
  start: "coop_reach k0 k0"
| step: "coop_reach k0 k \<Longrightarrow> cooperative op k \<Longrightarrow> exec_op op k = Inr k' \<Longrightarrow> coop_reach k0 k'"

lemma coop_reach_inv: "coop_reach k0 k \<Longrightarrow> coop_inv k0 \<Longrightarrow> coop_inv k"
  by (induction rule: coop_reach.induct) (auto dest: exec_op_safe)

section \<open>A sample kernel with two threads\<close>

definition sample_thread :: "u64 \<Rightarrow> u64 \<Rightarrow> saved_thread_state \<Rightarrow> thread" where
  "sample_thread i base st =
     \<lparr>tid = i, state = st, stack = (base, STACK_SIZE), cr3 = None, cspace_ref = Some 0, pstate_ref = None\<rparr>"

definition sample_caps :: cspace where
  "sample_caps = \<lparr>slots = [Some (Endpoint 0 RIGHTS_ALL), Some (Interrupt 1)]\<rparr>"

text \<open>Thread 1 runs, thread 2 has just been created.\<close>

definition sample_kernel :: kernel where
  "sample_kernel = empty_kernel\<lparr>
     current := Some (sample_thread 1 0x10000 (Cooperative 0)),
     run_queue := [sample_thread 2 0x20000 (Cooperative 0x21FC8)],
     kstack := [0x21FC8 \<mapsto> Fresh_Context (context_empty\<lparr>ctx_rip := 0x200, ctx_r12 := 0x4000\<rparr>)],
     cspaces := (\<lambda>_. sample_caps), next_cspace := 1, next_ep := 1\<rparr>"

lemma sample_kernel_inv: "coop_inv sample_kernel"
  by code_simp



end
