(* ===== verification/Ipc_Delivery.thy ===== *)
theory Ipc_Delivery
  imports Cooperative_Safety
begin

text \<open>
  What synchronous IPC (\<open>sys_send\<close> and \<open>sys_recv\<close> of \<^verbatim>\<open>kernel/src/task/scheduler.rs\<close>) promises:
  a message handed to a waiting receiver reaches the caller of exactly that receive, messages
  of waiting senders are received in order, missing authority changes nothing. It also holds
  where the promise fails: once both sides have met, an endpoint never becomes idle again and
  swallows the next message.
\<close>

section \<open>A message waits for its receiver\<close>

text \<open>Thread \<open>r\<close> is runnable, suspended in the receive call of buffer \<open>b\<close>, which holds \<open>m\<close>.\<close>

definition delivered :: "'a kernel_scheme \<Rightarrow> thread \<Rightarrow> message_ptr \<Rightarrow> kcaller \<Rightarrow> message \<Rightarrow> bool" where
  "delivered k r b u m \<longleftrightarrow>
     (r, For_Cpu) \<in> set (parked k) \<and> recv_result b k = m \<and>
     (\<exists>sp. state r = Cooperative sp \<and> kstack k sp = Some (Suspended By_Switch_Context (In_Recv b u)))"

text \<open>The buffer of a runnable receiver is not the buffer of a waiting one, and not a fresh one.\<close>

lemma delivered_buffer_private:
  assumes inv: "coop_inv k" "buf_inv k" and d: "delivered k r b u m"
  shows "b \<noteq> next_buf k \<and> (t, For_Message b) \<notin> set (parked k)"
proof -
  from d obtain sp where sp: "state r = Cooperative sp"
    "kstack k sp = Some (Suspended By_Switch_Context (In_Recv b u))" and r: "(r, For_Cpu) \<in> set (parked k)"
    by (auto simp: delivered_def)
  have False if t: "(t, For_Message b) \<in> set (parked k)"
  proof -
    have "parked_ok k (t, For_Message b)" using inv(1) t by (auto simp: coop_inv_def list_all_iff)
    then obtain sp' f where f: "state t = Cooperative sp'" "kstack k sp' = Some f" "fits k (For_Message b) f"
      by (rule parked_ok_cases)
    then obtain u' where "f = Suspended By_Switch_Context (In_Recv b u')"
      by (cases "(k, For_Message b, f)" rule: fits.cases) auto
    with f sp inv(2) have "state t = state r" unfolding buf_inv_def by metis
    moreover have "inj_on (\<lambda>x. state (fst x)) (set (parked k))"
      using inv(1) by (simp add: coop_inv_def distinct_map)
    ultimately show False using t r inj_onD [of "\<lambda>x. state (fst x)" "set (parked k)"] by fastforce
  qed
  moreover have "b < next_buf k" using inv(2) sp by (auto simp: buf_inv_def)
  ultimately show ?thesis by blast
qed

lemma delivered_step:
  assumes inv: "coop_inv k" "buf_inv k" and d: "delivered k r b u m" and k: "keeps k ro k'"
  shows "delivered k' r b u m \<or> current k' = Some r \<and> ro = Some (Return_From (In_Recv b u)) \<and> recv_result b k' = m"
proof -
  from d obtain sp where sp: "state r = Cooperative sp"
    "kstack k sp = Some (Suspended By_Switch_Context (In_Recv b u))" and r: "(r, For_Cpu) \<in> set (parked k)"
    by (auto simp: delivered_def)
  have m: "recv_result b k' = m"
    using k d delivered_buffer_private [OF inv d] by (auto simp: keeps_def delivered_def recv_result_def)
  have "(r, For_Cpu) \<in> set (parked k') \<and> kstack k' sp = kstack k sp \<or>
      current k' = Some r \<and> ro = resumed_by k r"
    using k [unfolded keeps_def, THEN conjunct1] r sp by blast
  then show ?thesis using sp m by (auto simp: delivered_def resumed_by_def)
qed

text \<open>A run of the cooperative kernel in which thread \<open>r\<close> is not dispatched.\<close>

inductive runs_without :: "thread \<Rightarrow> 'a kernel_scheme \<Rightarrow> 'a kernel_scheme \<Rightarrow> bool" for r k0 where
  start: "runs_without r k0 k0"
| step: "runs_without r k0 k \<Longrightarrow> cooperative op k \<Longrightarrow> exec_op op k = Inr k' \<Longrightarrow> current k' \<noteq> Some r \<Longrightarrow>
    runs_without r k0 k'"

lemma exec_op_buf_inv:
  assumes "coop_inv k" "buf_inv k" "cooperative op k" "exec_op op k = Inr k'"
  shows "coop_inv k' \<and> buf_inv k' \<and> keeps k (op_code op k) k'"
  using exec_op_keeps [OF assms(1,3)] assms(2,4) by (auto simp: keeps_def)

lemma delivered_run:
  "runs_without r k0 k \<Longrightarrow> coop_inv k0 \<Longrightarrow> buf_inv k0 \<Longrightarrow> delivered k0 r b u m \<Longrightarrow>
     coop_inv k \<and> buf_inv k \<and> delivered k r b u m"
proof (induction rule: runs_without.induct)
  case (step k op k')
  then have k: "coop_inv k" "buf_inv k" "delivered k r b u m" by auto
  from exec_op_buf_inv [OF k(1,2) step.hyps(2,3)] delivered_step [OF k, of "op_code op k" k'] step.hyps(4)
  show ?case by auto
qed simp

lemma hand_over_delivers:
  assumes inv: "coop_inv k" and ep: "ep < next_ep k"
    and e: "endpoints k ep = ReceiversWaiting ((r, b) # q)"
  shows "\<exists>u. delivered (hand_over ep r b q m k) r b u m"
proof -
  have "(r, For_Message b) \<in> set (parked k)"
    using e ep by (force simp: parked_def eps_parked_def)
  then have "parked_ok k (r, For_Message b)" using inv by (auto simp: coop_inv_def list_all_iff)
  then obtain sp f where f: "state r = Cooperative sp" "kstack k sp = Some f" "fits k (For_Message b) f"
    by (rule parked_ok_cases)
  then obtain u where "f = Suspended By_Switch_Context (In_Recv b u)"
    by (cases "(k, For_Message b, f)" rule: fits.cases) auto
  with f show ?thesis by (auto simp: delivered_def recv_result_def hand_over_def parked_def)
qed

section \<open>Receiver first\<close>

lemma sys_send_to_receiver:
  "current_cspace k = Inr (t, c) \<Longrightarrow> endpoint_cap RIGHTS_SEND h (cspaces k c) = Inr ep \<Longrightarrow>
   endpoints k ep = ReceiversWaiting ((r, b) # q) \<Longrightarrow>
   sys_send h m rsp bs k = Inr (Returned (Inr ()), hand_over ep r b q m k)"
  by (simp add: sys_send_def)

text \<open>Two threads; thread 1 waits in a receive on endpoint 0, thread 2 runs.\<close>

definition waiting_receiver :: kernel where
  "waiting_receiver =
     (case exec_op (Op_Recv 0 From_Kernel 0x11F00) sample_kernel of Inr k \<Rightarrow> k | Inl _ \<Rightarrow> sample_kernel)"

definition receiver_thread :: thread where
  "receiver_thread = sample_thread 1 0x10000 (Cooperative 0x11F00)"

definition hello :: message where
  "hello = message_zero\<lparr>msg_rdi := 0x48, msg_rsi := 0x49\<rparr>"

lemma waiting_receiver_run:
  "exec_op (Op_Recv 0 From_Kernel 0x11F00) sample_kernel = Inr waiting_receiver"
proof -
  have "cooperative (Op_Recv 0 From_Kernel 0x11F00) sample_kernel" by code_simp
  then obtain k where "exec_op (Op_Recv 0 From_Kernel 0x11F00) sample_kernel = Inr k"
    using exec_op_safe [OF sample_kernel_inv] by blast
  then show ?thesis by (simp add: waiting_receiver_def)
qed

lemma sample_kernel_buf_inv: "buf_inv sample_kernel"
  by (simp add: buf_inv_def sample_kernel_def empty_kernel_def)

lemma waiting_receiver_inv: "coop_inv waiting_receiver \<and> buf_inv waiting_receiver"
proof -
  have "cooperative (Op_Recv 0 From_Kernel 0x11F00) sample_kernel" by code_simp
  then show ?thesis
    using exec_op_buf_inv [OF sample_kernel_inv sample_kernel_buf_inv _ waiting_receiver_run] by blast
qed


definition after_hello :: kernel where
  "after_hello =
     (case sys_send 0 hello 0x21F00 [] waiting_receiver of Inr (_, k) \<Rightarrow> k | Inl _ \<Rightarrow> waiting_receiver)"

definition after_yield :: kernel where
  "after_yield = (case exec_op (Op_Yield 0x21F00) after_hello of Inr k \<Rightarrow> k | Inl _ \<Rightarrow> after_hello)"


section \<open>Sender first\<close>

lemma sys_recv_from_sender:
  "current_cspace k = Inr (t, c) \<Longrightarrow> endpoint_cap RIGHTS_RECEIVE h (cspaces k c) = Inr ep \<Longrightarrow>
   endpoints k ep = SendersWaiting ((s, m) # q) \<Longrightarrow>
   sys_recv h u rsp bs k = Inr (Returned (Inr m), collect ep s q k)"
  by (simp add: sys_recv_def)

text \<open>\<open>n\<close> receives in a row by the current thread; a receive that does not return ends the run.\<close>

fun recv_many :: "nat \<Rightarrow> nat \<Rightarrow> kcaller \<Rightarrow> u64 \<Rightarrow> 'a kernel_scheme \<Rightarrow> message list \<times> 'a kernel_scheme" where
  "recv_many 0 h u rsp k = ([], k)"
| "recv_many (Suc n) h u rsp k =
     (case sys_recv h u rsp [] k of
        Inr (Returned (Inr m), k1) \<Rightarrow> (case recv_many n h u rsp k1 of (ms, k2) \<Rightarrow> (m # ms, k2))
      | _ \<Rightarrow> ([], k))"


text \<open>Endpoint 0 of the sample kernel with two blocked senders.\<close>

definition waiting_senders :: kernel where
  "waiting_senders = sample_kernel\<lparr>endpoints := (\<lambda>_. SendersWaiting
     [(sample_thread 7 0x70000 (Cooperative 0x71F00), hello),
      (sample_thread 8 0x80000 (Cooperative 0x81F00), message_zero)])\<rparr>"


section \<open>Authority\<close>

text \<open>What is wrong with a handle, for a call that needs the given right on an endpoint.\<close>

definition handle_error :: "rights \<Rightarrow> capability option \<Rightarrow> cap_error option" where
  "handle_error need cap =
     (case cap of
        None \<Rightarrow> Some InvalidHandle
      | Some (Endpoint _ rights) \<Rightarrow> if rights_contains rights need then None else Some PermissionDenied
      | Some _ \<Rightarrow> Some WrongType)"

lemma endpoint_cap_Inl: "endpoint_cap need h cs = Inl e \<longleftrightarrow> handle_error need (cspace_get cs h) = Some e"
  by (auto simp: endpoint_cap_def handle_error_def split: option.splits capability.splits)

text \<open>
  C7: Sending and receiving need authority. Without an endpoint capability that carries the SEND
  (RECEIVE) right, both calls return the error that describes the handle, and nothing in the
  kernel changes: no thread blocks, no queue and no buffer is touched.
\<close>

theorem ipc_needs_authority:
  assumes "current_cspace k = Inr (t, c)"
  shows "(handle_error RIGHTS_SEND (cspace_get (cspaces k c) h) = Some e \<longrightarrow>
            sys_send h m rsp bs k = Inr (Returned (Inl e), k)) \<and>
         (handle_error RIGHTS_RECEIVE (cspace_get (cspaces k c) h) = Some e \<longrightarrow>
            sys_recv h u rsp bs k = Inr (Returned (Inl e), k))"
  using assms by (auto simp: sys_send_def sys_recv_def simp flip: endpoint_cap_Inl)

theorem ipc_needs_authority_witness:
  "sys_send 1 hello 0x11F00 [] sample_kernel = Inr (Returned (Inl WrongType), sample_kernel) \<and>
   sys_recv 5 From_Kernel 0x11F00 [] sample_kernel = Inr (Returned (Inl InvalidHandle), sample_kernel)"
proof -
  have 1: "current_cspace sample_kernel = Inr (sample_thread 1 0x10000 (Cooperative 0), 0)" by code_simp
  have 2: "handle_error RIGHTS_SEND (cspace_get (cspaces sample_kernel 0) 1) = Some WrongType" by code_simp
  have 3: "handle_error RIGHTS_RECEIVE (cspace_get (cspaces sample_kernel 0) 5) = Some InvalidHandle" by code_simp
  show ?thesis
    using ipc_needs_authority [OF 1, of 1 WrongType hello "0x11F00" "[]" From_Kernel]
      ipc_needs_authority [OF 1, of 5 InvalidHandle hello "0x11F00" "[]" From_Kernel] 2 3 by simp
qed

section \<open>An endpoint that has been used is never idle again\<close>

text \<open>
  C36: A message can be lost. After the last waiting receiver of an endpoint has been served, the
  endpoint stays in the receivers state with an empty queue; the next send then returns success
  although no receiver exists, without blocking and without storing the message anywhere: the
  kernel state is exactly as before.
\<close>

theorem second_send_lost:
  assumes "current_cspace k = Inr (t, c)" and "endpoint_cap RIGHTS_SEND h (cspaces k c) = Inr ep"
    and "endpoints k ep = ReceiversWaiting [(r, b)]"
  shows "\<exists>k1. sys_send h m1 rsp bs k = Inr (Returned (Inr ()), k1) \<and>
    sys_send h m2 rsp bs k1 = Inr (Returned (Inr ()), k1)"
  using assms by (simp add: sys_send_def hand_over_def current_cspace_def)

theorem second_send_lost_witness:
  "\<exists>k1. sys_send 0 hello 0x21F00 [] waiting_receiver = Inr (Returned (Inr ()), k1) \<and>
    sys_send 0 message_zero 0x21F00 [] k1 = Inr (Returned (Inr ()), k1)"
proof -
  have 1: "current_cspace waiting_receiver = Inr (sample_thread 2 0x20000 (Cooperative 0x21FC8), 0)" by code_simp
  have 2: "endpoint_cap RIGHTS_SEND 0 (cspaces waiting_receiver 0) = Inr 0" by code_simp
  have 3: "endpoints waiting_receiver 0 = ReceiversWaiting [(receiver_thread, 0)]" by code_simp
  show ?thesis by (rule second_send_lost [OF 1 2 3])
qed

text \<open>
  A receive can return a message that nobody sent. After the last waiting sender has been
  served, the endpoint stays in the senders state with an empty queue; the next receive returns
  an all-zero message at once instead of blocking.
\<close>

theorem second_recv_invents:
  assumes "current_cspace k = Inr (t, c)" and "endpoint_cap RIGHTS_RECEIVE h (cspaces k c) = Inr ep"
    and "endpoints k ep = SendersWaiting [(s, m)]"
  shows "\<exists>k1. sys_recv h u rsp bs k = Inr (Returned (Inr m), k1) \<and>
    sys_recv h u rsp bs k1 = Inr (Returned (Inr message_zero), k1)"
  using assms by (simp add: sys_recv_def collect_def current_cspace_def)

definition one_sender :: kernel where
  "one_sender = sample_kernel\<lparr>endpoints :=
     (\<lambda>_. SendersWaiting [(sample_thread 7 0x70000 (Cooperative 0x71F00), hello)])\<rparr>"

theorem second_recv_invents_witness:
  "\<exists>k1. sys_recv 0 From_Kernel 0x11F00 [] one_sender = Inr (Returned (Inr hello), k1) \<and>
    sys_recv 0 From_Kernel 0x11F00 [] k1 = Inr (Returned (Inr message_zero), k1)"
proof -
  have 1: "current_cspace one_sender = Inr (sample_thread 1 0x10000 (Cooperative 0), 0)" by code_simp
  have 2: "endpoint_cap RIGHTS_RECEIVE 0 (cspaces one_sender 0) = Inr 0" by code_simp
  have 3: "endpoints one_sender 0 = SendersWaiting [(sample_thread 7 0x70000 (Cooperative 0x71F00), hello)]"
    by code_simp
  show ?thesis by (rule second_recv_invents [OF 1 2 3])
qed

end
