(* ===== verification/Scheduling.thy ===== *)
theory Scheduling
  imports Cooperative_Safety
begin

text \<open>
  Properties of the scheduler besides IPC: the timer runs the threads in turn, a new user
  thread starts where its creator said, exit wakes the waiting threads, device interrupts are
  not lost. The last section has the executions in which preemption and the idle loop go wrong.
\<close>

lemma prepare_in_context:
  assumes "switchable k t" and "same_context k k1"
  obtains a b c where
    "prepare_thread_switch t k1 = Inr (k1\<lparr>tss_rsp0 := a, percpu_kernel_stack := b, cr3_reg := c\<rparr>)"
  using prepare_thread_switch_ok [of k1 t] switchable_cong [OF assms(2)] assms(1) that by metis

section \<open>Round robin\<close>

text \<open>The threads in the order in which the timer runs them.\<close>

definition turn_order :: "'a kernel_scheme \<Rightarrow> thread list" where
  "turn_order k = map static_part (opt_list (current k) @ run_queue k)"

fun ticks :: "u64 list \<Rightarrow> 'a kernel_scheme \<Rightarrow> panic + 'a kernel_scheme" where
  "ticks [] k = Inr k"
| "ticks (rsp # rsps) k =
     (case timer_tick_handler rsp k of Inl p \<Rightarrow> Inl p | Inr (_, k1) \<Rightarrow> ticks rsps k1)"

definition all_switchable :: "'a kernel_scheme \<Rightarrow> bool" where
  "all_switchable k = list_all (switchable k) (turn_order k)"

lemma timer_tick_rotates:
  assumes ok: "all_switchable k" and cur: "current k = Some t"
  shows "\<exists>r k'. timer_tick_handler rsp k = Inr (r, k') \<and> turn_order k' = rotate1 (turn_order k) \<and>
    current k' \<noteq> None \<and> same_context k k'"
proof -
  let ?t = "t\<lparr>state := Preemptive rsp\<rparr>"
  obtain n rest where q: "run_queue k @ [?t] = n # rest" by (cases "run_queue k @ [?t]") auto
  let ?k1 = "k\<lparr>current := None, run_queue := rest\<rparr>"
  have "static_part n \<in> set (turn_order k)"
    using q cur by (cases "run_queue k") (auto simp: turn_order_def)
  then have "switchable k n" using ok by (auto simp: all_switchable_def list_all_iff switchable_static)
  then have "switchable ?k1 n"
    using switchable_cong [of k ?k1] by (simp add: same_context_def)
  then obtain a b c where "prepare_thread_switch n ?k1
      = Inr (?k1\<lparr>tss_rsp0 := a, percpu_kernel_stack := b, cr3_reg := c\<rparr>)"
    by (rule prepare_thread_switch_ok)
  then have pick: "pick_next (Preemptive rsp) k
      = Inr (state n, ?k1\<lparr>tss_rsp0 := a, percpu_kernel_stack := b, cr3_reg := c, current := Some n\<rparr>)"
    using cur q by (simp add: pick_next_def)
  have "map static_part (n # rest) = rotate1 (turn_order k)"
    unfolding q [symmetric] using cur by (simp add: turn_order_def)
  then show ?thesis
    using pick by (simp add: timer_tick_handler_def turn_order_def eoi_def io_def same_context_def)
qed

lemma all_switchable_rotate:
  "same_context k k' \<Longrightarrow> turn_order k' = rotate1 (turn_order k) \<Longrightarrow> all_switchable k \<Longrightarrow> all_switchable k'"
  by (simp add: all_switchable_def list_all_iff switchable_cong)

lemma ticks_rotate:
  assumes "all_switchable k" and "current k \<noteq> None"
  shows "\<exists>k'. ticks rsps k = Inr k' \<and> turn_order k' = rotate (length rsps) (turn_order k) \<and> current k' \<noteq> None"
  using assms
proof (induction rsps arbitrary: k)
  case (Cons rsp rsps)
  then obtain r k1 where 1: "timer_tick_handler rsp k = Inr (r, k1)" "turn_order k1 = rotate1 (turn_order k)"
    "current k1 \<noteq> None" "same_context k k1"
    using timer_tick_rotates by blast
  have "all_switchable k1" by (rule all_switchable_rotate [OF 1(4,2) Cons.prems(1)])
  from Cons.IH [OF this 1(3)] 1 show ?case by (auto simp: rotate1_rotate_swap [symmetric] rotate_Suc)
qed auto

text \<open>
  C5: Timer preemption is fair. As long as threads neither block nor start, a runnable thread at
  position \<open>i\<close> of the run queue is the current thread after exactly \<open>i + 1\<close> timer ticks, and after
  as many ticks as there are threads every thread is back in its place; the ticks never panic.
\<close>

theorem timer_round_robin:
  assumes "all_switchable k" and "current k = Some t"
  shows "(\<forall>i < length (run_queue k). \<forall>rsps. length rsps = i + 1 \<longrightarrow>
      (\<exists>k'. ticks rsps k = Inr k' \<and> map_option static_part (current k') = Some (static_part (run_queue k ! i)))) \<and>
    (\<forall>rsps. length rsps = length (run_queue k) + 1 \<longrightarrow>
      (\<exists>k'. ticks rsps k = Inr k' \<and> turn_order k' = turn_order k))"
proof (intro conjI allI impI)
  fix i and rsps :: "u64 list"
  assume i: "i < length (run_queue k)" and l: "length rsps = i + 1"
  obtain k' where k': "ticks rsps k = Inr k'" "turn_order k' = rotate (i + 1) (turn_order k)" "current k' \<noteq> None"
    using ticks_rotate [OF assms(1), of rsps] assms(2) l by auto
  have "turn_order k' ! 0 = turn_order k ! (i + 1)"
    unfolding k'(2) using i assms(2) by (subst nth_rotate) (auto simp: turn_order_def)
  then have "map_option static_part (current k') = Some (static_part (run_queue k ! i))"
    using i assms(2) k'(3) by (auto simp: turn_order_def)
  with k' show "\<exists>k'. ticks rsps k = Inr k' \<and>
      map_option static_part (current k') = Some (static_part (run_queue k ! i))" by blast
next
  fix rsps :: "u64 list"
  assume "length rsps = length (run_queue k) + 1"
  then have "length rsps = length (turn_order k)" using assms(2) by (simp add: turn_order_def)
  with ticks_rotate [OF assms(1), of rsps] assms(2)
  show "\<exists>k'. ticks rsps k = Inr k' \<and> turn_order k' = turn_order k" by auto
qed

theorem timer_round_robin_witness:
  "(\<exists>k'. ticks [0x11F00] sample_kernel = Inr k' \<and>
     map_option static_part (current k') = Some (static_part (sample_thread 2 0x20000 (Cooperative 0x21FC8)))) \<and>
   (\<exists>k'. ticks [0x11F00, 0x21F00] sample_kernel = Inr k' \<and> turn_order k' = turn_order sample_kernel)"
proof -
  have 1: "all_switchable sample_kernel" by code_simp
  have 2: "current sample_kernel = Some (sample_thread 1 0x10000 (Cooperative 0))" by code_simp
  have 3: "run_queue sample_kernel = [sample_thread 2 0x20000 (Cooperative 0x21FC8)]" by code_simp
  note rr = timer_round_robin [OF 1 2, unfolded 3]
  have "\<exists>k'. ticks [0x11F00] sample_kernel = Inr k' \<and>
     map_option static_part (current k') = Some (static_part (sample_thread 2 0x20000 (Cooperative 0x21FC8)))"
    using rr [THEN conjunct1, THEN spec, of 0, THEN mp, THEN spec, of "[0x11F00]"] by (simp del: ticks.simps)
  moreover have "\<exists>k'. ticks [0x11F00, 0x21F00] sample_kernel = Inr k' \<and> turn_order k' = turn_order sample_kernel"
    using rr [THEN conjunct2, THEN spec, of "[0x11F00, 0x21F00]"] by (simp del: ticks.simps)
  ultimately show ?thesis by blast
qed

section \<open>Starting a user thread\<close>

text \<open>
  C17: A user thread starts in user mode where its creator said. When the thread made by
  \<open>new_user_thread\<close> is resumed for the first time, the processor enters user mode at the entry
  point with the given stack pointer, with interrupts enabled, the user code and data selectors,
  and all general registers zero, so nothing of the kernel's registers leaks.
\<close>

theorem user_thread_starts:
  assumes "new_user_thread entry ustack cr3_phys cs ps stack_ptr k = (t, k1)"
  shows "\<exists>sp k2. state t = Cooperative sp \<and>
    resume_cooperative sp rax k1 = Inr (Enter_User
      \<lparr>ic_r15 = 0, ic_r14 = 0, ic_r13 = 0, ic_r12 = 0, ic_r11 = 0, ic_r10 = 0, ic_r9 = 0, ic_r8 = 0,
       ic_rdi = 0, ic_rsi = 0, ic_rbp = 0, ic_rbx = 0, ic_rdx = 0, ic_rcx = 0, ic_rax = 0,
       ic_rip = entry, ic_cs = user_code_selector k, ic_rflags = 0x202, ic_rsp = ustack,
       ic_ss = user_data_selector k\<rparr>, k2) \<and>
    sp + CONTEXT_SIZE = fst (stack t) + snd (stack t) \<and> cr3 t = Some cr3_phys \<and>
    cspace_ref t = Some cs \<and> pstate_ref t = Some ps"
  using assms
  by (auto simp: new_user_thread_def resume_cooperative_def user_trampoline_rust_def context_empty_def Let_def)

theorem user_thread_starts_witness:
  "\<exists>t k1. new_user_thread 0x400000 0x800000 0x5000 0 0 0x30000 sample_kernel = (t, k1) \<and>
    tid t = 1 \<and> (\<exists>sp ic k2. resume_cooperative sp 0 k1 = Inr (Enter_User ic, k2) \<and> ic_rip ic = 0x400000)"
proof -
  obtain t k1 where n: "new_user_thread 0x400000 0x800000 0x5000 0 0 0x30000 sample_kernel = (t, k1)"
    by (cases "new_user_thread 0x400000 0x800000 0x5000 0 0 0x30000 sample_kernel")
  then have "tid t = 1" by (auto simp: new_user_thread_def Let_def sample_kernel_def empty_kernel_def)
  moreover have "\<exists>sp ic k2. resume_cooperative sp 0 k1 = Inr (Enter_User ic, k2) \<and> ic_rip ic = 0x400000"
    using user_thread_starts [OF n, of 0] by force
  ultimately show ?thesis using n by blast
qed

section \<open>Exit\<close>

text \<open>
  C18: Exit terminates the process of the thread and wakes every thread that waits for it. The
  waiting threads become runnable behind the run queue, in the order in which they came, and the
  queue is empty; the exited thread is in no queue; the first runnable thread runs. From then on
  a wait for this process returns 0 without blocking.
\<close>

theorem exit_wakes_waiters:
  assumes "current k = Some t" and "pstate_ref t = Some p" and "state_to_update k = None"
    and "exit_current_thread rax rsp k = Inr (r, k')"
  shows "opt_list (current k') @ run_queue k' = run_queue k @ wait_queue (procs k p) \<and>
    terminated (procs k' p) \<and> wait_queue (procs k' p) = [] \<and>
    (\<forall>k2 u c h rights rsp2 bs. procs k2 p = procs k' p \<and> current_cspace k2 = Inr (u, c) \<and>
       cspace_get (cspaces k2 c) h = Some (Process p rights) \<and> rights_contains rights RIGHTS_WAIT \<longrightarrow>
       sys_wait h rsp2 bs k2 = Inr (Returned 0, k2))"
proof -
  define k1 where "k1 = k\<lparr>procs := (procs k)(p := \<lparr>terminated = True, wait_queue = []\<rparr>),
    run_queue := run_queue k @ wait_queue (procs k p), current := None\<rparr>"
  obtain n rest where rq: "run_queue k @ wait_queue (procs k p) = n # rest"
    using assms by (cases "run_queue k @ wait_queue (procs k p)") (auto simp: exit_current_thread_def)
  then obtain k3 where prep: "prepare_thread_switch n (k1\<lparr>run_queue := rest\<rparr>) = Inr k3"
    using assms by (auto simp: exit_current_thread_def Let_def k1_def split: sum.splits)
  from prep obtain a b c where
    k3: "k3 = k1\<lparr>run_queue := rest\<rparr>\<lparr>tss_rsp0 := a, percpu_kernel_stack := b, cr3_reg := c\<rparr>"
    by (rule prepare_thread_switch_Inr)
  have "opt_list (current k') @ run_queue k' = n # rest \<and> procs k' = procs k1"
    using assms rq prep unfolding k3
    by (auto simp: exit_current_thread_def Let_def k1_def resume_cooperative_def resume_preemptive_def
        switch_context_to_preemptive_def after_switch_def push_frame_def pop_frame_def
        split: saved_thread_state.splits option.splits kframe.splits switch_kind.splits if_splits)
  then show ?thesis using rq by (auto simp: k1_def sys_wait_def)
qed

definition child_exits :: kernel where
  "child_exits = sample_kernel\<lparr>
     current := Some ((sample_thread 1 0x10000 (Cooperative 0))\<lparr>pstate_ref := Some 0\<rparr>),
     procs := (\<lambda>_. \<lparr>terminated = False, wait_queue = [sample_thread 3 0x30000 (Cooperative 0x31F00)]\<rparr>),
     next_proc := 1\<rparr>"

theorem exit_wakes_waiters_witness:
  "\<exists>r k'. exit_current_thread 0 0x11F00 child_exits = Inr (r, k') \<and> terminated (procs k' 0) \<and>
    opt_list (current k') @ run_queue k'
      = [sample_thread 2 0x20000 (Cooperative 0x21FC8), sample_thread 3 0x30000 (Cooperative 0x31F00)]"
proof -
  have "\<not> isl (exit_current_thread 0 0x11F00 child_exits)" by code_simp
  then obtain r k' where e: "exit_current_thread 0 0x11F00 child_exits = Inr (r, k')"
    by (cases "exit_current_thread 0 0x11F00 child_exits") auto
  have "run_queue child_exits @ wait_queue (procs child_exits 0)
      = [sample_thread 2 0x20000 (Cooperative 0x21FC8), sample_thread 3 0x30000 (Cooperative 0x31F00)]"
    by code_simp
  moreover have c: "current child_exits = Some ((sample_thread 1 0x10000 (Cooperative 0))\<lparr>pstate_ref := Some 0\<rparr>)"
    "state_to_update child_exits = None" by code_simp+
  moreover note w = exit_wakes_waiters [OF c(1) _ c(2) e, of 0]
  ultimately show ?thesis using e by auto
qed

section \<open>Device interrupts\<close>

text \<open>
  C19: A device interrupt is never lost. If a thread waits for it, the interrupt makes that thread
  runnable; if none waits, it is remembered, and the next wait by a holder of the interrupt
  capability returns 0 at once and consumes it, leaving the rest of the kernel unchanged.
\<close>

theorem irq_not_lost:
  shows "(irq_waiters k irq = Some w \<longrightarrow>
      run_queue (unblock_irq irq k) = run_queue k @ [w] \<and> irq_waiters (unblock_irq irq k) irq = None) \<and>
    (irq_waiters k irq = None \<and> current_cspace k = Inr (t, c) \<and>
       cspace_get (cspaces k c) h = Some (Interrupt irq) \<longrightarrow>
       sys_wait_irq h rsp bs (unblock_irq irq k)
         = Inr (Returned 0, k\<lparr>pending_irqs := (pending_irqs k)(irq := False)\<rparr>))"
  by (auto simp: unblock_irq_def sys_wait_irq_def current_cspace_def)

theorem irq_not_lost_witness:
  "sys_wait_irq 1 0x11F00 [] (unblock_irq 1 sample_kernel)
     = Inr (Returned 0, sample_kernel\<lparr>pending_irqs := (pending_irqs sample_kernel)(1 := False)\<rparr>)"
proof -
  have "current_cspace sample_kernel = Inr (sample_thread 1 0x10000 (Cooperative 0), 0)" by code_simp
  moreover have "cspace_get (cspaces sample_kernel 0) 1 = Some (Interrupt 1)" by code_simp
  moreover have "irq_waiters sample_kernel 1 = None" by code_simp
  ultimately show ?thesis
    using irq_not_lost [of sample_kernel 1 _ "sample_thread 1 0x10000 (Cooperative 0)" 0 1 "0x11F00" "[]"] by blast
qed

section \<open>Where preemption and the idle loop go wrong\<close>

text \<open>
  A thread can be lost. When a thread waits for an interrupt that another thread already waits
  for, the earlier thread is dropped: after the call it is in no queue of the kernel, and can
  never run again.
\<close>

theorem second_irq_waiter_drops_first:
  assumes "current_cspace k = Inr (t, c)" and "cspace_get (cspaces k c) h = Some (Interrupt irq)"
    and "\<not> pending_irqs k irq" and "irq_waiters k irq = Some w"
    and "sys_wait_irq h rsp bs k = Inr (out, k')"
  shows "roster k' + {#static_part w#} = roster k"
proof -
  have b: "block rsp bs In_Wait_Irq (park_for_irq irq t k) = Inr (out, k')"
    using assms by (simp add: sys_wait_irq_def)
  have "mset (parked (park_for_irq irq t k)) + {#(w, For_Irq)#} = mset (parked k) + {#(t, For_Irq)#}"
    using parked_irq_waiters [of k irq "Some t"] assms(4) by (simp add: park_for_irq_def parked_def irq_parked_def)
  from arg_cong [OF this, of "image_mset (static_part \<circ> fst)"]
  have "roster (park_for_irq irq t k) + {#static_part w#} = roster k"
    using assms(1) by (simp add: roster_eq current_cspace_Inr)
  with roster_block [OF b] show ?thesis by simp
qed

definition two_irq_waiters :: kernel where
  "two_irq_waiters = sample_kernel\<lparr>irq_waiters := (\<lambda>_. None)(1 := Some (sample_thread 3 0x30000 (Cooperative 0x31F00)))\<rparr>"

theorem second_irq_waiter_drops_first_witness:
  "\<exists>out k'. sys_wait_irq 1 0x11F00 [] two_irq_waiters = Inr (out, k') \<and>
    roster k' + {#static_part (sample_thread 3 0x30000 (Cooperative 0x31F00))#} = roster two_irq_waiters"
proof -
  have "\<not> isl (sys_wait_irq 1 0x11F00 [] two_irq_waiters)" by code_simp
  then obtain out k' where s: "sys_wait_irq 1 0x11F00 [] two_irq_waiters = Inr (out, k')"
    by (cases "sys_wait_irq 1 0x11F00 [] two_irq_waiters") auto
  have 1: "current_cspace two_irq_waiters = Inr (sample_thread 1 0x10000 (Cooperative 0), 0)" by code_simp
  have 2: "cspace_get (cspaces two_irq_waiters 0) 1 = Some (Interrupt 1)" by code_simp
  have 3: "\<not> pending_irqs two_irq_waiters 1" by code_simp
  have 4: "irq_waiters two_irq_waiters 1 = Some (sample_thread 3 0x30000 (Cooperative 0x31F00))" by code_simp
  show ?thesis using second_irq_waiter_drops_first [OF 1 2 3 4 s] s by blast
qed

text \<open>A timer tick in a state of the cooperative kernel switches to the next thread without fault.\<close>

lemma tick_switches:
  assumes inv: "coop_inv k" and cur: "current k = Some t" and rq: "run_queue k = n # rest"
    and free: "kstack k rsp = None"
  shows "\<exists>r k1. timer_interrupt_stub rsp ic k = Inr (r, k1) \<and> current k1 = Some n \<and>
    run_queue k1 = rest @ [t\<lparr>state := Preemptive rsp\<rparr>] \<and> same_context k k1"
proof -
  let ?t = "t\<lparr>state := Preemptive rsp\<rparr>"
  let ?k0 = "push_frame rsp (Interrupted ic) k"
  have p: "(n, For_Cpu) \<in> set (parked k)" using rq by (simp add: parked_def)
  then have "parked_ok k (n, For_Cpu)" using inv by (auto simp: coop_inv_def list_all_iff)
  then obtain sp f where f: "state n = Cooperative sp" "kstack k sp = Some f" "fits k For_Cpu f"
    by (rule parked_ok_cases)
  have sw: "switchable k n" using inv p by (force simp: coop_inv_def list_all_iff all_threads_def)
  let ?k1 = "?k0\<lparr>current := None, run_queue := rest @ [?t]\<rparr>"
  have "same_context k ?k1" by (simp add: same_context_def push_frame_def)
  then obtain a b c where prep: "prepare_thread_switch n ?k1
      = Inr (?k1\<lparr>tss_rsp0 := a, percpu_kernel_stack := b, cr3_reg := c\<rparr>)"
    by (rule prepare_in_context [OF sw])
  let ?k2 = "io (Port_Write 0x20 1 0x20) (eoi (?k1\<lparr>tss_rsp0 := a, percpu_kernel_stack := b, cr3_reg := c,
    current := Some n\<rparr>))"
  have tick: "timer_tick_handler rsp ?k0 = Inr ((0, sp), eoi (?k1\<lparr>tss_rsp0 := a, percpu_kernel_stack := b,
      cr3_reg := c, current := Some n\<rparr>))"
    using prep cur rq f(1) by (simp add: timer_tick_handler_def pick_next_def push_frame_def)
  have sc: "same_context k ?k2" by (simp add: same_context_def push_frame_def io_def eoi_def)
  have ne: "sp \<noteq> rsp" using f free by auto
  have "kstack ?k2 sp = Some f" using f ne by (simp add: io_def eoi_def push_frame_def)
  then obtain r where r: "resume_cooperative sp 0x20 ?k2 = Inr (r, after_switch 0x20 (pop_frame sp ?k2))"
    using resume_cooperative_fits [of ?k2 sp f "0x20"] f fits_cong [OF sc] by auto
  then have "timer_interrupt_stub rsp ic k = Inr (r, after_switch 0x20 (pop_frame sp ?k2))"
    using tick by (simp add: timer_interrupt_stub_def)
  moreover have "after_switch 0x20 (pop_frame sp ?k2) = pop_frame sp ?k2"
    using inv by (simp add: after_switch_def coop_inv_def io_def eoi_def push_frame_def pop_frame_def)
  ultimately show ?thesis
    by (auto simp: io_def eoi_def push_frame_def pop_frame_def same_context_def)
qed

text \<open>
  User threads can panic the kernel. With two runnable threads in a state that satisfies the
  invariant, a timer tick switches to the second thread without fault; if that thread then
  yields, the kernel panics with \<open>unimplemented!\<close>, because the first thread was preempted.
\<close>

theorem yield_after_preemption_panics:
  assumes "coop_inv k" and "current k = Some t" and "run_queue k = [n]" and "kstack k rsp = None"
  shows "\<exists>r k1. timer_interrupt_stub rsp ic k = Inr (r, k1) \<and> yield_now rsp2 k1 = Inl Unimplemented"
proof -
  let ?t = "t\<lparr>state := Preemptive rsp\<rparr>"
  obtain r k1 where k1: "timer_interrupt_stub rsp ic k = Inr (r, k1)" "current k1 = Some n"
    "run_queue k1 = [?t]" "same_context k k1"
    using tick_switches [OF assms, of ic] by auto
  have sw: "switchable k ?t"
    using assms(1,2) by (simp add: coop_inv_def all_threads_def switchable_def)
  let ?k2 = "k1\<lparr>current := None, state_to_update := Some (tid n), run_queue := [n]\<rparr>"
  have "same_context k ?k2" using k1(4) by (simp add: same_context_def)
  then obtain a b c where "prepare_thread_switch ?t ?k2
      = Inr (?k2\<lparr>tss_rsp0 := a, percpu_kernel_stack := b, cr3_reg := c\<rparr>)" by (rule prepare_in_context [OF sw])
  then have "yield_now rsp2 k1 = Inl Unimplemented" using k1 by (simp add: yield_now_def)
  with k1 show ?thesis by blast
qed

theorem yield_after_preemption_panics_witness:
  "\<exists>r k1. timer_interrupt_stub 0x11F00 (user_trampoline_rust 0 0 sample_kernel) sample_kernel = Inr (r, k1) \<and>
    yield_now 0x21F00 k1 = Inl Unimplemented"
proof -
  have 1: "current sample_kernel = Some (sample_thread 1 0x10000 (Cooperative 0))" by code_simp
  have 2: "run_queue sample_kernel = [sample_thread 2 0x20000 (Cooperative 0x21FC8)]" by code_simp
  have 3: "kstack sample_kernel 0x11F00 = None" by code_simp
  show ?thesis by (rule yield_after_preemption_panics [OF sample_kernel_inv 1 2 3])
qed

text \<open>
  Waiting for an interrupt on an otherwise idle system resumes garbage. If the only runnable
  thread has been preempted and resumed before (so its saved state is the stale preemptive one,
  whose frame is gone) and waits for the keyboard, then the keyboard interrupt wakes it inside
  the idle loop, and the kernel switches to the stale frame instead of returning.
\<close>

theorem idle_self_wake_undefined:
  assumes "current k = Some t" and "cspace_ref t = Some c"
    and "cspace_get (cspaces k c) h = Some (Interrupt 1)" and "\<not> pending_irqs k 1"
    and "run_queue k = []" and "switchable k t"
    and "state t = Preemptive sp" and "kstack k sp = None" and "sp \<noteq> rsp"
  shows "sys_wait_irq h rsp [[Keyboard_Irq]] k = Inl Undefined_Behaviour"
proof -
  let ?kp = "park_for_irq 1 t k"
  let ?k1 = "keyboard_interrupt_handler ?kp"
  have cc: "current_cspace k = Inr (t, c)" using assms(1,2) by (simp add: current_cspace_def)
  have rq: "run_queue ?kp = []" "run_queue ?k1 = [t]"
    using assms(5) by (simp_all add: park_for_irq_def keyboard_interrupt_handler_def unblock_irq_def io_def eoi_def)
  have idle: "idle_loop [[Keyboard_Irq]] ?kp = Inr (Woken, ?k1)"
    using rq by (simp add: idle_loop.simps)
  let ?k2 = "?k1\<lparr>run_queue := []\<rparr>"
  have k2: "same_context k ?k2" "kstack ?k2 = kstack k" "irq_waiters ?k2 = (irq_waiters k)(1 := None)"
    by (simp_all add: park_for_irq_def keyboard_interrupt_handler_def unblock_irq_def io_def eoi_def same_context_def)
  obtain a b d where prep: "prepare_thread_switch t ?k2
      = Inr (?k2\<lparr>tss_rsp0 := a, percpu_kernel_stack := b, cr3_reg := d\<rparr>)"
    by (rule prepare_in_context [OF assms(6) k2(1)])
  have "kstack (after_switch rsp (push_frame rsp f (?k2\<lparr>tss_rsp0 := a, percpu_kernel_stack := b,
      cr3_reg := d, current := Some t\<rparr>))) sp = None" for f
    using assms(8,9) k2(2) by (simp add: after_switch_def push_frame_def split: option.split)
  then have "run_next rsp In_Wait_Irq ?k1 = Inl Undefined_Behaviour"
    using rq(2) prep assms(7)
    by (simp add: run_next_def switch_to_def switch_context_to_preemptive_def resume_preemptive_def)
  then show ?thesis using cc assms(3,4) idle by (simp add: sys_wait_irq_def block_def)
qed

definition lone_driver :: kernel where
  "lone_driver = sample_kernel\<lparr>current := Some (sample_thread 1 0x10000 (Preemptive 0x11F60)), run_queue := []\<rparr>"

theorem idle_self_wake_undefined_witness:
  "sys_wait_irq 1 0x11E00 [[Keyboard_Irq]] lone_driver = Inl Undefined_Behaviour"
  by (rule idle_self_wake_undefined [of _ "sample_thread 1 0x10000 (Preemptive 0x11F60)" 0 1 "0x11F60"]) code_simp+

text \<open>
  A context switch can forget the stack pointer of the thread it leaves. A thread that was
  suspended by \<open>switch_context_to_preemptive\<close> does not call \<open>after_switch\<close> when it goes on; so when
  thread \<open>t\<close> blocks and such a thread is next, the saved state of \<open>t\<close> is not updated:
  \<open>STATE_TO_UPDATE\<close> still points to it, and it stays parked with the stale state it had before.
\<close>

theorem switch_forgets_stack_pointer:
  assumes "current_cspace k = Inr (t, c)" and "endpoint_cap RIGHTS_RECEIVE h (cspaces k c) = Inr ep"
    and "endpoints k ep = Idle"
    and "run_queue k = n # rest" and "switchable k n"
    and "state n = Cooperative sp" and "sp \<noteq> rsp"
    and "kstack k sp = Some (Suspended By_Switch_To_Preemptive call)"
  shows "\<exists>k'. sys_recv h u rsp bs k = Inr (Switched (Return_From call), k') \<and>
    endpoints k' ep = ReceiversWaiting [(t, next_buf k)] \<and> state_to_update k' = Some (tid t)"
proof -
  let ?kp = "park_receiver ep [] t k"
  have kp: "run_queue ?kp = n # rest" "same_context k (?kp\<lparr>run_queue := rest\<rparr>)" "kstack ?kp = kstack k"
    using assms(4) by (simp_all add: park_receiver_def same_context_def)
  obtain a b d where "prepare_thread_switch n (?kp\<lparr>run_queue := rest\<rparr>)
      = Inr (?kp\<lparr>run_queue := rest, tss_rsp0 := a, percpu_kernel_stack := b, cr3_reg := d\<rparr>)"
    by (rule prepare_in_context [OF assms(5) kp(2)])
  then have "\<exists>k'. run_next rsp (In_Recv (next_buf k) u) ?kp = Inr (Return_From call, k') \<and>
      endpoints k' ep = ReceiversWaiting [(t, next_buf k)] \<and> state_to_update k' = Some (tid t)"
    using kp assms(6-8)
    by (simp add: run_next_def switch_to_def switch_context_def resume_cooperative_def push_frame_def pop_frame_def)
      (simp add: park_receiver_def)
  then show ?thesis
    using assms(1-3) kp(1) by (auto simp: sys_recv_def block_def idle_loop.simps)
qed

definition resumes_preempted :: kernel where
  "resumes_preempted = sample_kernel\<lparr>kstack := [0x21FC8 \<mapsto> Suspended By_Switch_To_Preemptive In_Wait]\<rparr>"

theorem switch_forgets_stack_pointer_witness:
  "\<exists>k'. sys_recv 0 From_Kernel 0x11F00 [] resumes_preempted = Inr (Switched (Return_From In_Wait), k') \<and>
    endpoints k' 0 = ReceiversWaiting [(sample_thread 1 0x10000 (Cooperative 0), 0)] \<and> state_to_update k' = Some 1"
proof -
  have 1: "current_cspace resumes_preempted = Inr (sample_thread 1 0x10000 (Cooperative 0), 0)" by code_simp
  have 2: "endpoint_cap RIGHTS_RECEIVE 0 (cspaces resumes_preempted 0) = Inr 0" by code_simp
  have 3: "endpoints resumes_preempted 0 = Idle" by code_simp
  have 4: "run_queue resumes_preempted = [sample_thread 2 0x20000 (Cooperative 0x21FC8)]" by code_simp
  have 5: "switchable resumes_preempted (sample_thread 2 0x20000 (Cooperative 0x21FC8))" by code_simp
  have 6: "kstack resumes_preempted 0x21FC8 = Some (Suspended By_Switch_To_Preemptive In_Wait)" by code_simp
  have 7: "next_buf resumes_preempted = 0" "tid (sample_thread 1 0x10000 (Cooperative 0)) = 1" by code_simp+
  show ?thesis
    using switch_forgets_stack_pointer [OF 1 2 3 4 5 _ _ 6, of "0x11F00"] 7 by (simp add: sample_thread_def)
qed

end
