(* ===== verification/Byte_Codec.thy ===== *)
theory Byte_Codec
  imports Else_Prelude
begin

text \<open>
  Bytes as the kernel and the services read and write them: little-endian fields of the packed
  structures behind raw pointers, big-endian fields of network packets, and the validity check
  of \<^verbatim>\<open>core::str::from_utf8\<close>. Values are natural numbers here; the users convert to the width
  of the field.
\<close>

section \<open>Slices\<close>

definition slice :: "'a list \<Rightarrow> nat \<Rightarrow> nat \<Rightarrow> 'a list" where
  "slice xs off n = take n (drop off xs)"

lemma length_slice [simp]: "length (slice xs off n) = min n (length xs - off)"
  by (simp add: slice_def min.commute)

lemma nth_slice [simp]: "i < n \<Longrightarrow> off + i < length xs \<Longrightarrow> slice xs off n ! i = xs ! (off + i)"
  by (simp add: slice_def)

lemma slice_append_left [simp]: "slice (xs @ ys) (length xs) n = take n ys"
  by (simp add: slice_def)

lemma slice_append_right: "length xs \<le> off \<Longrightarrow> slice (xs @ ys) off n = slice ys (off - length xs) n"
  by (simp add: slice_def)

lemma slice_within: "off + n \<le> length xs \<Longrightarrow> slice (xs @ ys) off n = slice xs off n"
  by (simp add: slice_def)

lemma slice_read_bytes:
  "off + n \<le> k \<Longrightarrow> slice (read_bytes m p k) off n = read_bytes m (p + of_nat off) n"
  by (rule nth_equalityI) (auto simp: add.assoc)

text \<open>Overwriting a part of a buffer.\<close>

definition put_at :: "bytes \<Rightarrow> nat \<Rightarrow> bytes \<Rightarrow> bytes" where
  "put_at buf off bs = take off buf @ bs @ drop (off + length bs) buf"

lemma length_put_at [simp]: "off + length bs \<le> length buf \<Longrightarrow> length (put_at buf off bs) = length buf"
  by (simp add: put_at_def)

lemma slice_put_at [simp]: "off + length bs \<le> length buf \<Longrightarrow> slice (put_at buf off bs) off (length bs) = bs"
  by (simp add: put_at_def slice_def)

lemma slice_put_at_after:
  "off + length bs \<le> i \<Longrightarrow> off + length bs \<le> length buf \<Longrightarrow> slice (put_at buf off bs) i n = slice buf i n"
  by (simp add: put_at_def slice_def drop_drop)

lemma slice_take: "i + m \<le> n \<Longrightarrow> slice (take n buf) i m = slice buf i m"
  by (simp add: slice_def drop_take min.absorb1)

lemma slice_drop: "slice (drop off buf) i m = slice buf (off + i) m"
  by (simp add: slice_def add.commute)

section \<open>Little endian\<close>

fun le_nat :: "bytes \<Rightarrow> nat" where
  "le_nat [] = 0"
| "le_nat (b # bs) = unat b + 256 * le_nat bs"

fun le_bytes :: "nat \<Rightarrow> nat \<Rightarrow> bytes" where
  "le_bytes 0 v = []"
| "le_bytes (Suc n) v = of_nat v # le_bytes n (v div 256)"

definition be_nat :: "bytes \<Rightarrow> nat" where
  "be_nat bs = le_nat (rev bs)"

definition be_bytes :: "nat \<Rightarrow> nat \<Rightarrow> bytes" where
  "be_bytes n v = rev (le_bytes n v)"

lemma length_le_bytes [simp]: "length (le_bytes n v) = n"
  by (induction n arbitrary: v) simp_all

lemma length_be_bytes [simp]: "length (be_bytes n v) = n"
  by (simp add: be_bytes_def)

lemma le_nat_bytes: "le_nat (le_bytes n v) = v mod 256 ^ n"
proof (induction n arbitrary: v)
  case (Suc n)
  have "v mod 256 ^ Suc n = v mod 256 + 256 * (v div 256 mod 256 ^ n)"
    by (simp add: mod_mult2_eq add.commute)
  with Suc show ?case by (simp add: unat_of_nat)
qed simp

lemma le_nat_less: "le_nat bs < 256 ^ length bs"
proof (induction bs)
  case (Cons b bs)
  have "unat b < 256" using unsigned_less [of b] by simp
  with Cons show ?case by simp
qed simp

lemma le_bytes_nat: "le_bytes (length bs) (le_nat bs) = bs"
proof (induction bs)
  case (Cons b bs)
  have b: "unat b < 256" using unsigned_less [of b] by simp
  then have "(unat b + 256 * le_nat bs) div 256 = le_nat bs" by simp
  moreover have "(of_nat (unat b + 256 * le_nat bs) :: u8) = b"
    by (rule word_unat_eq_iff [THEN iffD2], simp only: unat_of_nat) (use b in simp)
  ultimately show ?case using Cons by simp
qed simp

lemma be_nat_bytes: "be_nat (be_bytes n v) = v mod 256 ^ n"
  by (simp add: be_nat_def be_bytes_def le_nat_bytes)

lemma be_bytes_nat: "be_bytes (length bs) (be_nat bs) = bs"
  using le_bytes_nat [of "rev bs"] by (simp add: be_nat_def be_bytes_def)

text \<open>Words of any width, with equations that evaluate on words.\<close>

definition le_word :: "bytes \<Rightarrow> 'w::len word" where
  "le_word bs = of_nat (le_nat bs)"

definition word_le :: "nat \<Rightarrow> 'w::len word \<Rightarrow> bytes" where
  "word_le n w = le_bytes n (unat w)"

lemma le_word_code [code]:
  "le_word [] = 0"
  "le_word (b # bs) = ucast b + 256 * le_word bs"
  by (simp_all add: le_word_def)

lemma word_le_code [code]:
  "word_le 0 w = []"
  "word_le (Suc n) w = ucast w # word_le n (drop_bit 8 w)"
proof -
  have "take_bit LENGTH('a) (unat w) = unat w" by (rule take_bit_nat_eq_self) (rule unsigned_less)
  then have "unat (drop_bit 8 w) = drop_bit 8 (unat w)" by (simp only: unsigned_drop_bit_eq)
  then have "unat (drop_bit 8 w) = unat w div 256" by (simp only: drop_bit_eq_div) simp
  then show "word_le (Suc n) w = ucast w # word_le n (drop_bit 8 w)" by (simp add: word_le_def)
qed (simp add: word_le_def)

lemma length_word_le [simp]: "length (word_le n w) = n"
  by (simp add: word_le_def)

lemma le_word_word_le:
  assumes "LENGTH('w) \<le> 8 * n"
  shows "le_word (word_le n w) = (w :: 'w::len word)"
proof -
  have "unat w < 2 ^ LENGTH('w)" by (rule unsigned_less)
  also have "(2 :: nat) ^ LENGTH('w) \<le> 2 ^ (8 * n)" using assms by (simp add: power_increasing)
  also have "(2 :: nat) ^ (8 * n) = 256 ^ n" by (simp add: power_mult)
  finally show ?thesis by (simp add: le_word_def word_le_def le_nat_bytes)
qed

lemma word_le_le_word:
  assumes "length bs = n" and "8 * n \<le> LENGTH('w)"
  shows "word_le n (le_word bs :: 'w::len word) = bs"
proof -
  have "le_nat bs < 256 ^ n" using le_nat_less [of bs] assms(1) by simp
  also have "(256 :: nat) ^ n = 2 ^ (8 * n)" by (simp add: power_mult)
  also have "\<dots> \<le> 2 ^ LENGTH('w)" using assms(2) by (simp add: power_increasing)
  finally have "unat (le_word bs :: 'w word) = le_nat bs" by (simp add: le_word_def unat_of_nat)
  then show ?thesis using le_bytes_nat [of bs] assms(1) by (simp add: word_le_def)
qed

section \<open>UTF-8\<close>

text \<open>\<open>core::str::from_utf8\<close> accepts exactly the well-formed byte sequences of the Unicode standard.\<close>

definition cont_byte :: "u8 \<Rightarrow> bool" where
  "cont_byte b \<longleftrightarrow> 0x80 \<le> b \<and> b \<le> 0xBF"

text \<open>The second byte of a three- or four-byte sequence: no overlong forms, surrogates or values above U+10FFFF.\<close>

definition second_byte :: "u8 \<Rightarrow> u8 \<Rightarrow> bool" where
  "second_byte a b \<longleftrightarrow>
     (if a = 0xE0 then 0xA0 \<le> b \<and> b \<le> 0xBF
      else if a = 0xED then 0x80 \<le> b \<and> b \<le> 0x9F
      else if a = 0xF0 then 0x90 \<le> b \<and> b \<le> 0xBF
      else if a = 0xF4 then 0x80 \<le> b \<and> b \<le> 0x8F
      else cont_byte b)"

fun utf8_valid :: "bytes \<Rightarrow> bool" where
  "utf8_valid [] = True"
| "utf8_valid (a # bs) =
     (if a \<le> 0x7F then utf8_valid bs
      else if 0xC2 \<le> a \<and> a \<le> 0xDF then
        (case bs of b # r \<Rightarrow> cont_byte b \<and> utf8_valid r | _ \<Rightarrow> False)
      else if 0xE0 \<le> a \<and> a \<le> 0xEF then
        (case bs of b # c # r \<Rightarrow> second_byte a b \<and> cont_byte c \<and> utf8_valid r | _ \<Rightarrow> False)
      else if 0xF0 \<le> a \<and> a \<le> 0xF4 then
        (case bs of b # c # d # r \<Rightarrow> second_byte a b \<and> cont_byte c \<and> cont_byte d \<and> utf8_valid r | _ \<Rightarrow> False)
      else False)"

lemma utf8_valid_ascii: "list_all (\<lambda>b. b \<le> 0x7F) bs \<Longrightarrow> utf8_valid bs"
  by (induction bs) auto

end
