(* ===== verification/Entry_Code.thy ===== *)
theory Entry_Code
  imports Kernel_State Byte_Codec
begin

text \<open>
  The assembly of the kernel, instruction by instruction: the entry and exit of system calls
  (\<^verbatim>\<open>syscall/entry.s\<close>), the context switches and the timer stub (\<^verbatim>\<open>task/switch.s\<close>) and the wrappers of
  the interrupt handlers (\<^verbatim>\<open>arch/x86_64/idt.rs\<close>). A routine is a list of instructions on the sixteen
  general registers, byte memory and the two GS bases; the instructions that leave a routine
  (\<open>sysretq\<close>, \<open>iretq\<close>, \<open>ret\<close>) take what the final state holds. Between two pieces of assembly runs
  compiled Rust code, which keeps the System V calling convention (\<open>sysv_return\<close>).
\<close>

section \<open>The processor\<close>

datatype reg =
    RAX | RBX | RCX | RDX | RSI | RDI | RBP | RSP
  | R8 | R9 | R10 | R11 | R12 | R13 | R14 | R15

record cpu =
  gpr :: "reg \<Rightarrow> u64"
  ram :: mem
  gs_base :: u64
  kernel_gs_base :: u64

definition load64 :: "mem \<Rightarrow> u64 \<Rightarrow> u64" where
  "load64 m a = le_word (read_bytes m a 8)"

definition store64 :: "mem \<Rightarrow> u64 \<Rightarrow> u64 \<Rightarrow> mem" where
  "store64 m a v = copy_bytes m a (word_le 8 v)"

text \<open>\<open>Unless_Eq off v i\<close> is \<open>cmp qword ptr [rsp + off], v\<close>, a \<open>je\<close> over \<open>i\<close>, and \<open>i\<close>.\<close>

datatype instr =
    Push reg
  | Pop reg
  | Mov reg reg
  | Mov_Imm reg u64
  | Add_Imm reg u64
  | Sub_Imm reg u64
  | And_Imm reg u64
  | Shr_Imm reg nat
  | Load reg reg u64
  | Load_Gs reg u64
  | Store_Gs u64 reg
  | Swapgs
  | Unless_Eq u64 u64 instr

fun exec1 :: "instr \<Rightarrow> cpu \<Rightarrow> cpu" where
  "exec1 (Push r) c =
     (let sp = gpr c RSP - 8 in c\<lparr>gpr := (gpr c)(RSP := sp), ram := store64 (ram c) sp (gpr c r)\<rparr>)"
| "exec1 (Pop r) c =
     (let sp = gpr c RSP in c\<lparr>gpr := (gpr c)(RSP := sp + 8, r := load64 (ram c) sp)\<rparr>)"
| "exec1 (Mov r s) c = c\<lparr>gpr := (gpr c)(r := gpr c s)\<rparr>"
| "exec1 (Mov_Imm r v) c = c\<lparr>gpr := (gpr c)(r := v)\<rparr>"
| "exec1 (Add_Imm r v) c = c\<lparr>gpr := (gpr c)(r := gpr c r + v)\<rparr>"
| "exec1 (Sub_Imm r v) c = c\<lparr>gpr := (gpr c)(r := gpr c r - v)\<rparr>"
| "exec1 (And_Imm r v) c = c\<lparr>gpr := (gpr c)(r := gpr c r AND v)\<rparr>"
| "exec1 (Shr_Imm r n) c = c\<lparr>gpr := (gpr c)(r := drop_bit n (gpr c r))\<rparr>"
| "exec1 (Load r b off) c = c\<lparr>gpr := (gpr c)(r := load64 (ram c) (gpr c b + off))\<rparr>"
| "exec1 (Load_Gs r off) c = c\<lparr>gpr := (gpr c)(r := load64 (ram c) (gs_base c + off))\<rparr>"
| "exec1 (Store_Gs off r) c = c\<lparr>ram := store64 (ram c) (gs_base c + off) (gpr c r)\<rparr>"
| "exec1 Swapgs c = c\<lparr>gs_base := kernel_gs_base c, kernel_gs_base := gs_base c\<rparr>"
| "exec1 (Unless_Eq off v i) c = (if load64 (ram c) (gpr c RSP + off) = v then c else exec1 i c)"

definition exec :: "instr list \<Rightarrow> cpu \<Rightarrow> cpu" where
  "exec = fold exec1"

section \<open>System calls\<close>

definition syscall_prologue :: "instr list" where
  "syscall_prologue =
     [Swapgs, Store_Gs 8 RSP, Load_Gs RSP 0] @
     map Push [R15, R14, R13, R12, R11, R10, R9, R8, RDI, RSI, RBP, RBX, RDX, RCX, RAX] @
     [Load_Gs RBX 8, Push RBX, Mov RCX R10, Mov RBP RSP, And_Imm RSP (- 16), Sub_Imm RSP 8, Push RAX]"

definition syscall_check :: "instr list" where
  "syscall_check = [Mov RSP RBP, Pop RBX, Store_Gs 8 RBX, Add_Imm RSP 8, Load R11 RSP 0, Shr_Imm R11 47]"

definition syscall_restore :: "instr list" where
  "syscall_restore =
     map Pop [RCX, RDX, RBX, RBP, RSI, RDI, R8, R9, R10, R11, R12, R13, R14, R15] @ [Load_Gs RSP 8, Swapgs]"

text \<open>\<open>None\<close> is the halt loop behind \<open>jnz .L_sysret_invalid_rip\<close>; \<open>sysretq\<close> then jumps to \<open>rcx\<close>.\<close>

definition syscall_epilogue :: "cpu \<Rightarrow> cpu option" where
  "syscall_epilogue c =
     (let c1 = exec syscall_check c in if gpr c1 R11 \<noteq> 0 then None else Some (exec syscall_restore c1))"

section \<open>Interrupt wrappers\<close>

definition wrapper_regs :: "reg list" where
  "wrapper_regs = [R12, RAX, RCX, RDX, RSI, RDI, R8, R9, R10, R11]"

definition wrapper_prologue :: "instr list" where
  "wrapper_prologue =
     [Unless_Eq 8 0x8 Swapgs] @ map Push wrapper_regs @
     [Mov RDI RSP, Add_Imm RDI 80, Mov_Imm RSI 0, Mov R12 RSP, And_Imm RSP (- 16)]"

definition wrapper_epilogue :: "instr list" where
  "wrapper_epilogue = [Mov RSP R12] @ map Pop (rev wrapper_regs) @ [Unless_Eq 8 0x8 Swapgs]"

definition error_wrapper_prologue :: "instr list" where
  "error_wrapper_prologue =
     [Unless_Eq 16 0x8 Swapgs] @ map Push wrapper_regs @
     [Mov RDI RSP, Add_Imm RDI 88, Load RSI RSP 80, Mov R12 RSP, And_Imm RSP (- 16)]"

definition error_wrapper_epilogue :: "instr list" where
  "error_wrapper_epilogue =
     [Mov RSP R12] @ map Pop (rev wrapper_regs) @ [Add_Imm RSP 8, Unless_Eq 8 0x8 Swapgs]"

section \<open>Context switches\<close>

definition context_regs :: "reg list" where
  "context_regs = [R15, R14, R13, R12, RBX, RBP]"

definition switch_context_code :: "instr list" where
  "switch_context_code = map Push (rev context_regs) @ [Mov RAX RSP, Mov RSP RDI] @ map Pop context_regs"

definition interrupt_regs :: "reg list" where
  "interrupt_regs = [R15, R14, R13, R12, R11, R10, R9, R8, RDI, RSI, RBP, RBX, RDX, RCX, RAX]"

definition timer_save :: "instr list" where
  "timer_save = [Unless_Eq 8 0x8 Swapgs] @ map Push (rev interrupt_regs) @ [Mov RDI RSP]"

text \<open>\<open>enter_user\<close> gets the pointer in \<open>rdi\<close>, the resumption at the end of the timer stub in \<open>rcx\<close>.\<close>

definition enter_user_code :: "instr list" where
  "enter_user_code = [Mov RSP RDI] @ map Pop interrupt_regs @ [Unless_Eq 8 0x8 Swapgs]"

definition timer_resume :: "instr list" where
  "timer_resume = [Mov RSP RCX] @ map Pop interrupt_regs @ [Unless_Eq 8 0x8 Swapgs]"

definition timer_resume_cooperative :: "instr list" where
  "timer_resume_cooperative = [Mov RSP RCX] @ map Pop context_regs"

definition to_preemptive_save :: "instr list" where
  "to_preemptive_save =
     map Push (rev context_regs) @ [Mov R8 RSP, Mov R9 RDI, Mov RDI R8, Mov R12 RSP, And_Imm RSP (- 16)]"

definition to_preemptive_jump :: "instr list" where
  "to_preemptive_jump = [Mov RSP R12, Mov RDI R9]"

text \<open>
  \<open>switch_context_to_cooperative\<close>, the moves in front of \<open>call after_switch\<close> where a thread runs for the
  first time (\<open>thread_entry_stub\<close> and \<open>user_trampoline\<close>), and those in front of
  \<open>call user_trampoline_rust\<close>.
\<close>

definition switch_context_to_cooperative_code :: "instr list" where
  "switch_context_to_cooperative_code = [Mov RSP RDI] @ map Pop context_regs"

definition thread_entry_moves :: "instr list" where
  "thread_entry_moves = [Mov RDI RAX]"

definition user_trampoline_moves :: "instr list" where
  "user_trampoline_moves = [Mov RDI R12, Mov RSI R13]"

section \<open>Memory\<close>

lemma load_store_same [simp]: "load64 (store64 m a v) a = v"
  using read_copy_bytes [of "word_le 8 v" m a] by (simp add: load64_def store64_def le_word_word_le)

lemma store64_outside: "8 \<le> b - a \<Longrightarrow> store64 m a v b = m b"
  by (simp add: store64_def copy_bytes_def word_le_nat_alt)

lemma load64_cong: "(\<And>i. i < 8 \<Longrightarrow> m (a + i) = m' (a + i)) \<Longrightarrow> load64 m a = load64 m' a"
  by (auto simp: load64_def read_bytes_def word_less_nat_alt unat_of_nat intro!: arg_cong [where f = le_word])

text \<open>Two ranges of addresses, modulo the size of the address space, that do not meet.\<close>

definition apart :: "u64 \<Rightarrow> u64 \<Rightarrow> u64 \<Rightarrow> u64 \<Rightarrow> bool" where
  "apart x n y k \<longleftrightarrow> n \<le> y - x \<and> k \<le> x - y"

lemma unat_uminus: "d \<noteq> 0 \<Longrightarrow> unat (- d) = 2 ^ 64 - unat d" for d :: u64
proof -
  assume "d \<noteq> 0"
  moreover have "uint d < 2 ^ 64" "0 \<le> uint d" using uint_lt2p [of d] by simp_all
  ultimately have "uint (- d) = 2 ^ 64 - uint d" by (simp add: uint_word_ariths zmod_zminus1_eq_if uint_0_iff)
  moreover have "unat d \<le> 2 ^ 64" by (simp add: less_imp_le)
  ultimately have "int (unat (- d)) = int (2 ^ 64 - unat d)" by (simp add: of_nat_diff)
  then show ?thesis by (simp only: of_nat_eq_iff)
qed

lemma apart_sub:
  assumes "apart x n y k" and "unat i + unat n' \<le> unat n" and "unat j + unat k' \<le> unat k" and "0 < n'" and "0 < k'"
  shows "apart (x + i) n' (y + j) k'"
proof -
  let ?d = "y - x"
  have eq: "y + j - (x + i) = ?d + j - i" "x + i - (y + j) = - (?d + j - i)" "x - y = - ?d" by simp_all
  have pos: "0 < unat n'" "0 < unat k'" using assms(4,5) by (simp_all add: word_less_nat_alt)
  have d: "unat n \<le> unat ?d" "unat k \<le> unat (- ?d)"
    using assms(1) by (simp_all add: apart_def word_le_nat_alt)
  have "?d \<noteq> 0" using d(1) assms(2) pos by auto
  then have m: "unat (- ?d) = 2 ^ 64 - unat ?d" by (rule unat_uminus)
  have dj: "unat (?d + j) = unat ?d + unat j" using d(2) m assms(3) pos by (intro unat_add_no_wrap) linarith
  then have dji: "unat (?d + j - i) = unat ?d + unat j - unat i"
    using d(1) assms(2) by (subst unat_sub) (simp_all add: word_le_nat_alt)
  have "0 < unat (?d + j - i)" using dji d(1) assms(2) pos by linarith
  then have "unat (- (?d + j - i)) = 2 ^ 64 - unat (?d + j - i)" by (intro unat_uminus) (auto simp: word_less_nat_alt)
  with dji d m assms(2,3) show ?thesis unfolding apart_def eq word_le_nat_alt by linarith
qed

lemma apart_shift: "apart x n y k \<Longrightarrow> 0 < n \<Longrightarrow> i < k \<Longrightarrow> n \<le> y + i - x"
  using apart_sub [of x n y k 0 n i 1] by (simp add: apart_def word_less_nat_alt)

lemma load64_apart:
  assumes "\<And>a. n \<le> a - x \<Longrightarrow> m a = m' a" and "apart x n b 8" and "0 < n"
  shows "load64 m b = load64 m' b"
  by (rule load64_cong) (rule assms(1), rule apart_shift [OF assms(2,3)])

lemma load_store_other [simp]: "apart a 8 b 8 \<Longrightarrow> load64 (store64 m a v) b = load64 m b"
  by (rule load64_apart [where x = a and n = 8]) (simp_all add: store64_outside)

definition words_at :: "mem \<Rightarrow> u64 \<Rightarrow> nat \<Rightarrow> u64 list" where
  "words_at m a n = map (\<lambda>i. load64 m (a + of_nat (8 * i))) [0..<n]"

lemma words_at_Suc: "words_at m a (Suc n) = load64 m a # words_at m (a + 8) n"
  by (simp add: words_at_def upt_conv_Cons map_Suc_upt [symmetric] comp_def algebra_simps del: upt_Suc)

lemma words_at_0 [simp]: "words_at m a 0 = []"
  by (simp add: words_at_def)

lemma length_words_at: "length (words_at m a n) = n"
  by (simp add: words_at_def)

lemma words_at_append: "words_at m a (n + k) = words_at m a n @ words_at m (a + of_nat (8 * n)) k"
  by (induction n arbitrary: a) (simp_all add: words_at_Suc algebra_simps)

lemma words_at_cong:
  assumes "\<And>i. i < of_nat (8 * n) \<Longrightarrow> m (a + i) = m' (a + i)" and "8 * n < 2 ^ 64"
  shows "words_at m a n = words_at m' a n"
  unfolding words_at_def
proof (rule map_cong [OF refl], rule load64_cong)
  fix j :: nat and i :: u64 assume j: "j \<in> set [0..<n]" and i: "i < 8"
  have "unat (of_nat (8 * j) + i) = 8 * j + unat i"
    using j i assms(2) by (simp add: unat_word_ariths unat_of_nat word_less_nat_alt)
  moreover have "unat (of_nat (8 * n) :: u64) = 8 * n" by (subst unat_of_nat) (use assms(2) in simp)
  ultimately have "of_nat (8 * j) + i < of_nat (8 * n)"
    using j i unfolding word_less_nat_alt by simp
  from assms(1) [OF this] show "m (a + of_nat (8 * j) + i) = m' (a + of_nat (8 * j) + i)" by (simp add: add.assoc)
qed

lemma words_at_store:
  assumes "apart a 8 b (of_nat (8 * n))" and "8 * n < 2 ^ 64"
  shows "words_at (store64 m a v) b n = words_at m b n"
  by (rule words_at_cong [OF _ assms(2)]) (rule store64_outside, rule apart_shift [OF assms(1)], simp_all)

lemma words_at_apart:
  assumes "\<And>a. k \<le> a - x \<Longrightarrow> m a = m' a" and "apart x k b (of_nat (8 * n))" and "0 < k" and "8 * n < 2 ^ 64"
  shows "words_at m b n = words_at m' b n"
  by (rule words_at_cong [OF _ assms(4)]) (rule assms(1), rule apart_shift [OF assms(2,3)])

section \<open>Runs of pushes and pops\<close>

lemma exec_simps:
  "exec [] c = c" "exec (i # is) c = exec is (exec1 i c)" "exec (is @ js) c = exec js (exec is c)"
  by (simp_all add: exec_def)

lemma exec_pushes:
  assumes "RSP \<notin> set rs" and "8 * length rs < 2 ^ 63"
  shows "\<exists>m. exec (map Push rs) c = c\<lparr>gpr := (gpr c)(RSP := gpr c RSP - of_nat (8 * length rs)), ram := m\<rparr> \<and>
    words_at m (gpr c RSP - of_nat (8 * length rs)) (length rs) = rev (map (gpr c) rs) \<and>
    (\<forall>a. of_nat (8 * length rs) \<le> a - (gpr c RSP - of_nat (8 * length rs)) \<longrightarrow> m a = ram c a)"
  using assms
proof (induction rs rule: rev_induct)
  case (snoc r rs)
  let ?n = "of_nat (8 * length rs) :: u64" and ?sp = "gpr c RSP"
  have "RSP \<notin> set rs" "8 * length rs < 2 ^ 63" using snoc.prems by simp_all
  from snoc.IH [OF this] obtain m where m: "exec (map Push rs) c = c\<lparr>gpr := (gpr c)(RSP := ?sp - ?n), ram := m\<rparr>"
    "words_at m (?sp - ?n) (length rs) = rev (map (gpr c) rs)" "\<forall>a. ?n \<le> a - (?sp - ?n) \<longrightarrow> m a = ram c a"
    by blast
  let ?m = "store64 m (?sp - ?n - 8) (gpr c r)"
  have n: "unat ?n = 8 * length rs" by (subst unat_of_nat) (use snoc.prems(2) in simp)
  have e: "of_nat (8 * length (rs @ [r])) = ?n + 8" by simp
  have keep: "?m (?sp - ?n + i) = m (?sp - ?n + i)" if "i < ?n" for i
  proof (rule store64_outside)
    have "unat (i + 8) = unat i + 8"
      using that n snoc.prems(2) by (intro trans [OF unat_add_no_wrap]) (simp_all add: word_less_nat_alt)
    then show "8 \<le> ?sp - ?n + i - (?sp - ?n - 8)" by (simp add: word_le_nat_alt)
  qed
  have "words_at ?m (?sp - ?n) (length rs) = words_at m (?sp - ?n) (length rs)"
    by (rule words_at_cong) (use keep snoc.prems(2) in simp_all)
  then have w: "words_at ?m (?sp - ?n - 8) (length (rs @ [r])) = rev (map (gpr c) (rs @ [r]))"
    using m(2) by (simp add: words_at_Suc)
  have o: "?m a = ram c a" if a: "?n + 8 \<le> a - (?sp - (?n + 8))" for a
  proof -
    have n8: "unat (?n + 8) = 8 * length rs + 8"
      using n snoc.prems(2) by (intro trans [OF unat_add_no_wrap]) simp_all
    have eq: "a - (?sp - (?n + 8)) = a - (?sp - ?n) + 8" "a - (?sp - ?n - 8) = a - (?sp - ?n) + 8" by simp_all
    have "?n \<le> a - (?sp - ?n)"
    proof (rule ccontr)
      assume "\<not> ?n \<le> a - (?sp - ?n)"
      then have lt: "unat (a - (?sp - ?n)) < 8 * length rs" using n by (simp add: word_le_nat_alt not_le)
      then have "unat (a - (?sp - ?n) + 8) = unat (a - (?sp - ?n)) + 8"
        using snoc.prems(2) by (intro trans [OF unat_add_no_wrap]) simp_all
      moreover have "unat (?n + 8) \<le> unat (a - (?sp - ?n) + 8)" using a unfolding eq(1) word_le_nat_alt .
      ultimately show False using lt n8 by linarith
    qed
    moreover have "8 \<le> a - (?sp - ?n - 8)" using a n8 unfolding eq by (simp add: word_le_nat_alt)
    ultimately show ?thesis using m(3) by (simp add: store64_outside)
  qed
  have x: "exec (map Push (rs @ [r])) c = c\<lparr>gpr := (gpr c)(RSP := ?sp - ?n - 8), ram := ?m\<rparr>"
    using snoc.prems(1) by (auto simp: m(1) Let_def exec_simps)
  have eq: "?sp - of_nat (8 * length (rs @ [r])) = ?sp - ?n - 8" "?sp - (?n + 8) = ?sp - ?n - 8" by simp_all
  show ?case unfolding eq(1) e unfolding eq(2) by (rule exI [of _ ?m], intro conjI allI impI x w) (rule o [unfolded eq(2)])
next
  case Nil
  show ?case by (rule exI [of _ "ram c"]) (simp add: exec_simps)
qed

lemma push_regs:
  assumes "exec (map Push rs) c = c'" and "RSP \<notin> set rs" and "length rs = n" and "of_nat (8 * n) = k" and "8 * n < 2 ^ 63"
  obtains m where "c' = c\<lparr>gpr := (gpr c)(RSP := gpr c RSP - k), ram := m\<rparr>"
    and "words_at m (gpr c RSP - k) n = rev (map (gpr c) rs)"
    and "\<And>a. k \<le> a - (gpr c RSP - k) \<Longrightarrow> m a = ram c a"
  using exec_pushes [of rs c] assms by blast

lemma exec_pops:
  assumes "RSP \<notin> set rs" and "distinct rs"
  shows "exec (map Pop rs) c =
    c\<lparr>gpr := (\<lambda>r. case map_of (zip rs (words_at (ram c) (gpr c RSP) (length rs))) r of
       Some v \<Rightarrow> v | None \<Rightarrow> ((gpr c)(RSP := gpr c RSP + of_nat (8 * length rs))) r)\<rparr>"
  using assms
proof (induction rs arbitrary: c)
  case (Cons r rs)
  have "map_of (zip rs ws) r = None" for ws :: "u64 list"
    using Cons.prems(2) by (auto simp: map_of_eq_None_iff dest: set_zip_leftD)
  then show ?case
    using Cons.prems
    by (simp add: Cons.IH words_at_Suc Let_def exec_simps)
      (rule arg_cong [where f = "\<lambda>g. c\<lparr>gpr := g\<rparr>"], auto simp: fun_eq_iff algebra_simps split: option.split)
qed (simp add: exec_simps)

lemma pop_regs:
  assumes "words_at (ram c) (gpr c RSP) n = vs" and "RSP \<notin> set rs" and "distinct rs" and "length rs = n"
    and "of_nat (8 * n) = k"
  shows "exec (map Pop rs) c = c\<lparr>gpr := (\<lambda>r. case map_of (zip rs vs) r of
    Some v \<Rightarrow> v | None \<Rightarrow> ((gpr c)(RSP := gpr c RSP + k)) r)\<rparr>"
  using exec_pops [OF assms(2,3), of c] unfolding assms(4) assms(1) assms(5) .

section \<open>What compiled code keeps\<close>

text \<open>
  The System V convention for a call that is made in state \<open>c\<close> and returns in state \<open>c'\<close>: the
  callee-saved registers and the stack of the caller, from above the \<open>args\<close> bytes of stack
  arguments up to \<open>base\<close>, are as before. The kernel code in between leaves the GS bases alone; other
  threads that run in between have other stacks.
\<close>

definition callee_saved :: "reg list" where
  "callee_saved = [RBX, RBP, RSP, R12, R13, R14, R15]"

definition sysv_return :: "u64 \<Rightarrow> u64 \<Rightarrow> cpu \<Rightarrow> cpu \<Rightarrow> bool" where
  "sysv_return args base c c' \<longleftrightarrow>
     (\<forall>r\<in>set callee_saved. gpr c' r = gpr c r) \<and> gs_base c' = gs_base c \<and> kernel_gs_base c' = kernel_gs_base c \<and>
     (\<forall>a. args \<le> a - gpr c RSP \<and> a - gpr c RSP < base - gpr c RSP \<longrightarrow> ram c' a = ram c a)"

lemma align_down: "\<exists>r < 16. t AND - 16 = t - r" "(t AND - 16) AND 15 = 0"
  "((t AND - 16) - 16) AND 15 = 0" for t :: u64
proof -
  have m: "- 16 = (NOT (mask 4) :: u64)" "15 = (mask 4 :: u64)" by (simp_all add: mask_eq_exp_minus_1)
  have "(t AND NOT (mask 4)) + (t AND mask 4) = (t AND NOT (mask 4)) OR (t AND mask 4)"
    by (rule disjunctive_add_eq_or) (rule bit_word_eqI, auto simp: bit_simps)
  also have "\<dots> = t" by (rule bit_word_eqI) (auto simp: bit_simps)
  finally have "t AND NOT (mask 4) = t - (t AND mask 4)" by (simp add: eq_diff_eq)
  moreover have "t AND mask 4 < 16" using and_mask_less' [of 4 t] by simp
  ultimately show "\<exists>r < 16. t AND - 16 = t - r" unfolding m by blast
  show "(t AND - 16) AND 15 = 0" unfolding m by (rule bit_word_eqI) (auto simp: bit_simps)
  have "t AND NOT (mask 4) = push_bit 4 (drop_bit 4 t)" by (rule bit_word_eqI) (auto simp: bit_simps)
  then have "(t AND - 16) - 16 = push_bit 4 (drop_bit 4 t - 1)" unfolding m by (simp add: push_bit_eq_mult algebra_simps)
  then show "((t AND - 16) - 16) AND 15 = 0" unfolding m by (simp only:) (rule bit_word_eqI, auto simp: bit_simps)
qed

lemma apart_below: "r < 16 \<Longrightarrow> apart (x - r - 16) 8 x 128"
proof -
  assume "r < 16"
  then have r: "unat r < 16" by (simp add: word_less_nat_alt)
  then have u: "unat (r + 16) = unat r + 16" by (intro trans [OF unat_add_no_wrap]) simp_all
  then have "r + 16 \<noteq> 0" by auto
  then have "unat (- (r + 16)) = 2 ^ 64 - unat (r + 16)" by (rule unat_uminus)
  moreover have "x - (x - r - 16) = r + 16" "x - r - 16 - x = - (r + 16)" by simp_all
  ultimately show ?thesis using u r by (simp only: apart_def word_le_nat_alt) simp
qed

section \<open>System calls keep the registers of the program\<close>

definition saved_regs :: "reg list" where
  "saved_regs = [RSP, RAX, RCX, RDX, RBX, RBP, RSI, RDI, R8, R9, R10, R11, R12, R13, R14, R15]"

lemma syscall_prologue_state:
  fixes c :: cpu
  defines "pc \<equiv> kernel_gs_base c" and "base \<equiv> load64 (ram c) (kernel_gs_base c)"
  assumes clear: "apart (base - 160) 160 pc 16"
  obtains m r where "r < 16" and "exec syscall_prologue c =
      c\<lparr>gpr := (gpr c)(RBX := gpr c RSP, RCX := gpr c R10, RBP := base - 128, RSP := base - 128 - r - 16),
        ram := m, gs_base := pc, kernel_gs_base := gs_base c\<rparr>"
    and "(base - 128 - r - 16) AND 15 = 0" and "load64 m (base - 128 - r - 16) = gpr c RAX"
    and "words_at m (base - 128) 16 = map (gpr c) saved_regs"
proof -
  let ?rs = "[R15, R14, R13, R12, R11, R10, R9, R8, RDI, RSI, RBP, RBX, RDX, RCX, RAX]"
  let ?m1 = "store64 (ram c) (pc + 8) (gpr c RSP)"
  let ?c1 = "c\<lparr>gpr := (gpr c)(RSP := base), ram := ?m1, gs_base := pc, kernel_gs_base := gs_base c\<rparr>"
  have "apart (pc + 8) 8 pc 8" by (simp add: apart_def)
  then have c1: "exec [Swapgs, Store_Gs 8 RSP, Load_Gs RSP 0] c = ?c1" by (simp add: base_def pc_def exec_simps)
  obtain m2 where m2: "exec (map Push ?rs) ?c1 = ?c1\<lparr>gpr := (gpr ?c1)(RSP := gpr ?c1 RSP - 120), ram := m2\<rparr>"
    "words_at m2 (gpr ?c1 RSP - 120) 15 = rev (map (gpr ?c1) ?rs)"
    "\<And>a. 120 \<le> a - (gpr ?c1 RSP - 120) \<Longrightarrow> m2 a = ram ?c1 a"
    by (rule push_regs [of ?rs ?c1, OF refl, of 15 120]) (simp, simp, simp, simp, rule that)
  have keep: "m2 a = ?m1 a" if "120 \<le> a - (base - 120)" for a using m2(3) [of a] that by simp
  have "apart (base - 160 + 40) 120 (pc + 8) 8" by (rule apart_sub [OF clear]) simp_all
  then have "load64 m2 (pc + 8) = load64 ?m1 (pc + 8)"
    by (intro load64_apart [of 120 "base - 120" m2 ?m1, OF keep]) simp_all
  then have u: "load64 m2 (pc + 8) = gpr c RSP" by simp
  let ?m3 = "store64 m2 (base - 128) (gpr c RSP)"
  obtain r where r: "r < 16" "(base - 128) AND - 16 = base - 128 - r" using align_down(1) by blast
  let ?sp = "base - 128 - r - 16"
  let ?m = "store64 ?m3 ?sp (gpr c RAX)"
  have x: "exec syscall_prologue c =
      c\<lparr>gpr := (gpr c)(RBX := gpr c RSP, RCX := gpr c R10, RBP := base - 128, RSP := ?sp),
        ram := ?m, gs_base := pc, kernel_gs_base := gs_base c\<rparr>"
    unfolding syscall_prologue_def exec_simps(3) c1 m2(1) using u r(2) by (simp add: exec_simps Let_def fun_upd_twist)
  have al: "?sp AND 15 = 0" using align_down(3) [of "base - 128"] by (simp add: r(2))
  have w: "words_at ?m (base - 128) 16 = map (gpr c) saved_regs"
  proof -
    have "apart ?sp 8 (base - 128) (of_nat (8 * 16))" using apart_below [OF r(1), of "base - 128"] by simp
    then have "words_at ?m (base - 128) 16 = words_at ?m3 (base - 128) 16" by (rule words_at_store) simp
    also have "\<dots> = gpr c RSP # words_at ?m3 (base - 128 + 8) 15"
      using words_at_Suc [of ?m3 "base - 128" 15] by simp
    also have "words_at ?m3 (base - 128 + 8) 15 = words_at m2 (base - 128 + 8) 15"
      by (rule words_at_store) (simp_all add: apart_def)
    finally show ?thesis using m2(2) by (simp add: saved_regs_def)
  qed
  show thesis by (rule that [OF r(1) x al _ w]) simp
qed

lemma apart_sym: "apart x n y k \<Longrightarrow> apart y k x n"
  by (simp add: apart_def)

lemma words_at_kept:
  assumes "\<And>a. args \<le> a - sp \<Longrightarrow> a - sp < base - sp \<Longrightarrow> m' a = m a"
    and "unat args \<le> unat off" and "unat off + 8 * n \<le> unat (base - sp)"
  shows "words_at m' (sp + off) n = words_at m (sp + off) n"
proof (rule words_at_cong)
  have b: "unat (base - sp) < 2 ^ 64" by simp
  then show n: "8 * n < 2 ^ 64" using assms(3) by linarith
  fix i :: u64 assume i: "i < of_nat (8 * n)"
  have "unat (of_nat (8 * n) :: u64) = 8 * n" by (subst unat_of_nat) (use n in simp)
  with i have i: "unat i < 8 * n" by (simp only: word_less_nat_alt)
  then have "unat (off + i) = unat off + unat i" using assms(3) b by (intro unat_add_no_wrap) linarith
  with i assms(2,3) have "args \<le> off + i" "off + i < base - sp"
    unfolding word_le_nat_alt word_less_nat_alt by linarith+
  then show "m' (sp + off + i) = m (sp + off + i)" using assms(1) [of "sp + off + i"] by (simp add: add.assoc)
qed

lemma syscall_epilogue_state:
  assumes w: "words_at (ram c) b 16 = map g saved_regs" and rbp: "gpr c RBP = b" and gs: "gs_base c = pc"
    and clear: "apart b 128 (pc + 8) 8"
  shows "syscall_epilogue c =
    (if drop_bit 47 (g RCX) \<noteq> 0 then None
     else Some (c\<lparr>gpr := g(RAX := gpr c RAX), ram := store64 (ram c) (pc + 8) (g RSP),
       gs_base := kernel_gs_base c, kernel_gs_base := pc\<rparr>))"
proof -
  let ?rs = "[RCX, RDX, RBX, RBP, RSI, RDI, R8, R9, R10, R11, R12, R13, R14, R15]"
  let ?m = "store64 (ram c) (pc + 8) (g RSP)"
  have "load64 (ram c) b = g RSP"
    using w words_at_Suc [of "ram c" b 15] by (simp add: saved_regs_def)
  moreover have "words_at ?m b 16 = map g saved_regs"
    unfolding w [symmetric] using apart_sym [OF clear] by (intro words_at_store) simp_all
  then have m: "words_at ?m (b + 16) 14 = map g (drop 2 saved_regs)"
    using words_at_append [of ?m b 2 14] by (simp add: drop_map [symmetric] length_words_at)
  moreover have "load64 ?m (b + 16) = hd (words_at ?m (b + 16) 14)" using words_at_Suc [of ?m "b + 16" 13] by simp
  then have "load64 ?m (b + 16) = g RCX" using m by (simp add: saved_regs_def)
  ultimately have chk: "exec syscall_check c =
      c\<lparr>gpr := (gpr c)(RSP := b + 16, RBX := g RSP, R11 := drop_bit 47 (g RCX)), ram := ?m\<rparr>" (is "_ = ?c1")
    by (simp add: syscall_check_def exec_simps Let_def rbp gs fun_upd_twist add.commute [of 16 b])
  have "exec (map Pop ?rs) ?c1 = ?c1\<lparr>gpr := (\<lambda>r. case map_of (zip ?rs (map g (drop 2 saved_regs))) r of
      Some v \<Rightarrow> v | None \<Rightarrow> ((gpr ?c1)(RSP := gpr ?c1 RSP + 112)) r)\<rparr>"
    by (rule pop_regs [where n = 14]) (use m in simp_all)
  moreover have "(\<lambda>r. case map_of (zip ?rs (map g (drop 2 saved_regs))) r of
      Some v \<Rightarrow> v | None \<Rightarrow> ((gpr ?c1)(RSP := gpr ?c1 RSP + 112)) r) = g(RAX := gpr c RAX, RSP := b + 128)"
    by (rule ext) (case_tac r; simp add: saved_regs_def)
  ultimately show ?thesis
    unfolding syscall_epilogue_def chk syscall_restore_def exec_simps(3)
    by (simp add: exec_simps gs fun_upd_twist)
qed

lemma drop_bit_47: "drop_bit 47 w = 0 \<longleftrightarrow> w < 0x800000000000" for w :: u64
proof -
  have "unat (drop_bit 47 w) = unat w div 2 ^ 47" by (simp add: drop_bit_eq_div unat_div)
  then have "drop_bit 47 w = 0 \<longleftrightarrow> unat w div 2 ^ 47 = 0" by (metis unat_eq_zero)
  also have "\<dots> \<longleftrightarrow> unat w < 2 ^ 47" by (simp add: div_eq_0_iff)
  finally show ?thesis by (simp add: word_less_nat_alt)
qed

text \<open>
  C9: A system call gives the handler exactly the argument registers of the program, with the call
  number on the stack and the stack aligned as the calling convention wants it; and when the
  handler returns, whatever it did with the other registers and with the saved user stack pointer
  of the processor, the program goes on at its next instruction with every register, its stack
  pointer and its GS base unchanged, except \<open>rax\<close>, which holds the result. If the saved instruction
  pointer is not a user address, the kernel halts instead of executing \<open>sysretq\<close>.
\<close>

theorem syscall_entry_roundtrip:
  assumes "base = load64 (ram c) (kernel_gs_base c)" and "apart (base - 160) 160 (kernel_gs_base c) 16"
    and "c1 = exec syscall_prologue c" and "sysv_return 16 base c1 c2"
  shows "map (gpr c1) [RDI, RSI, RDX, RCX, R8, R9] = map (gpr c) [RDI, RSI, RDX, R10, R8, R9] \<and>
    load64 (ram c1) (gpr c1 RSP) = gpr c RAX \<and> gpr c1 RSP AND 15 = 0 \<and>
    (case syscall_epilogue c2 of
       None \<Rightarrow> 0x800000000000 \<le> gpr c RCX
     | Some c3 \<Rightarrow> gpr c RCX < 0x800000000000 \<and> gpr c3 = (gpr c)(RAX := gpr c2 RAX) \<and>
         gs_base c3 = gs_base c \<and> kernel_gs_base c3 = kernel_gs_base c)"
proof -
  let ?pc = "kernel_gs_base c"
  have clear: "apart (load64 (ram c) ?pc - 160) 160 ?pc 16" using assms(1,2) by simp
  obtain m r where r: "r < 16" and c1: "c1 =
      c\<lparr>gpr := (gpr c)(RBX := gpr c RSP, RCX := gpr c R10, RBP := base - 128, RSP := base - 128 - r - 16),
        ram := m, gs_base := ?pc, kernel_gs_base := gs_base c\<rparr>"
    and args: "(base - 128 - r - 16) AND 15 = 0" "load64 m (base - 128 - r - 16) = gpr c RAX"
    and w: "words_at m (base - 128) 16 = map (gpr c) saved_regs"
    by (rule syscall_prologue_state [OF clear]) (simp add: assms(1,3))
  have sp: "unat (r + 16) = unat r + 16" "unat (r + 144) = unat r + 144"
    using r by (auto simp: word_less_nat_alt intro!: trans [OF unat_add_no_wrap])
  have "words_at (ram c2) (gpr c1 RSP + (r + 16)) 16 = words_at (ram c1) (gpr c1 RSP + (r + 16)) 16"
    by (rule words_at_kept [where args = 16 and base = base])
      (use assms(4) sp in \<open>simp_all add: sysv_return_def c1\<close>)
  then have "words_at (ram c2) (base - 128) 16 = map (gpr c) saved_regs" using w by (simp add: c1)
  moreover have "apart (base - 160 + 32) 128 (?pc + 8) 8" by (rule apart_sub [OF assms(2)]) simp_all
  ultimately have "syscall_epilogue c2 =
    (if drop_bit 47 (gpr c RCX) \<noteq> 0 then None
     else Some (c2\<lparr>gpr := (gpr c)(RAX := gpr c2 RAX), ram := store64 (ram c2) (?pc + 8) (gpr c RSP),
       gs_base := kernel_gs_base c2, kernel_gs_base := ?pc\<rparr>))"
    using assms(4) by (intro syscall_epilogue_state) (simp_all add: sysv_return_def callee_saved_def c1)
  then show ?thesis using args assms(4) by (auto simp: c1 sysv_return_def drop_bit_47 not_le)
qed

text \<open>
  The example program has different values in all registers; the handler returns 42 and leaves
  garbage in the registers that it may change.
\<close>

definition sample_cpu :: cpu where
  "sample_cpu =
     \<lparr>gpr = (\<lambda>r. case r of RAX \<Rightarrow> 4 | RBX \<Rightarrow> 11 | RCX \<Rightarrow> 0x401000 | RDX \<Rightarrow> 13 | RSI \<Rightarrow> 14 | RDI \<Rightarrow> 15 | RBP \<Rightarrow> 16
        | RSP \<Rightarrow> 0x6FFFFFFFFF00 | R8 \<Rightarrow> 18 | R9 \<Rightarrow> 19 | R10 \<Rightarrow> 20 | R11 \<Rightarrow> 0x202 | R12 \<Rightarrow> 22 | R13 \<Rightarrow> 23 | R14 \<Rightarrow> 24
        | R15 \<Rightarrow> 25),
      ram = store64 (\<lambda>_. 0) 0xFFFFFFFF80010000 0xFFFF900000002000, gs_base = 0,
      kernel_gs_base = 0xFFFFFFFF80010000\<rparr>"

definition clobber :: "cpu \<Rightarrow> cpu" where
  "clobber c = c\<lparr>gpr := (gpr c)(RAX := 42, RCX := 1, RDX := 1, RSI := 1, RDI := 1, R8 := 1, R9 := 1, R10 := 1, R11 := 1),
     ram := (ram c)(gpr c RSP := 7)\<rparr>"

lemma clobber_sysv: "0 < args \<Longrightarrow> sysv_return args base c (clobber c)"
  by (auto simp: sysv_return_def clobber_def callee_saved_def)

theorem syscall_entry_roundtrip_witness:
  "\<exists>c3. syscall_epilogue (clobber (exec syscall_prologue sample_cpu)) = Some c3 \<and>
    gpr c3 = (gpr sample_cpu)(RAX := 42) \<and> gs_base c3 = 0 \<and> kernel_gs_base c3 = 0xFFFFFFFF80010000"
proof -
  have "0xFFFF900000002000 = load64 (ram sample_cpu) (kernel_gs_base sample_cpu)" by (simp add: sample_cpu_def)
  moreover have "apart (0xFFFF900000002000 - 160) 160 (kernel_gs_base sample_cpu) 16"
    by (simp add: sample_cpu_def apart_def)
  ultimately show ?thesis
    using syscall_entry_roundtrip [OF _ _ refl clobber_sysv, of "0xFFFF900000002000" sample_cpu]
    by (simp add: sample_cpu_def clobber_def split: option.splits)
qed

section \<open>Interrupt handlers keep the registers of what they interrupt\<close>

definition swap_unless :: "bool \<Rightarrow> cpu \<Rightarrow> cpu" where
  "swap_unless b c = (if b then c else exec1 Swapgs c)"

lemma swap_unless_sel [simp]:
  "gpr (swap_unless b c) = gpr c" "ram (swap_unless b c) = ram c"
  "gs_base (swap_unless b c) = (if b then gs_base c else kernel_gs_base c)"
  "kernel_gs_base (swap_unless b c) = (if b then kernel_gs_base c else gs_base c)"
  by (simp_all add: swap_unless_def)

lemma exec_Unless_Eq: "exec1 (Unless_Eq off v Swapgs) c = swap_unless (load64 (ram c) (gpr c RSP + off) = v) c"
  by (simp add: swap_unless_def)

lemma wrapper_restore:
  assumes "words_at (ram d) sp 10 = map g (rev wrapper_regs)" and "gpr d R12 = sp" and "g RSP = sp + 80"
    and "\<forall>r\<in>{RBX, RBP, R13, R14, R15}. gpr d r = g r"
  shows "exec ([Mov RSP R12] @ map Pop (rev wrapper_regs)) d = d\<lparr>gpr := g\<rparr>"
proof -
  let ?d = "d\<lparr>gpr := (gpr d)(RSP := sp)\<rparr>"
  have "exec (map Pop (rev wrapper_regs)) ?d = ?d\<lparr>gpr := (\<lambda>r. case map_of (zip (rev wrapper_regs) (map g (rev wrapper_regs))) r of
      Some v \<Rightarrow> v | None \<Rightarrow> ((gpr ?d)(RSP := gpr ?d RSP + 80)) r)\<rparr>"
    by (rule pop_regs [where n = 10]) (use assms(1) in \<open>simp_all add: wrapper_regs_def\<close>)
  moreover have "(\<lambda>r. case map_of (zip (rev wrapper_regs) (map g (rev wrapper_regs))) r of
      Some v \<Rightarrow> v | None \<Rightarrow> ((gpr ?d)(RSP := gpr ?d RSP + 80)) r) = g"
    by (rule ext) (case_tac r; use assms(3,4) in \<open>simp add: wrapper_regs_def\<close>)
  ultimately show ?thesis using assms(2) by (simp add: exec_simps)
qed

text \<open>
  What both wrappers share: ten registers are pushed, the handler runs on an aligned stack, the
  registers come back, and the \<open>k\<close> words above (the frame that the processor pushed) are as before.
\<close>

lemma wrapper_body:
  assumes push: "exec (map Push wrapper_regs) c = p" and rest: "gpr c1 = (gpr p)(RDI := x, RSI := y, R12 := gpr p RSP,
      RSP := gpr p RSP AND - 16)" "ram c1 = ram p"
    and ret: "sysv_return 0 (gpr c RSP + of_nat (8 * k)) c1 c2" and k: "k < 100"
  shows "gpr p RSP = gpr c RSP - 80" and "words_at (ram p) (gpr c RSP) k = words_at (ram c) (gpr c RSP) k"
    and "exec ([Mov RSP R12] @ map Pop (rev wrapper_regs)) c2 = c2\<lparr>gpr := gpr c\<rparr>"
    and "words_at (ram c2) (gpr c RSP) k = words_at (ram c) (gpr c RSP) k"
proof -
  obtain m where p: "p = c\<lparr>gpr := (gpr c)(RSP := gpr c RSP - 80), ram := m\<rparr>"
    and w: "words_at m (gpr c RSP - 80) 10 = rev (map (gpr c) wrapper_regs)"
    and keep: "\<And>a. 80 \<le> a - (gpr c RSP - 80) \<Longrightarrow> m a = ram c a"
    by (rule push_regs [OF push, of 10 80]) (simp_all add: wrapper_regs_def)
  then show sp: "gpr p RSP = gpr c RSP - 80" by simp
  have k8: "unat (of_nat (8 * k) :: u64) = 8 * k" by (subst unat_of_nat) (use k in simp)
  have "apart (gpr c RSP - 80) 80 (gpr c RSP) (of_nat (8 * k))"
    using k8 k by (simp add: apart_def word_le_nat_alt)
  then show f: "words_at (ram p) (gpr c RSP) k = words_at (ram c) (gpr c RSP) k"
    using k by (intro words_at_apart [of 80 "gpr c RSP - 80"]) (simp_all add: p keep)
  obtain r where r: "r < 16" "gpr p RSP AND - 16 = gpr c RSP - 80 - r" using align_down(1) sp by metis
  have u1: "unat (r + 80) = unat r + 80" "unat r < 16"
    using r(1) by (auto simp: word_less_nat_alt intro!: trans [OF unat_add_no_wrap])
  have u2: "unat (r + 80 + of_nat (8 * k)) = unat r + 80 + 8 * k"
    using u1 k k8 by (subst unat_add_no_wrap) simp_all
  have mem: "ram c2 a = ram c1 a" if "a - gpr c1 RSP < gpr c RSP + of_nat (8 * k) - gpr c1 RSP" for a
    using ret that by (simp add: sysv_return_def)
  have c1: "gpr c1 RSP = gpr c RSP - 80 - r" using rest(1) r(2) by simp
  have len: "unat (gpr c RSP + of_nat (8 * k) - gpr c1 RSP) = unat r + 80 + 8 * k" using u2 by (simp add: c1 algebra_simps)
  have "words_at (ram c2) (gpr c1 RSP + r) 10 = words_at (ram c1) (gpr c1 RSP + r) 10"
    by (rule words_at_kept [where args = 0 and base = "gpr c RSP + of_nat (8 * k)", OF mem]) (assumption, simp, subst len, simp)
  then have "words_at (ram c2) (gpr c RSP - 80) 10 = map (gpr c) (rev wrapper_regs)"
    using w rest(2) by (simp add: c1 p rev_map)
  then show "exec ([Mov RSP R12] @ map Pop (rev wrapper_regs)) c2 = c2\<lparr>gpr := gpr c\<rparr>"
    using ret rest(1) by (intro wrapper_restore [where sp = "gpr c RSP - 80"]) (simp_all add: sysv_return_def callee_saved_def p)
  have "words_at (ram c2) (gpr c1 RSP + (r + 80)) k = words_at (ram c1) (gpr c1 RSP + (r + 80)) k"
    by (rule words_at_kept [where args = 0 and base = "gpr c RSP + of_nat (8 * k)", OF mem]) (assumption, simp, subst len, simp add: u1(1))
  then show "words_at (ram c2) (gpr c RSP) k = words_at (ram c) (gpr c RSP) k"
    using f rest(2) by (simp add: c1)
qed

lemma words_at_load:
  assumes "words_at m a n = words_at m' a n" and "i < n" and "of_nat (8 * i) = off"
  shows "load64 m (a + off) = load64 m' (a + off)"
  using arg_cong [OF assms(1), of "\<lambda>ws. ws ! i"] assms(2,3) by (simp add: words_at_def)

lemma exec_push_gs [simp]:
  "gs_base (exec (map Push rs) c) = gs_base c" "kernel_gs_base (exec (map Push rs) c) = kernel_gs_base c"
  by (induction rs arbitrary: c) (simp_all add: exec_simps Let_def)

lemma wrapper_ok:
  assumes c1: "c1 = exec wrapper_prologue c" and ret: "sysv_return 0 (gpr c RSP + 40) c1 c2"
    and c3: "c3 = exec wrapper_epilogue c2"
  shows "gpr c1 RDI = gpr c RSP" "gpr c1 RSP AND 15 = 0" "gpr c3 = gpr c" "gs_base c3 = gs_base c"
    "kernel_gs_base c3 = kernel_gs_base c" "words_at (ram c3) (gpr c RSP) 5 = words_at (ram c) (gpr c RSP) 5"
proof -
  let ?s = "swap_unless (load64 (ram c) (gpr c RSP + 8) = 8) c"
  define p where "p = exec (map Push wrapper_regs) ?s"
  have x1: "c1 = p\<lparr>gpr := (gpr p)(RDI := gpr p RSP + 80, RSI := 0, R12 := gpr p RSP, RSP := gpr p RSP AND - 16)\<rparr>"
    unfolding c1 wrapper_prologue_def exec_simps(3)
    by (simp add: exec_simps exec_Unless_Eq fun_upd_twist p_def del: exec1.simps(13))
  have r: "sysv_return 0 (gpr ?s RSP + of_nat (8 * 5)) c1 c2" using ret by simp
  have g: "gpr c1 = (gpr p)(RDI := gpr p RSP + 80, RSI := 0, R12 := gpr p RSP, RSP := gpr p RSP AND - 16)"
    and m: "ram c1 = ram p" and five: "(5 :: nat) < 100" by (simp_all add: x1)
  note b = wrapper_body [OF p_def [symmetric] g m r five, unfolded swap_unless_sel]
  show "gpr c1 RDI = gpr c RSP" "gpr c1 RSP AND 15 = 0" using b(1) align_down(2) by (simp_all add: x1)
  have cs: "load64 (ram c2) (gpr c RSP + 8) = load64 (ram c) (gpr c RSP + 8)"
    by (rule words_at_load [OF b(4), of 1]) simp_all
  have x3: "c3 = swap_unless (load64 (ram c) (gpr c RSP + 8) = 8) (c2\<lparr>gpr := gpr c\<rparr>)"
    unfolding c3 wrapper_epilogue_def exec_simps(3) b(3) [unfolded exec_simps(3)]
    using cs by (simp add: exec_simps exec_Unless_Eq del: exec1.simps(13))
  have "gs_base c2 = gs_base ?s" "kernel_gs_base c2 = kernel_gs_base ?s"
    using ret by (simp_all add: sysv_return_def x1 p_def)
  then show "gpr c3 = gpr c" "gs_base c3 = gs_base c" "kernel_gs_base c3 = kernel_gs_base c"
    "words_at (ram c3) (gpr c RSP) 5 = words_at (ram c) (gpr c RSP) 5"
    using b(4) by (simp_all add: x3)
qed

lemma error_wrapper_ok:
  assumes c1: "c1 = exec error_wrapper_prologue c" and ret: "sysv_return 0 (gpr c RSP + 48) c1 c2"
    and c3: "c3 = exec error_wrapper_epilogue c2"
  shows "gpr c1 RDI = gpr c RSP + 8" "gpr c1 RSI = load64 (ram c) (gpr c RSP)" "gpr c1 RSP AND 15 = 0"
    "gpr c3 = (gpr c)(RSP := gpr c RSP + 8)" "gs_base c3 = gs_base c" "kernel_gs_base c3 = kernel_gs_base c"
    "words_at (ram c3) (gpr c RSP + 8) 5 = words_at (ram c) (gpr c RSP + 8) 5"
proof -
  let ?s = "swap_unless (load64 (ram c) (gpr c RSP + 16) = 8) c"
  define p where "p = exec (map Push wrapper_regs) ?s"
  define e where "e = load64 (ram p) (gpr p RSP + 80)"
  have x1: "c1 = p\<lparr>gpr := (gpr p)(RDI := gpr p RSP + 88, RSI := e, R12 := gpr p RSP, RSP := gpr p RSP AND - 16)\<rparr>"
    unfolding c1 error_wrapper_prologue_def exec_simps(3)
    by (simp add: exec_simps exec_Unless_Eq fun_upd_twist p_def e_def del: exec1.simps(13))
  have r: "sysv_return 0 (gpr ?s RSP + of_nat (8 * 6)) c1 c2" using ret by simp
  have g: "gpr c1 = (gpr p)(RDI := gpr p RSP + 88, RSI := e, R12 := gpr p RSP, RSP := gpr p RSP AND - 16)"
    and m: "ram c1 = ram p" and six: "(6 :: nat) < 100" by (simp_all add: x1)
  note b = wrapper_body [OF p_def [symmetric] g m r six, unfolded swap_unless_sel]
  have "e = load64 (ram c) (gpr c RSP)" using words_at_load [OF b(2), of 0 0] b(1) by (simp add: e_def)
  then show "gpr c1 RDI = gpr c RSP + 8" "gpr c1 RSI = load64 (ram c) (gpr c RSP)" "gpr c1 RSP AND 15 = 0"
    using b(1) align_down(2) by (simp_all add: x1)
  have cs: "load64 (ram c2) (gpr c RSP + 16) = load64 (ram c) (gpr c RSP + 16)"
    by (rule words_at_load [OF b(4), of 2]) simp_all
  have x3: "c3 = swap_unless (load64 (ram c) (gpr c RSP + 16) = 8) (c2\<lparr>gpr := (gpr c)(RSP := gpr c RSP + 8)\<rparr>)"
    unfolding c3 error_wrapper_epilogue_def exec_simps(3) b(3) [unfolded exec_simps(3)]
    using cs by (simp add: exec_simps exec_Unless_Eq add.assoc del: exec1.simps(13))
  have "gs_base c2 = gs_base ?s" "kernel_gs_base c2 = kernel_gs_base ?s"
    using ret by (simp_all add: sysv_return_def x1 p_def)
  moreover have "words_at (ram c2) (gpr c RSP + 8) 5 = words_at (ram c) (gpr c RSP + 8) 5"
    using b(4) by (simp add: words_at_Suc eval_nat_numeral)
  ultimately show "gpr c3 = (gpr c)(RSP := gpr c RSP + 8)" "gs_base c3 = gs_base c" "kernel_gs_base c3 = kernel_gs_base c"
    "words_at (ram c3) (gpr c RSP + 8) 5 = words_at (ram c) (gpr c RSP + 8) 5"
    by (simp_all add: x3)
qed

text \<open>
  C23: The wrappers around the interrupt and exception handlers are transparent. The handler gets a
  pointer to the frame that the processor pushed (and the error code, where there is one) on an
  aligned stack; when it returns, \<open>iretq\<close> is executed with that frame intact on top of the stack,
  every register as it was when the interrupt arrived, and the GS bases swapped back exactly if
  they were swapped on entry, whether user or kernel code was interrupted.
\<close>

theorem interrupt_wrappers_transparent:
  assumes "c1 = exec wrapper_prologue c" and "sysv_return 0 (gpr c RSP + 40) c1 c2" and "c3 = exec wrapper_epilogue c2"
    and "d1 = exec error_wrapper_prologue d" and "sysv_return 0 (gpr d RSP + 48) d1 d2"
    and "d3 = exec error_wrapper_epilogue d2"
  shows "gpr c1 RDI = gpr c RSP \<and> gpr c1 RSP AND 15 = 0 \<and> gpr c3 = gpr c \<and> gs_base c3 = gs_base c \<and>
      kernel_gs_base c3 = kernel_gs_base c \<and> words_at (ram c3) (gpr c RSP) 5 = words_at (ram c) (gpr c RSP) 5 \<and>
    gpr d1 RDI = gpr d RSP + 8 \<and> gpr d1 RSI = load64 (ram d) (gpr d RSP) \<and> gpr d1 RSP AND 15 = 0 \<and>
      gpr d3 = (gpr d)(RSP := gpr d RSP + 8) \<and> gs_base d3 = gs_base d \<and> kernel_gs_base d3 = kernel_gs_base d \<and>
      words_at (ram d3) (gpr d RSP + 8) 5 = words_at (ram d) (gpr d RSP + 8) 5"
  using wrapper_ok [OF assms(1,2,3)] error_wrapper_ok [OF assms(4,5,6)] by simp

text \<open>A handler that changes every register it may, and nothing on the stack of the interrupted code.\<close>

definition clobber_regs :: "cpu \<Rightarrow> cpu" where
  "clobber_regs c = c\<lparr>gpr := (gpr c)(RAX := 1, RCX := 1, RDX := 1, RSI := 1, RDI := 1, R8 := 1, R9 := 1, R10 := 1, R11 := 1)\<rparr>"

lemma clobber_regs_sysv: "sysv_return 0 base c (clobber_regs c)"
  by (auto simp: sysv_return_def clobber_regs_def callee_saved_def)

theorem interrupt_wrappers_transparent_witness:
  "gpr (exec wrapper_epilogue (clobber_regs (exec wrapper_prologue sample_cpu))) = gpr sample_cpu \<and>
   gpr (exec error_wrapper_epilogue (clobber_regs (exec error_wrapper_prologue sample_cpu))) =
     (gpr sample_cpu)(RSP := 0x6FFFFFFFFF08)"
  using interrupt_wrappers_transparent [OF refl clobber_regs_sysv refl refl clobber_regs_sysv refl,
      of sample_cpu sample_cpu]
  by (simp add: sample_cpu_def)

section \<open>Preemption\<close>

text \<open>The layout of \<open>InterruptContext\<close> in memory.\<close>

definition context_at :: "mem \<Rightarrow> u64 \<Rightarrow> interrupt_context" where
  "context_at m a =
     \<lparr>ic_r15 = load64 m a, ic_r14 = load64 m (a + 8), ic_r13 = load64 m (a + 16), ic_r12 = load64 m (a + 24),
      ic_r11 = load64 m (a + 32), ic_r10 = load64 m (a + 40), ic_r9 = load64 m (a + 48), ic_r8 = load64 m (a + 56),
      ic_rdi = load64 m (a + 64), ic_rsi = load64 m (a + 72), ic_rbp = load64 m (a + 80), ic_rbx = load64 m (a + 88),
      ic_rdx = load64 m (a + 96), ic_rcx = load64 m (a + 104), ic_rax = load64 m (a + 112),
      ic_rip = load64 m (a + 120), ic_cs = load64 m (a + 128), ic_rflags = load64 m (a + 136),
      ic_rsp = load64 m (a + 144), ic_ss = load64 m (a + 152)\<rparr>"

definition interrupted :: "cpu \<Rightarrow> interrupt_context" where
  "interrupted c =
     \<lparr>ic_r15 = gpr c R15, ic_r14 = gpr c R14, ic_r13 = gpr c R13, ic_r12 = gpr c R12, ic_r11 = gpr c R11,
      ic_r10 = gpr c R10, ic_r9 = gpr c R9, ic_r8 = gpr c R8, ic_rdi = gpr c RDI, ic_rsi = gpr c RSI,
      ic_rbp = gpr c RBP, ic_rbx = gpr c RBX, ic_rdx = gpr c RDX, ic_rcx = gpr c RCX, ic_rax = gpr c RAX,
      ic_rip = load64 (ram c) (gpr c RSP), ic_cs = load64 (ram c) (gpr c RSP + 8),
      ic_rflags = load64 (ram c) (gpr c RSP + 16), ic_rsp = load64 (ram c) (gpr c RSP + 24),
      ic_ss = load64 (ram c) (gpr c RSP + 32)\<rparr>"

lemma resume_state:
  assumes "words_at (ram d) sp 15 = map g interrupt_regs" and "gpr d r = sp" and "g RSP = sp + 120"
  shows "exec (map Pop interrupt_regs) (exec [Mov RSP r] d) = d\<lparr>gpr := g\<rparr>"
proof -
  let ?d = "d\<lparr>gpr := (gpr d)(RSP := sp)\<rparr>"
  have "exec (map Pop interrupt_regs) ?d = ?d\<lparr>gpr := (\<lambda>r. case map_of (zip interrupt_regs (map g interrupt_regs)) r of
      Some v \<Rightarrow> v | None \<Rightarrow> ((gpr ?d)(RSP := gpr ?d RSP + 120)) r)\<rparr>"
    by (rule pop_regs [where n = 15]) (use assms(1) in \<open>simp_all add: interrupt_regs_def\<close>)
  moreover have "(\<lambda>r. case map_of (zip interrupt_regs (map g interrupt_regs)) r of
      Some v \<Rightarrow> v | None \<Rightarrow> ((gpr ?d)(RSP := gpr ?d RSP + 120)) r) = g"
    by (rule ext) (case_tac r; use assms(3) in \<open>simp add: interrupt_regs_def\<close>)
  ultimately show ?thesis using assms(2) by (simp add: exec_simps)
qed

lemma timer_save_state:
  obtains m where "exec timer_save c = swap_unless (load64 (ram c) (gpr c RSP + 8) = 8)
      (c\<lparr>gpr := (gpr c)(RSP := gpr c RSP - 120, RDI := gpr c RSP - 120), ram := m\<rparr>)"
    and "words_at m (gpr c RSP - 120) 15 = map (gpr c) interrupt_regs"
    and "words_at m (gpr c RSP) 5 = words_at (ram c) (gpr c RSP) 5"
proof -
  let ?s = "swap_unless (load64 (ram c) (gpr c RSP + 8) = 8) c"
  obtain m where m: "exec (map Push (rev interrupt_regs)) ?s = ?s\<lparr>gpr := (gpr ?s)(RSP := gpr ?s RSP - 120), ram := m\<rparr>"
    "words_at m (gpr ?s RSP - 120) 15 = rev (map (gpr ?s) (rev interrupt_regs))"
    "\<And>a. 120 \<le> a - (gpr ?s RSP - 120) \<Longrightarrow> m a = ram ?s a"
    by (rule push_regs [OF refl, of "rev interrupt_regs" 15 120 ?s]) (simp_all add: interrupt_regs_def)
  have "words_at m (gpr c RSP) 5 = words_at (ram c) (gpr c RSP) 5"
    using m(3) by (intro words_at_apart [of 120 "gpr c RSP - 120"]) (simp_all add: apart_def)
  moreover have "exec timer_save c = swap_unless (load64 (ram c) (gpr c RSP + 8) = 8)
      (c\<lparr>gpr := (gpr c)(RSP := gpr c RSP - 120, RDI := gpr c RSP - 120), ram := m\<rparr>)"
    unfolding timer_save_def exec_simps(3) using m(1)
    by (simp add: exec_simps exec_Unless_Eq swap_unless_def del: exec1.simps(13))
  ultimately show thesis using m(2) by (intro that [of m]) (simp_all add: rev_map)
qed

text \<open>
  C10: A timer tick saves exactly the interrupted registers, in the layout of \<open>InterruptContext\<close> that the
  rest of the kernel reads and writes; and when this context is resumed later, by \<open>enter_user\<close> or by the
  timer stub, from any state in which the kernel GS base is active and the saved frame has not
  been overwritten, the code goes on with every register, the frame for \<open>iretq\<close> and the GS bases as
  they were when the tick arrived.
\<close>

theorem preemption_roundtrip:
  assumes c1: "c1 = exec timer_save c" and kept: "\<And>a. a - gpr c1 RSP < 160 \<Longrightarrow> ram c2 a = ram c1 a"
    and gs: "gs_base c2 = gs_base c1" "kernel_gs_base c2 = kernel_gs_base c1"
    and code: "code = enter_user_code \<and> gpr c2 RDI = gpr c1 RSP \<or> code = timer_resume \<and> gpr c2 RCX = gpr c1 RSP"
    and c3: "c3 = exec code c2"
  shows "gpr c1 RDI = gpr c1 RSP \<and> context_at (ram c1) (gpr c1 RSP) = interrupted c \<and>
    gpr c3 = gpr c \<and> gs_base c3 = gs_base c \<and> kernel_gs_base c3 = kernel_gs_base c \<and>
    words_at (ram c3) (gpr c RSP) 5 = words_at (ram c) (gpr c RSP) 5"
proof -
  let ?k = "load64 (ram c) (gpr c RSP + 8) = 8" and ?sp = "gpr c RSP - 120"
  obtain m where x1: "c1 = swap_unless ?k (c\<lparr>gpr := (gpr c)(RSP := ?sp, RDI := ?sp), ram := m\<rparr>)"
    and w: "words_at m ?sp 15 = map (gpr c) interrupt_regs" and f: "words_at m (gpr c RSP) 5 = words_at (ram c) (gpr c RSP) 5"
    using timer_save_state [of c] unfolding c1 by metis
  have all: "words_at m ?sp 20 = map (gpr c) interrupt_regs @ words_at (ram c) (gpr c RSP) 5"
    using words_at_append [of m ?sp 15 5] w f by simp
  have ctx: "context_at m ?sp = interrupted c"
    using all by (simp add: context_at_def interrupted_def words_at_Suc eval_nat_numeral interrupt_regs_def add.commute)
  have "words_at (ram c2) ?sp 20 = words_at m ?sp 20"
    by (rule words_at_cong) (use kept in \<open>simp_all add: x1\<close>)
  then have "words_at (ram c2) ?sp 15 @ words_at (ram c2) (gpr c RSP) 5 = map (gpr c) interrupt_regs @ words_at (ram c) (gpr c RSP) 5"
    using words_at_append [of "ram c2" ?sp 15 5] all by simp
  then have w2: "words_at (ram c2) ?sp 15 = map (gpr c) interrupt_regs" "words_at (ram c2) (gpr c RSP) 5 = words_at (ram c) (gpr c RSP) 5"
    using append_eq_append_conv [of "words_at (ram c2) ?sp 15" "map (gpr c) interrupt_regs"]
    by (simp_all add: length_words_at)
  from code obtain r where r: "code = [Mov RSP r] @ map Pop interrupt_regs @ [Unless_Eq 8 0x8 Swapgs]" "gpr c2 r = ?sp"
    by (auto simp: enter_user_code_def timer_resume_def x1)
  have "exec (map Pop interrupt_regs) (exec [Mov RSP r] c2) = c2\<lparr>gpr := gpr c\<rparr>"
    by (rule resume_state [OF w2(1) r(2)]) simp
  moreover have "load64 (ram c2) (gpr c RSP + 8) = load64 (ram c) (gpr c RSP + 8)"
    by (rule words_at_load [OF w2(2), of 1]) simp_all
  ultimately have "c3 = swap_unless ?k (c2\<lparr>gpr := gpr c\<rparr>)"
    unfolding c3 r(1) exec_simps(3) by (simp add: exec_simps exec_Unless_Eq del: exec1.simps(13))
  then show ?thesis using ctx gs w2(2) by (auto simp: x1)
qed

theorem preemption_roundtrip_witness:
  "let c1 = exec timer_save sample_cpu; c2 = clobber_regs c1
   in context_at (ram c1) 0x6FFFFFFFFE88 = interrupted sample_cpu \<and>
     gpr (exec enter_user_code (c2\<lparr>gpr := (gpr c2)(RDI := 0x6FFFFFFFFE88)\<rparr>)) = gpr sample_cpu"
proof -
  let ?c1 = "exec timer_save sample_cpu"
  let ?c2 = "(clobber_regs ?c1)\<lparr>gpr := (gpr (clobber_regs ?c1))(RDI := 0x6FFFFFFFFE88)\<rparr>"
  have sp: "gpr ?c1 RSP = 0x6FFFFFFFFE88"
    by (rule timer_save_state [of sample_cpu]) (simp add: sample_cpu_def)
  show ?thesis
    using preemption_roundtrip [where c = sample_cpu and code = enter_user_code, OF refl _ _ _ _ refl, of ?c2]
    unfolding Let_def sp by (simp add: clobber_regs_def)
qed

section \<open>Cooperative switches\<close>

lemma switch_state:
  assumes "apart (gpr c RSP - 48) 48 (gpr c RDI) 56"
  obtains m where "exec switch_context_code c = c\<lparr>gpr := (\<lambda>r. case map_of (zip context_regs (words_at (ram c) (gpr c RDI) 6)) r of
      Some v \<Rightarrow> v | None \<Rightarrow> ((gpr c)(RSP := gpr c RDI + 48, RAX := gpr c RSP - 48)) r), ram := m\<rparr>"
    and "words_at m (gpr c RSP - 48) 7 = map (gpr c) context_regs @ [load64 (ram c) (gpr c RSP)]"
    and "words_at m (gpr c RDI) 7 = words_at (ram c) (gpr c RDI) 7"
proof -
  obtain m where m: "exec (map Push (rev context_regs)) c = c\<lparr>gpr := (gpr c)(RSP := gpr c RSP - 48), ram := m\<rparr>"
    "words_at m (gpr c RSP - 48) 6 = rev (map (gpr c) (rev context_regs))"
    "\<And>a. 48 \<le> a - (gpr c RSP - 48) \<Longrightarrow> m a = ram c a"
    by (rule push_regs [OF refl, of "rev context_regs" 6 48 c]) (simp_all add: context_regs_def)
  have w: "words_at m (gpr c RDI) 7 = words_at (ram c) (gpr c RDI) 7"
    using m(3) assms by (intro words_at_apart [of 48 "gpr c RSP - 48"]) simp_all
  then have w6: "words_at m (gpr c RDI) 6 = words_at (ram c) (gpr c RDI) 6"
    using words_at_append [of _ "gpr c RDI" 6 1] by (simp add: length_words_at)
  have ra: "load64 m (gpr c RSP) = load64 (ram c) (gpr c RSP)"
    using m(3) by (intro load64_apart [of 48 "gpr c RSP - 48"]) (simp_all add: apart_def)
  let ?d = "c\<lparr>gpr := (gpr c)(RAX := gpr c RSP - 48, RSP := gpr c RDI), ram := m\<rparr>"
  have "exec (map Pop context_regs) ?d = ?d\<lparr>gpr := (\<lambda>r. case map_of (zip context_regs (words_at (ram c) (gpr c RDI) 6)) r of
      Some v \<Rightarrow> v | None \<Rightarrow> ((gpr ?d)(RSP := gpr ?d RSP + 48)) r)\<rparr>"
    by (rule pop_regs [where n = 6]) (simp_all add: w6 context_regs_def)
  then have "exec switch_context_code c = c\<lparr>gpr := (\<lambda>r. case map_of (zip context_regs (words_at (ram c) (gpr c RDI) 6)) r of
      Some v \<Rightarrow> v | None \<Rightarrow> ((gpr c)(RSP := gpr c RDI + 48, RAX := gpr c RSP - 48)) r), ram := m\<rparr>"
    unfolding switch_context_code_def exec_simps(3) m(1)
    by (cases c) (simp add: exec_simps fun_upd_twist [of RAX RSP] cong: option.case_cong)
  moreover have "words_at m (gpr c RSP - 48) 7 = map (gpr c) context_regs @ [load64 (ram c) (gpr c RSP)]"
    using words_at_append [of m "gpr c RSP - 48" 6 1] m(2) ra by (simp add: words_at_Suc rev_map)
  ultimately show thesis using w by (rule that)
qed

text \<open>
  C11: \<open>switch_context\<close> is a coroutine switch. A thread that leaves through it goes on, when any other
  thread switches back to the stack pointer that it returned, exactly behind its call, with its
  stack pointer and all callee-saved registers as before and the stack pointer of the thread that
  left in \<open>rax\<close>, provided that its saved registers have not been overwritten.
\<close>

theorem context_switch_roundtrip:
  assumes c1: "c1 = exec switch_context_code c" and there: "apart (gpr c RSP - 48) 48 (gpr c RDI) 56"
    and kept: "\<And>a. a - (gpr c RSP - 48) < 56 \<Longrightarrow> ram d a = ram c1 a"
    and resumed: "gpr d RDI = gpr c1 RAX" "apart (gpr d RSP - 48) 48 (gpr d RDI) 56" and d1: "d1 = exec switch_context_code d"
  shows "(\<forall>r\<in>set callee_saved. gpr d1 r = gpr c r) \<and> gpr d1 RAX = gpr d RSP - 48 \<and>
    load64 (ram d1) (gpr d1 RSP) = load64 (ram c) (gpr c RSP)"
proof -
  let ?sp = "gpr c RSP - 48"
  obtain m where x1: "c1 = c\<lparr>gpr := (\<lambda>r. case map_of (zip context_regs (words_at (ram c) (gpr c RDI) 6)) r of
      Some v \<Rightarrow> v | None \<Rightarrow> ((gpr c)(RSP := gpr c RDI + 48, RAX := ?sp)) r), ram := m\<rparr>"
    and w: "words_at m ?sp 7 = map (gpr c) context_regs @ [load64 (ram c) (gpr c RSP)]"
    unfolding c1 by (rule switch_state [OF there])
  have rax: "gpr c1 RAX = ?sp" by (simp add: x1 context_regs_def words_at_Suc eval_nat_numeral)
  obtain m' where x2: "d1 = d\<lparr>gpr := (\<lambda>r. case map_of (zip context_regs (words_at (ram d) (gpr d RDI) 6)) r of
      Some v \<Rightarrow> v | None \<Rightarrow> ((gpr d)(RSP := gpr d RDI + 48, RAX := gpr d RSP - 48)) r), ram := m'\<rparr>"
    and w': "words_at m' (gpr d RDI) 7 = words_at (ram d) (gpr d RDI) 7"
    unfolding d1 by (rule switch_state [OF resumed(2)])
  have "words_at (ram d) ?sp 7 = words_at m ?sp 7"
    by (rule words_at_cong) (use kept in \<open>simp_all add: x1\<close>)
  then have all: "words_at (ram d) ?sp 6 @ [load64 (ram d) (gpr c RSP)] = map (gpr c) context_regs @ [load64 (ram c) (gpr c RSP)]"
    "load64 m' (gpr c RSP) = load64 (ram d) (gpr c RSP)"
    using words_at_append [of "ram d" ?sp 6 1] words_at_load [OF w', of 6 48] w by (simp_all add: words_at_Suc resumed(1) rax)
  then have "words_at (ram d) ?sp 6 = map (gpr c) context_regs" "load64 m' (gpr c RSP) = load64 (ram c) (gpr c RSP)" by simp_all
  then show ?thesis by (simp add: x2 resumed(1) rax callee_saved_def context_regs_def)
qed

theorem context_switch_roundtrip_witness:
  "let c = sample_cpu\<lparr>gpr := (gpr sample_cpu)(RDI := 0x5000)\<rparr>; c1 = exec switch_context_code c;
       d = c1\<lparr>gpr := (gpr (clobber_regs c1))(RDI := gpr c1 RAX)\<rparr>
   in gpr (exec switch_context_code d) RBX = 11 \<and> gpr (exec switch_context_code d) RSP = 0x6FFFFFFFFF00 \<and>
     gpr (exec switch_context_code d) RAX = 0x5000"
proof -
  let ?c = "sample_cpu\<lparr>gpr := (gpr sample_cpu)(RDI := 0x5000)\<rparr>"
  let ?c1 = "exec switch_context_code ?c"
  let ?d = "?c1\<lparr>gpr := (gpr (clobber_regs ?c1))(RDI := gpr ?c1 RAX)\<rparr>"
  have there: "apart (gpr ?c RSP - 48) 48 (gpr ?c RDI) 56" by (simp add: apart_def sample_cpu_def)
  have c1: "gpr ?c1 RAX = 0x6FFFFFFFFED0" "gpr ?c1 RSP = 0x5030"
    by (rule switch_state [OF there], simp add: sample_cpu_def context_regs_def words_at_Suc eval_nat_numeral)+
  show ?thesis
    using context_switch_roundtrip [OF refl there _ _ _ refl, of ?d] c1
    unfolding Let_def by (simp add: clobber_regs_def apart_def callee_saved_def sample_cpu_def)
qed

text \<open>
  The switch from a cooperative to a preemptive thread keeps the new stack pointer in \<open>r9\<close> while it calls
  \<open>after_switch\<close>. The calling convention lets \<open>after_switch\<close> change \<open>r9\<close>, and then the thread is resumed
  from a wrong address.
\<close>

lemma to_preemptive_relies_on_r9:
  "gpr (exec to_preemptive_jump (c\<lparr>gpr := (gpr c)(R9 := v)\<rparr>)) RDI = v"
  "sysv_return 0 base c (clobber_regs c)" "gpr (exec to_preemptive_jump (clobber_regs c)) RDI = 1"
  by (simp_all add: to_preemptive_jump_def exec_simps clobber_regs_sysv) (simp add: clobber_regs_def)

text \<open>
  The first switch to a new user thread. Its stack holds the initial \<open>Context\<close>: the entry point in
  the place of \<open>r12\<close>, the user stack in that of \<open>r13\<close> and the trampoline as return address. The
  trampoline passes the old stack pointer to \<open>after_switch\<close>, and entry point and user stack to
  \<open>user_trampoline_rust\<close>, because compiled code keeps \<open>r12\<close> and \<open>r13\<close>.
\<close>

lemma new_thread_enters:
  assumes "apart (gpr c RSP - 48) 48 (gpr c RDI) 56"
    and "words_at (ram c) (gpr c RDI) 7 = [0, 0, user_stack, entry, 0, 0, trampoline]"
    and d: "d = exec switch_context_code c" and ret: "sysv_return 0 base (exec thread_entry_moves d) e"
  shows "load64 (ram d) (gpr d RSP) = trampoline" "gpr (exec thread_entry_moves d) RDI = gpr c RSP - 48"
    "gpr (exec user_trampoline_moves e) RDI = entry" "gpr (exec user_trampoline_moves e) RSI = user_stack"
proof -
  obtain m where x: "d = c\<lparr>gpr := (\<lambda>r. case map_of (zip context_regs (words_at (ram c) (gpr c RDI) 6)) r of
      Some v \<Rightarrow> v | None \<Rightarrow> ((gpr c)(RSP := gpr c RDI + 48, RAX := gpr c RSP - 48)) r), ram := m\<rparr>"
    and w: "words_at m (gpr c RDI) 7 = words_at (ram c) (gpr c RDI) 7"
    unfolding d by (rule switch_state [OF assms(1)])
  have six: "words_at (ram c) (gpr c RDI) 6 = [0, 0, user_stack, entry, 0, 0]"
    using assms(2) words_at_append [of "ram c" "gpr c RDI" 6 1] by (simp add: words_at_Suc eval_nat_numeral)
  have "load64 m (gpr c RDI + 48) = trampoline"
    using w assms(2) words_at_append [of m "gpr c RDI" 6 1] by (simp add: words_at_Suc eval_nat_numeral ac_simps)
  then show "load64 (ram d) (gpr d RSP) = trampoline" by (simp add: x six context_regs_def)
  show "gpr (exec thread_entry_moves d) RDI = gpr c RSP - 48"
    by (simp add: x six context_regs_def thread_entry_moves_def exec_simps)
  have "gpr e R12 = gpr d R12" "gpr e R13 = gpr d R13"
    using ret by (simp_all add: sysv_return_def callee_saved_def thread_entry_moves_def exec_simps)
  then show "gpr (exec user_trampoline_moves e) RDI = entry" "gpr (exec user_trampoline_moves e) RSI = user_stack"
    by (simp_all add: x six context_regs_def user_trampoline_moves_def exec_simps)
qed

end
