(* ===== verification/Frame_Allocator.thy ===== *)
theory Frame_Allocator
  imports Else_Prelude
begin

text \<open>
  The physical frame allocator, \<^verbatim>\<open>kernel/src/memory/frame_allocator.rs\<close>: the bitmap with its
  bit operations, \<open>allocate_frame\<close> and \<open>deallocate_frame\<close>, the DMA pool, and \<open>init\<close>, which
  builds the bitmap from the boot loader's memory map. \<open>usize\<close> counters are naturals: they
  count frames, and the subtractions are shown never to go below zero. A \<open>PhysFrame\<close> is its
  start address. The locale \<open>bit_store\<close> is the contract of the bitmap, \<open>frame_source\<close> the
  contract of the allocator; the ELF loader, the heap and the system calls are its clients.
\<close>

section \<open>State\<close>

definition PAGE_SIZE :: u64 where "PAGE_SIZE = 4096"

record bitmap_allocator =
  bitmap :: "bytes option"
  total_frames :: nat
  free_frames :: nat
  last_alloc_idx :: nat
  bitmap_phys_addr :: u64

definition allocator_new :: bitmap_allocator where
  "allocator_new = \<lparr>bitmap = None, total_frames = 0, free_frames = 0, last_alloc_idx = 0,
     bitmap_phys_addr = 0\<rparr>"

section \<open>Bits\<close>

text \<open>The byte and bit arithmetic of \<open>set_bit\<close> and \<open>get_bit\<close> on the bitmap slice.\<close>

definition bitmap_put :: "bytes \<Rightarrow> nat \<Rightarrow> bool \<Rightarrow> bytes" where
  "bitmap_put bm frame_idx used =
     (let byte_idx = frame_idx div 8; bit_idx = frame_idx mod 8
      in if used then bm[byte_idx := bm ! byte_idx OR push_bit bit_idx 1]
         else bm[byte_idx := bm ! byte_idx AND NOT (push_bit bit_idx 1)])"

definition bitmap_test :: "bytes \<Rightarrow> nat \<Rightarrow> bool" where
  "bitmap_test bm frame_idx = ((bm ! (frame_idx div 8)) AND push_bit (frame_idx mod 8) 1 \<noteq> 0)"

definition set_bit :: "bitmap_allocator \<Rightarrow> nat \<Rightarrow> bool \<Rightarrow> panic + bitmap_allocator" where
  "set_bit a frame_idx used =
     (case bitmap a of
        None \<Rightarrow> Inr a
      | Some bm \<Rightarrow>
          if frame_idx div 8 < length bm
          then Inr (a\<lparr>bitmap := Some (bitmap_put bm frame_idx used)\<rparr>)
          else Inl Index_Out_Of_Bounds)"

definition get_bit :: "bitmap_allocator \<Rightarrow> nat \<Rightarrow> panic + bool" where
  "get_bit a frame_idx =
     (case bitmap a of
        None \<Rightarrow> Inr True
      | Some bm \<Rightarrow>
          if frame_idx div 8 < length bm then Inr (bitmap_test bm frame_idx)
          else Inl Index_Out_Of_Bounds)"

section \<open>Allocation\<close>

text \<open>The \<open>for i in 0..total\<close> scan of \<open>allocate_frame\<close>, starting at \<open>last_alloc_idx\<close>.\<close>

fun alloc_scan :: "bitmap_allocator \<Rightarrow> nat list \<Rightarrow> panic + (u64 option \<times> bitmap_allocator)" where
  "alloc_scan a [] = Inr (None, a)"
| "alloc_scan a (i # is) =
     (let idx = (last_alloc_idx a + i) mod total_frames a
      in case get_bit a idx of
           Inl p \<Rightarrow> Inl p
         | Inr True \<Rightarrow> alloc_scan a is
         | Inr False \<Rightarrow>
             (case set_bit a idx True of
                Inl p \<Rightarrow> Inl p
              | Inr a' \<Rightarrow>
                  Inr (Some (of_nat idx * PAGE_SIZE),
                       a'\<lparr>free_frames := free_frames a' - 1, last_alloc_idx := idx + 1\<rparr>)))"

definition allocate_frame :: "bitmap_allocator \<Rightarrow> panic + (u64 option \<times> bitmap_allocator)" where
  "allocate_frame a =
     (if free_frames a = 0 \<or> bitmap a = None then Inr (None, a)
      else alloc_scan a [0..<total_frames a])"

definition deallocate_frame :: "bitmap_allocator \<Rightarrow> u64 \<Rightarrow> panic + bitmap_allocator" where
  "deallocate_frame a frame =
     (let idx = unat (frame div PAGE_SIZE)
      in if idx < total_frames a
         then (case get_bit a idx of
                 Inl p \<Rightarrow> Inl p
               | Inr False \<Rightarrow> Inr a
               | Inr True \<Rightarrow>
                   (case set_bit a idx False of
                      Inl p \<Rightarrow> Inl p
                    | Inr a' \<Rightarrow> Inr (a'\<lparr>free_frames := free_frames a' + 1\<rparr>)))
         else Inr a)"

section \<open>The DMA pool\<close>

record dma_pool =
  DMA_POOL_PHYS :: u64
  DMA_POOL_USED :: u64

text \<open>The argument \<open>hhdm\<close> is \<open>hhdm_offset()\<close>, the memory is the kernel's view of it.\<close>

definition allocate_dma_frames ::
  "u64 \<Rightarrow> u64 \<Rightarrow> dma_pool \<Rightarrow> mem \<Rightarrow> u64 option \<times> dma_pool \<times> mem" where
  "allocate_dma_frames hhdm nbytes pool m =
     (let aligned = (nbytes + PAGE_SIZE - 1) AND NOT (PAGE_SIZE - 1)
      in if DMA_POOL_USED pool + aligned \<le> 65536
         then (let addr = DMA_POOL_PHYS pool + DMA_POOL_USED pool
               in (Some addr, pool\<lparr>DMA_POOL_USED := DMA_POOL_USED pool + aligned\<rparr>,
                   write_bytes m (addr + hhdm) 0 aligned))
         else (None, pool, m))"

section \<open>Initialisation from the memory map\<close>

text \<open>Entries of the Limine memory map; other entry types than the ones the code names are \<open>OTHER\<close>.\<close>

datatype entry_type =
    USABLE | BOOTLOADER_RECLAIMABLE | EXECUTABLE_AND_MODULES | ACPI_RECLAIMABLE | ACPI_NVS
  | OTHER u64

record memmap_entry =
  entry_base :: u64
  entry_length :: u64
  entry_kind :: entry_type

definition is_ram :: "entry_type \<Rightarrow> bool" where
  "is_ram t \<longleftrightarrow>
     (case t of USABLE \<Rightarrow> True | BOOTLOADER_RECLAIMABLE \<Rightarrow> True | EXECUTABLE_AND_MODULES \<Rightarrow> True
      | ACPI_RECLAIMABLE \<Rightarrow> True | ACPI_NVS \<Rightarrow> True | OTHER _ \<Rightarrow> False)"

text \<open>Step 1: the end of the last RAM entry.\<close>

fun max_phys :: "u64 \<Rightarrow> memmap_entry list \<Rightarrow> u64" where
  "max_phys m [] = m"
| "max_phys m (e # es) =
     max_phys (if is_ram (entry_kind e) \<and> entry_base e + entry_length e > m
               then entry_base e + entry_length e else m) es"

text \<open>Step 2: the first usable entry that can hold the bitmap; 0 when there is none.\<close>

fun find_bitmap_region :: "u64 \<Rightarrow> memmap_entry list \<Rightarrow> u64" where
  "find_bitmap_region sz [] = 0"
| "find_bitmap_region sz (e # es) =
     (if entry_kind e = USABLE \<and> entry_length e \<ge> sz then entry_base e
      else find_bitmap_region sz es)"

text \<open>Step 3: the frames of the usable entries are freed.\<close>

definition free_one :: "bitmap_allocator \<Rightarrow> nat \<Rightarrow> panic + bitmap_allocator" where
  "free_one a i =
     (case set_bit a i False of Inl p \<Rightarrow> Inl p
      | Inr a' \<Rightarrow> Inr (a'\<lparr>free_frames := free_frames a' + 1\<rparr>))"

definition entry_frames :: "memmap_entry \<Rightarrow> nat list" where
  "entry_frames e =
     [unat (entry_base e div PAGE_SIZE) ..< unat ((entry_base e + entry_length e) div PAGE_SIZE)]"

definition free_entry :: "bitmap_allocator \<Rightarrow> memmap_entry \<Rightarrow> panic + bitmap_allocator" where
  "free_entry a e = (if entry_kind e = USABLE then for_loop free_one a (entry_frames e) else Inr a)"

text \<open>Step 4: the frames of the bitmap are marked as used again.\<close>

definition reserve_if_free :: "bitmap_allocator \<Rightarrow> nat \<Rightarrow> panic + bitmap_allocator" where
  "reserve_if_free a i =
     (case get_bit a i of
        Inl p \<Rightarrow> Inl p
      | Inr True \<Rightarrow> Inr a
      | Inr False \<Rightarrow>
          (case set_bit a i True of Inl p \<Rightarrow> Inl p
           | Inr a' \<Rightarrow> Inr (a'\<lparr>free_frames := free_frames a' - 1\<rparr>)))"

text \<open>Step 5: the first run of \<open>dma_pages\<close> free frames; 0 when there is none.\<close>

fun dma_scan :: "bitmap_allocator \<Rightarrow> nat \<Rightarrow> nat list \<Rightarrow> nat \<Rightarrow> nat \<Rightarrow> panic + nat" where
  "dma_scan a dma_pages [] current_run run_start = Inr 0"
| "dma_scan a dma_pages (i # is) current_run run_start =
     (case get_bit a i of
        Inl p \<Rightarrow> Inl p
      | Inr True \<Rightarrow> dma_scan a dma_pages is 0 run_start
      | Inr False \<Rightarrow>
          (let rs = (if current_run = 0 then i else run_start)
           in if current_run + 1 = dma_pages then Inr rs
              else dma_scan a dma_pages is (current_run + 1) rs))"

definition reserve_one :: "bitmap_allocator \<Rightarrow> nat \<Rightarrow> panic + bitmap_allocator" where
  "reserve_one a i =
     (case set_bit a i True of Inl p \<Rightarrow> Inl p
      | Inr a' \<Rightarrow> Inr (a'\<lparr>free_frames := free_frames a' - 1\<rparr>))"

definition reserve_dma :: "bitmap_allocator \<Rightarrow> panic + (bitmap_allocator \<times> dma_pool)" where
  "reserve_dma a =
     (case dma_scan a 16 [0..<total_frames a] 0 0 of
        Inl p \<Rightarrow> Inl p
      | Inr start \<Rightarrow>
          if start \<noteq> 0
          then (case for_loop reserve_one a [start..<start + 16] of
                  Inl p \<Rightarrow> Inl p
                | Inr a' \<Rightarrow>
                    Inr (a', \<lparr>DMA_POOL_PHYS = of_nat start * PAGE_SIZE, DMA_POOL_USED = 0\<rparr>))
          else Inl (Panic ''Failed to allocate 64KB DMA pool during boot''))"

definition frame_allocator_init ::
  "bitmap_allocator \<Rightarrow> memmap_entry list \<Rightarrow> panic + (bitmap_allocator \<times> dma_pool)" where
  "frame_allocator_init a0 entries =
     (let max_phys_addr = max_phys 0 entries;
          total = unat (max_phys_addr div PAGE_SIZE);
          bitmap_size_bytes = (total + 7) div 8;
          bphys = find_bitmap_region (of_nat bitmap_size_bytes) entries
      in if bphys = 0
         then Inl (Panic ''Failed to find a memory region large enough for the bitmap'')
         else (let a = a0\<lparr>bitmap := Some (replicate bitmap_size_bytes 0xFF), total_frames := total,
                          free_frames := 0, bitmap_phys_addr := bphys\<rparr>
               in case for_loop free_entry a entries of
                    Inl p \<Rightarrow> Inl p
                  | Inr a1 \<Rightarrow>
                      (let bstart = unat (bphys div PAGE_SIZE);
                           bend = unat ((bphys + of_nat bitmap_size_bytes + PAGE_SIZE - 1) div PAGE_SIZE)
                       in case for_loop reserve_if_free a1 [bstart..<bend] of
                            Inl p \<Rightarrow> Inl p
                          | Inr a2 \<Rightarrow> reserve_dma a2)))"

section \<open>The contract of the bitmap\<close>

locale bit_store =
  fixes test :: "'b \<Rightarrow> nat \<Rightarrow> bool"
    and put :: "'b \<Rightarrow> nat \<Rightarrow> bool \<Rightarrow> 'b"
    and size :: "'b \<Rightarrow> nat"
  assumes test_put: "i < size b \<Longrightarrow> test (put b i v) j = (if j = i then v else test b j)"
    and size_put: "size (put b i v) = size b"
begin

lemma clear_bits_put_True:
  "i < size b \<Longrightarrow> {j. j < n \<and> \<not> test (put b i True) j} = {j. j < n \<and> \<not> test b j} - {i}"
  by (auto simp: test_put)

lemma clear_bits_put_False:
  "i < size b \<Longrightarrow> i < n \<Longrightarrow>
     {j. j < n \<and> \<not> test (put b i False) j} = insert i {j. j < n \<and> \<not> test b j}"
  by (auto simp: test_put split: if_splits)

end

lemma bitmap_test_bit: "bitmap_test bm i = bit (bm ! (i div 8)) (i mod 8)"
  by (simp add: bitmap_test_def push_bit_eq_mult and_exp_eq_0_iff_not_bit)

interpretation bm: bit_store bitmap_test bitmap_put "\<lambda>bm. 8 * length bm"
proof unfold_locales
  fix i :: nat and b :: bytes and v j
  assume "i < 8 * length b"
  then have i: "i div 8 < length b" by auto
  show "bitmap_test (bitmap_put b i v) j = (if j = i then v else bitmap_test b j)"
  proof (cases "j div 8 = i div 8")
    case True
    then have "j = i \<longleftrightarrow> j mod 8 = i mod 8" by (metis div_mult_mod_eq)
    then show ?thesis
      using i True by (auto simp: bitmap_test_bit bitmap_put_def Let_def bit_simps)
  next
    case False
    then have "j \<noteq> i" by auto
    with False show ?thesis by (simp add: bitmap_test_bit bitmap_put_def Let_def)
  qed
qed (simp add: bitmap_put_def Let_def)

section \<open>Abstract view: the set of free frames\<close>

definition free_idx :: "bitmap_allocator \<Rightarrow> nat set" where
  "free_idx a = (case bitmap a of None \<Rightarrow> {} | Some bm \<Rightarrow> {j. j < total_frames a \<and> \<not> bitmap_test bm j})"

definition frame_addr :: "nat \<Rightarrow> u64" where
  "frame_addr i = of_nat i * PAGE_SIZE"

definition free_addrs :: "bitmap_allocator \<Rightarrow> u64 set" where
  "free_addrs a = frame_addr ` free_idx a"

text \<open>
  The invariant: the bitmap covers every frame, the counter is the number of clear bits,
  and frame addresses fit into 64 bits.
\<close>

definition alloc_inv :: "bitmap_allocator \<Rightarrow> bool" where
  "alloc_inv a \<longleftrightarrow>
     (case bitmap a of None \<Rightarrow> total_frames a = 0 | Some bm \<Rightarrow> total_frames a \<le> 8 * length bm) \<and>
     free_frames a = card (free_idx a) \<and> total_frames a \<le> 2 ^ 52"

lemma free_idx_Some: "bitmap a = Some bm \<Longrightarrow> free_idx a = {j. j < total_frames a \<and> \<not> bitmap_test bm j}"
  by (simp add: free_idx_def)

lemma finite_free_idx [simp]: "finite (free_idx a)"
  by (simp add: free_idx_def split: option.split)

lemma free_idx_bound: "i \<in> free_idx a \<Longrightarrow> i < total_frames a"
  by (auto simp: free_idx_def split: option.splits)

lemma alloc_inv_new: "alloc_inv allocator_new"
  by (simp add: alloc_inv_def allocator_new_def free_idx_def)

lemma unat_frame_addr: "i < 2 ^ 52 \<Longrightarrow> unat (frame_addr i) = i * 4096"
  by (simp add: frame_addr_def PAGE_SIZE_def unat_word_ariths unat_of_nat)

lemma frame_addr_inj: "i < 2 ^ 52 \<Longrightarrow> j < 2 ^ 52 \<Longrightarrow> frame_addr i = frame_addr j \<Longrightarrow> i = j"
  by (metis mult_cancel2 unat_frame_addr zero_neq_numeral)

lemma frame_addr_idx: "i < 2 ^ 52 \<Longrightarrow> unat (frame_addr i div PAGE_SIZE) = i"
  by (simp add: unat_div unat_frame_addr PAGE_SIZE_def)

lemma free_addrs_remove:
  assumes "alloc_inv a" and "i \<in> free_idx a" and "free_idx a' = free_idx a - {i}"
  shows "free_addrs a' = free_addrs a - {frame_addr i}"
proof -
  have "i' < 2 ^ 52" if "i' \<in> free_idx a" for i'
    using free_idx_bound [OF that] assms(1) by (simp add: alloc_inv_def)
  then have "inj_on frame_addr (free_idx a)"
    by (auto intro!: inj_onI frame_addr_inj)
  then show ?thesis
    using assms(2,3) by (simp add: free_addrs_def inj_on_image_set_diff)
qed

section \<open>Bit operations under the invariant\<close>

lemma get_bit_ok:
  "bitmap a = Some bm \<Longrightarrow> i < 8 * length bm \<Longrightarrow> get_bit a i = Inr (bitmap_test bm i)"
  by (auto simp: get_bit_def)

lemma set_bit_ok:
  "bitmap a = Some bm \<Longrightarrow> i < 8 * length bm \<Longrightarrow>
     set_bit a i v = Inr (a\<lparr>bitmap := Some (bitmap_put bm i v)\<rparr>)"
  by (auto simp: set_bit_def)

text \<open>Taking a free frame and returning a used one keep the counter exact.\<close>

lemma alloc_inv_take:
  assumes inv: "alloc_inv a" and bm: "bitmap a = Some bm" and i: "i \<in> free_idx a"
    and a': "a' = a\<lparr>bitmap := Some (bitmap_put bm i True), free_frames := free_frames a - 1, last_alloc_idx := l\<rparr>"
  shows "alloc_inv a'" and "free_idx a' = free_idx a - {i}" and "total_frames a' = total_frames a"
proof -
  from inv bm free_idx_bound [OF i] have sz: "i < 8 * length bm"
    by (auto simp: alloc_inv_def)
  show free: "free_idx a' = free_idx a - {i}"
    using bm.clear_bits_put_True [OF sz, of "total_frames a"]
    by (simp add: a' free_idx_def bm)
  show "total_frames a' = total_frames a" by (simp add: a')
  from inv bm have "free_frames a' = card (free_idx a')"
    unfolding free using i by (simp add: a' alloc_inv_def)
  with inv bm show "alloc_inv a'"
    by (simp add: alloc_inv_def a' bm.size_put)
qed

lemma alloc_inv_give:
  assumes inv: "alloc_inv a" and bm: "bitmap a = Some bm" and i: "i < total_frames a" "i \<notin> free_idx a"
    and a': "a' = a\<lparr>bitmap := Some (bitmap_put bm i False), free_frames := free_frames a + 1\<rparr>"
  shows "alloc_inv a'" and "free_idx a' = insert i (free_idx a)" and "total_frames a' = total_frames a"
proof -
  from inv bm i have sz: "i < 8 * length bm"
    by (auto simp: alloc_inv_def)
  show free: "free_idx a' = insert i (free_idx a)"
    using bm.clear_bits_put_False [OF sz i(1)]
    by (simp add: a' free_idx_def bm)
  show "total_frames a' = total_frames a" by (simp add: a')
  from inv bm have "free_frames a' = card (free_idx a')"
    unfolding free using i by (simp add: a' alloc_inv_def)
  with inv bm show "alloc_inv a'"
    by (simp add: alloc_inv_def a' bm.size_put)
qed

section \<open>Allocation and deallocation\<close>

lemma alloc_scan_find:
  assumes "bitmap a = Some bm" and "total_frames a \<le> 8 * length bm" and "0 < total_frames a"
  shows "alloc_scan a is =
     (case find (\<lambda>i. \<not> bitmap_test bm ((last_alloc_idx a + i) mod total_frames a)) is of
        None \<Rightarrow> Inr (None, a)
      | Some i \<Rightarrow>
          (let idx = (last_alloc_idx a + i) mod total_frames a
           in Inr (Some (frame_addr idx),
                   a\<lparr>bitmap := Some (bitmap_put bm idx True), free_frames := free_frames a - 1,
                     last_alloc_idx := idx + 1\<rparr>)))"
proof (induction "is")
  case (Cons i "is")
  have "(last_alloc_idx a + i) mod total_frames a < 8 * length bm"
    using assms(2,3) by (meson mod_less_divisor order_less_le_trans)
  with assms(1) show ?case
    by (simp add: Cons.IH Let_def get_bit_ok set_bit_ok frame_addr_def)
qed simp

lemma scan_reaches:
  fixes j n l :: nat
  assumes "j < n"
  shows "\<exists>i < n. (l + i) mod n = j"
proof -
  have "(l + (j + (n - l mod n)) mod n) mod n = j"
  proof -
    have "(l + (j + (n - l mod n)) mod n) mod n = (l mod n + (j + (n - l mod n))) mod n"
      by (simp add: mod_simps)
    also have "l mod n + (j + (n - l mod n)) = j + n"
      using assms mod_less_divisor [of n l] by linarith
    finally show ?thesis using assms by simp
  qed
  moreover have "(j + (n - l mod n)) mod n < n" using assms by simp
  ultimately show ?thesis by blast
qed

text \<open>The scan starts at \<open>last_alloc_idx\<close> and returns the first free frame in cyclic order.\<close>

lemma allocate_frame_cases:
  assumes inv: "alloc_inv a"
  shows "(free_idx a = {} \<and> allocate_frame a = Inr (None, a)) \<or>
    (\<exists>i a'. let idx = (last_alloc_idx a + i) mod total_frames a in
       i < total_frames a \<and> idx \<in> free_idx a \<and>
       (\<forall>k < i. (last_alloc_idx a + k) mod total_frames a \<notin> free_idx a) \<and>
       allocate_frame a = Inr (Some (frame_addr idx), a') \<and>
       alloc_inv a' \<and> free_idx a' = free_idx a - {idx} \<and> total_frames a' = total_frames a \<and>
       bitmap a' \<noteq> None \<and> last_alloc_idx a' = idx + 1)"
proof (cases "free_idx a = {}")
  case True
  with inv have "free_frames a = 0" by (simp add: alloc_inv_def)
  with True show ?thesis by (simp add: allocate_frame_def)
next
  case False
  then obtain j where j: "j \<in> free_idx a" by blast
  then obtain bm where bm: "bitmap a = Some bm"
    by (auto simp: free_idx_def split: option.splits)
  let ?idx = "\<lambda>i. (last_alloc_idx a + i) mod total_frames a"
  let ?P = "\<lambda>i. \<not> bitmap_test bm (?idx i)"
  from free_idx_bound [OF j] have tot: "0 < total_frames a" by simp
  with inv bm have sz: "total_frames a \<le> 8 * length bm" by (simp add: alloc_inv_def)
  from False inv have nz: "free_frames a \<noteq> 0" by (simp add: alloc_inv_def)
  have free_P: "?idx i \<in> free_idx a \<longleftrightarrow> ?P i" for i
    using tot by (simp add: free_idx_Some [OF bm])
  obtain i0 where "i0 < total_frames a" "?idx i0 = j"
    using scan_reaches [OF free_idx_bound [OF j]] by blast
  with j have "\<exists>i \<in> set [0..<total_frames a]. ?P i"
    using free_P [of i0] by auto
  then obtain i where f: "find ?P [0..<total_frames a] = Some i"
    by (metis (mono_tags, lifting) find_None_iff2 option.exhaust)
  then have i: "i < total_frames a" "?P i" "\<forall>k < i. \<not> ?P k"
    by (auto simp: find_Some_iff nth_upt)
  let ?a' = "a\<lparr>bitmap := Some (bitmap_put bm (?idx i) True), free_frames := free_frames a - 1,
               last_alloc_idx := ?idx i + 1\<rparr>"
  from i(2) have fi: "?idx i \<in> free_idx a" by (simp add: free_P)
  have "allocate_frame a = Inr (Some (frame_addr (?idx i)), ?a')"
    using bm nz f by (simp add: allocate_frame_def alloc_scan_find [OF bm sz tot] Let_def)
  moreover note alloc_inv_take [OF inv bm fi refl, of "?idx i + 1"]
  moreover have "\<forall>k < i. ?idx k \<notin> free_idx a" using i(3) by (simp add: free_P)
  ultimately show ?thesis
    using i(1) fi by (intro disjI2 exI [of _ i] exI [of _ ?a']) (simp add: Let_def)
qed

lemma deallocate_frame_cases:
  assumes inv: "alloc_inv a"
  shows "\<exists>a'. deallocate_frame a f = Inr a' \<and> alloc_inv a' \<and> total_frames a' = total_frames a \<and>
    free_idx a' = (if unat (f div PAGE_SIZE) < total_frames a
                   then insert (unat (f div PAGE_SIZE)) (free_idx a) else free_idx a)"
proof (cases "unat (f div PAGE_SIZE) < total_frames a")
  case False
  with inv show ?thesis by (simp add: deallocate_frame_def)
next
  case True
  show ?thesis
  proof (cases "bitmap a")
    case None
    with True inv show ?thesis by (simp add: alloc_inv_def)
  next
    case (Some bm)
    let ?i = "unat (f div PAGE_SIZE)"
    from inv Some True have sz: "?i < 8 * length bm" by (auto simp: alloc_inv_def)
    show ?thesis
    proof (cases "bitmap_test bm ?i")
      case False
      then have "?i \<in> free_idx a" using True by (simp add: free_idx_Some [OF Some])
      then show ?thesis
        using False True Some inv sz
        by (simp add: deallocate_frame_def get_bit_ok insert_absorb)
    next
      case used: True
      then have "?i \<notin> free_idx a" by (simp add: free_idx_Some [OF Some])
      from alloc_inv_give [OF inv Some True this refl] used True Some sz show ?thesis
        by (simp add: deallocate_frame_def get_bit_ok set_bit_ok)
    qed
  qed
qed

lemma deallocate_frame_noop:
  assumes inv: "alloc_inv a"
    and g: "unat (g div PAGE_SIZE) \<in> free_idx a \<or> total_frames a \<le> unat (g div PAGE_SIZE)"
  shows "deallocate_frame a g = Inr a"
proof (cases "unat (g div PAGE_SIZE) < total_frames a")
  case False
  then show ?thesis by (simp add: deallocate_frame_def)
next
  case True
  with g have i: "unat (g div PAGE_SIZE) \<in> free_idx a" by simp
  then obtain bm where bm: "bitmap a = Some bm" by (auto simp: free_idx_def split: option.splits)
  with inv True have "unat (g div PAGE_SIZE) < 8 * length bm" by (simp add: alloc_inv_def)
  with i True show ?thesis
    by (simp add: deallocate_frame_def get_bit_ok [OF bm] free_idx_Some [OF bm])
qed

section \<open>The contract of the allocator\<close>

text \<open>A generic client: \<open>n\<close> allocations in a row, each followed by \<open>expect\<close>.\<close>

fun alloc_many :: "('s \<Rightarrow> panic + (u64 option \<times> 's)) \<Rightarrow> nat \<Rightarrow> 's \<Rightarrow> panic + (u64 list \<times> 's)" where
  "alloc_many alloc 0 s = Inr ([], s)"
| "alloc_many alloc (Suc n) s =
     (case alloc s of
        Inl p \<Rightarrow> Inl p
      | Inr (None, s') \<Rightarrow> Inl Unwrap_None
      | Inr (Some f, s') \<Rightarrow>
          (case alloc_many alloc n s' of Inl p \<Rightarrow> Inl p | Inr (fs, s'') \<Rightarrow> Inr (f # fs, s'')))"

locale frame_source =
  fixes ok :: "'s \<Rightarrow> bool"
    and free :: "'s \<Rightarrow> u64 set"
    and managed :: "'s \<Rightarrow> u64 set"
    and alloc :: "'s \<Rightarrow> panic + (u64 option \<times> 's)"
    and give :: "'s \<Rightarrow> u64 \<Rightarrow> panic + 's"
  assumes finite_free: "ok s \<Longrightarrow> finite (free s)"
    and free_managed: "ok s \<Longrightarrow> free s \<subseteq> managed s"
    and alloc_total: "ok s \<Longrightarrow> \<exists>r s'. alloc s = Inr (r, s') \<and> ok s' \<and> managed s' = managed s"
    and alloc_Some: "ok s \<Longrightarrow> alloc s = Inr (Some f, s') \<Longrightarrow> f \<in> free s \<and> free s' = free s - {f}"
    and alloc_None: "ok s \<Longrightarrow> alloc s = Inr (None, s') \<Longrightarrow> free s = {} \<and> s' = s"
    and give_managed: "ok s \<Longrightarrow> f \<in> managed s \<Longrightarrow>
          \<exists>s'. give s f = Inr s' \<and> ok s' \<and> managed s' = managed s \<and> free s' = insert f (free s)"
begin

lemma alloc_nonempty:
  assumes "ok s" and "free s \<noteq> {}"
  shows "\<exists>f s'. alloc s = Inr (Some f, s') \<and> ok s' \<and> managed s' = managed s \<and>
           f \<in> free s \<and> free s' = free s - {f}"
proof -
  obtain r s' where a: "alloc s = Inr (r, s')" "ok s'" "managed s' = managed s"
    using alloc_total [OF assms(1)] by blast
  then show ?thesis
    using alloc_None [OF assms(1)] alloc_Some [OF assms(1)] assms(2) by (cases r) blast+
qed

lemma alloc_many_enough:
  "ok s \<Longrightarrow> n \<le> card (free s) \<Longrightarrow>
     \<exists>fs s'. alloc_many alloc n s = Inr (fs, s') \<and> length fs = n \<and> distinct fs \<and>
       set fs \<subseteq> free s \<and> free s' = free s - set fs \<and> ok s' \<and> managed s' = managed s"
proof (induction n arbitrary: s)
  case (Suc n)
  then have "free s \<noteq> {}" by auto
  then obtain f s1 where a: "alloc s = Inr (Some f, s1)" "ok s1" "managed s1 = managed s"
      "f \<in> free s" "free s1 = free s - {f}"
    using alloc_nonempty [OF Suc.prems(1)] by blast
  then have "n \<le> card (free s1)"
    using Suc.prems finite_free [OF Suc.prems(1)] by simp
  then obtain fs s2 where "alloc_many alloc n s1 = Inr (fs, s2)" "length fs = n" "distinct fs"
      "set fs \<subseteq> free s1" "free s2 = free s1 - set fs" "ok s2" "managed s2 = managed s1"
    using Suc.IH [OF a(2)] by blast
  with a show ?case by auto
qed simp

lemma alloc_many_short:
  "ok s \<Longrightarrow> card (free s) < n \<Longrightarrow> alloc_many alloc n s = Inl Unwrap_None"
proof (induction n arbitrary: s)
  case (Suc n)
  show ?case
  proof (cases "free s = {}")
    case True
    then show ?thesis
      using alloc_total [OF Suc.prems(1)] alloc_Some [OF Suc.prems(1)]
      by (auto split: sum.splits option.splits)
  next
    case False
    then obtain f s1 where a: "alloc s = Inr (Some f, s1)" "ok s1" "f \<in> free s" "free s1 = free s - {f}"
      using alloc_nonempty [OF Suc.prems(1)] by blast
    then have "card (free s1) < n"
      using Suc.prems finite_free [OF Suc.prems(1)] card_gt_0_iff [of "free s"] False by auto
    with Suc.IH a show ?thesis by simp
  qed
qed simp

lemma alloc_give_back:
  assumes "ok s" and "alloc s = Inr (Some f, s1)"
  shows "\<exists>s2. give s1 f = Inr s2 \<and> ok s2 \<and> free s2 = free s"
proof -
  from alloc_Some [OF assms] have f: "f \<in> free s" "free s1 = free s - {f}" by auto
  from alloc_total [OF assms(1)] assms(2) have "ok s1" "managed s1 = managed s" by auto
  with f free_managed [OF assms(1)] show ?thesis
    using give_managed [of s1 f] by (auto simp: insert_absorb)
qed

end

definition managed_addrs :: "bitmap_allocator \<Rightarrow> u64 set" where
  "managed_addrs a = frame_addr ` {..<total_frames a}"

interpretation fa: frame_source alloc_inv free_addrs managed_addrs allocate_frame deallocate_frame
proof unfold_locales
  fix s :: bitmap_allocator assume ok: "alloc_inv s"
  show "finite (free_addrs s)" by (simp add: free_addrs_def)
  show "free_addrs s \<subseteq> managed_addrs s"
    by (auto simp: free_addrs_def managed_addrs_def dest: free_idx_bound)
  show "\<exists>r s'. allocate_frame s = Inr (r, s') \<and> alloc_inv s' \<and> managed_addrs s' = managed_addrs s"
    using allocate_frame_cases [OF ok] ok by (auto simp: managed_addrs_def Let_def)
next
  fix s f s' assume ok: "alloc_inv s" and r: "allocate_frame s = Inr (Some f, s')"
  from allocate_frame_cases [OF ok] r obtain i where
    i: "i \<in> free_idx s" "f = frame_addr i" "free_idx s' = free_idx s - {i}"
    by (auto simp: Let_def)
  with free_addrs_remove [OF ok i(1,3)] show "f \<in> free_addrs s \<and> free_addrs s' = free_addrs s - {f}"
    by (simp add: free_addrs_def)
next
  fix s s' assume ok: "alloc_inv s" and r: "allocate_frame s = Inr (None, s')"
  from allocate_frame_cases [OF ok] r show "free_addrs s = {} \<and> s' = s"
    by (auto simp: Let_def free_addrs_def)
next
  fix s f assume ok: "alloc_inv s" and "f \<in> managed_addrs s"
  then obtain i where i: "f = frame_addr i" "i < total_frames s"
    by (auto simp: managed_addrs_def)
  from ok i(2) have "i < 2 ^ 52" by (simp add: alloc_inv_def)
  then have "unat (f div PAGE_SIZE) = i" unfolding i(1) by (rule frame_addr_idx)
  with deallocate_frame_cases [OF ok, of f] i
  show "\<exists>s'. deallocate_frame s f = Inr s' \<and> alloc_inv s' \<and> managed_addrs s' = managed_addrs s \<and>
          free_addrs s' = insert f (free_addrs s)"
    by (auto simp: managed_addrs_def free_addrs_def)
qed

section \<open>Initialisation\<close>

text \<open>
  What the boot loader guarantees about its memory map (the Limine protocol): usable
  entries are page aligned, no entry wraps around, and usable entries do not overlap.
\<close>

definition usable_frames :: "memmap_entry list \<Rightarrow> nat list" where
  "usable_frames es = concat (map entry_frames (filter (\<lambda>e. entry_kind e = USABLE) es))"

definition wf_memmap :: "memmap_entry list \<Rightarrow> bool" where
  "wf_memmap es \<longleftrightarrow>
     (\<forall>e \<in> set es. unat (entry_base e) + unat (entry_length e) < 2 ^ 64 \<and>
        (entry_kind e = USABLE \<longrightarrow>
           unat (entry_base e) mod 4096 = 0 \<and> unat (entry_length e) mod 4096 = 0)) \<and>
     distinct (usable_frames es)"

lemma usable_frames_simps [simp]:
  "usable_frames [] = []"
  "usable_frames (e # es) = (if entry_kind e = USABLE then entry_frames e else []) @ usable_frames es"
  by (simp_all add: usable_frames_def)

lemma free_one_loop:
  "alloc_inv a \<Longrightarrow> bitmap a \<noteq> None \<Longrightarrow> distinct xs \<Longrightarrow> set xs \<inter> free_idx a = {} \<Longrightarrow>
   \<forall>i \<in> set xs. i < total_frames a \<Longrightarrow>
     \<exists>a'. for_loop free_one a xs = Inr a' \<and> alloc_inv a' \<and> bitmap a' \<noteq> None \<and>
       total_frames a' = total_frames a \<and> free_idx a' = free_idx a \<union> set xs"
proof (induction xs arbitrary: a)
  case (Cons i xs)
  then obtain bm where bm: "bitmap a = Some bm" by blast
  let ?a = "a\<lparr>bitmap := Some (bitmap_put bm i False), free_frames := free_frames a + 1\<rparr>"
  have "i < 8 * length bm" using Cons.prems bm by (auto simp: alloc_inv_def)
  then have step: "free_one a i = Inr ?a" by (simp add: free_one_def set_bit_ok [OF bm])
  have g: "alloc_inv ?a" "free_idx ?a = insert i (free_idx a)" "total_frames ?a = total_frames a"
    using alloc_inv_give [OF Cons.prems(1) bm _ _ refl, of i] Cons.prems by auto
  with Cons.IH [of ?a] Cons.prems step show ?case by auto
qed simp

lemma free_entry_loop:
  "alloc_inv a \<Longrightarrow> bitmap a \<noteq> None \<Longrightarrow> distinct (usable_frames es) \<Longrightarrow>
   set (usable_frames es) \<inter> free_idx a = {} \<Longrightarrow> \<forall>i \<in> set (usable_frames es). i < total_frames a \<Longrightarrow>
     \<exists>a'. for_loop free_entry a es = Inr a' \<and> alloc_inv a' \<and> bitmap a' \<noteq> None \<and>
       total_frames a' = total_frames a \<and> free_idx a' = free_idx a \<union> set (usable_frames es)"
proof (induction es arbitrary: a)
  case (Cons e es)
  show ?case
  proof (cases "entry_kind e = USABLE")
    case True
    with Cons.prems obtain a1 where a1: "for_loop free_one a (entry_frames e) = Inr a1"
        "alloc_inv a1" "bitmap a1 \<noteq> None" "total_frames a1 = total_frames a"
        "free_idx a1 = free_idx a \<union> set (entry_frames e)"
      using free_one_loop [of a "entry_frames e"] by auto
    moreover have "set (usable_frames es) \<inter> free_idx a1 = {}"
      using Cons.prems True a1(5) by auto
    ultimately show ?thesis
      using Cons.IH [of a1] Cons.prems True by (auto simp: free_entry_def)
  next
    case False
    with Cons show ?thesis by (simp add: free_entry_def)
  qed
qed simp

lemma reserve_if_free_loop:
  "alloc_inv a \<Longrightarrow> bitmap a \<noteq> None \<Longrightarrow> \<forall>i \<in> set xs. i < total_frames a \<Longrightarrow>
     \<exists>a'. for_loop reserve_if_free a xs = Inr a' \<and> alloc_inv a' \<and> bitmap a' \<noteq> None \<and>
       total_frames a' = total_frames a \<and> free_idx a' = free_idx a - set xs"
proof (induction xs arbitrary: a)
  case (Cons i xs)
  then obtain bm where bm: "bitmap a = Some bm" by blast
  have sz: "i < 8 * length bm" using Cons.prems bm by (auto simp: alloc_inv_def)
  have "\<exists>a1. reserve_if_free a i = Inr a1 \<and> alloc_inv a1 \<and> bitmap a1 \<noteq> None \<and>
          total_frames a1 = total_frames a \<and> free_idx a1 = free_idx a - {i}"
  proof (cases "bitmap_test bm i")
    case True
    then have "i \<notin> free_idx a" by (simp add: free_idx_Some [OF bm])
    with True Cons.prems show ?thesis by (simp add: reserve_if_free_def get_bit_ok [OF bm sz])
  next
    case False
    with Cons.prems have i: "i \<in> free_idx a" by (simp add: free_idx_Some [OF bm])
    from alloc_inv_take [OF Cons.prems(1) bm i refl, of "last_alloc_idx a"] False show ?thesis
      by (simp add: reserve_if_free_def get_bit_ok [OF bm sz] set_bit_ok [OF bm sz])
  qed
  then obtain a1 where a1: "reserve_if_free a i = Inr a1" "alloc_inv a1" "bitmap a1 \<noteq> None"
      "total_frames a1 = total_frames a" "free_idx a1 = free_idx a - {i}" by blast
  with Cons.IH [of a1] Cons.prems show ?case by auto
qed simp

lemma reserve_one_loop:
  "alloc_inv a \<Longrightarrow> bitmap a \<noteq> None \<Longrightarrow> distinct xs \<Longrightarrow> set xs \<subseteq> free_idx a \<Longrightarrow>
     \<exists>a'. for_loop reserve_one a xs = Inr a' \<and> alloc_inv a' \<and> bitmap a' \<noteq> None \<and>
       total_frames a' = total_frames a \<and> free_idx a' = free_idx a - set xs"
proof (induction xs arbitrary: a)
  case (Cons i xs)
  then obtain bm where bm: "bitmap a = Some bm" by blast
  have i: "i \<in> free_idx a" using Cons.prems by simp
  have sz: "i < 8 * length bm"
    using Cons.prems(1) bm free_idx_bound [OF i] by (auto simp: alloc_inv_def)
  let ?a = "a\<lparr>bitmap := Some (bitmap_put bm i True), free_frames := free_frames a - 1\<rparr>"
  have step: "reserve_one a i = Inr ?a" by (simp add: reserve_one_def set_bit_ok [OF bm sz])
  have g: "alloc_inv ?a" "free_idx ?a = free_idx a - {i}" "total_frames ?a = total_frames a"
    using alloc_inv_take [OF Cons.prems(1) bm i refl, of "last_alloc_idx a"] by simp_all
  then have "set xs \<subseteq> free_idx ?a" using Cons.prems by auto
  with Cons.IH [of ?a] g Cons.prems step show ?case by auto
qed simp

lemma dma_scan_run:
  assumes inv: "alloc_inv a" and some: "bitmap a = Some bm"
  shows "[i..<total_frames a] = xs \<Longrightarrow>
     0 < run \<longrightarrow> rs + run = i \<and> {rs..<i} \<subseteq> free_idx a \<Longrightarrow> run < n \<Longrightarrow>
     \<exists>st. dma_scan a n xs run rs = Inr st \<and> (st = 0 \<or> {st..<st + n} \<subseteq> free_idx a)"
proof (induction xs arbitrary: i run rs)
  case (Cons x xs)
  have x: "x = i" and xs: "[Suc i..<total_frames a] = xs" and i: "i < total_frames a"
    using upt_eq_Cons_conv [THEN iffD1, OF Cons.prems(1)] by auto
  have sz: "i < 8 * length bm" using inv some i by (auto simp: alloc_inv_def)
  note get = get_bit_ok [OF some sz]
  show ?case
  proof (cases "bitmap_test bm i")
    case True
    then show ?thesis
      using Cons.IH [OF xs, of 0 rs] Cons.prems(3) by (simp add: x get)
  next
    case False
    with i have fi: "i \<in> free_idx a" by (simp add: free_idx_Some [OF some])
    define rs' where "rs' = (if run = 0 then i else rs)"
    have run: "rs' + Suc run = Suc i" "{rs'..<Suc i} \<subseteq> free_idx a"
      using Cons.prems(2) fi by (auto simp: rs'_def less_Suc_eq)
    have step: "dma_scan a n (x # xs) run rs =
        (if Suc run = n then Inr rs' else dma_scan a n xs (Suc run) rs')"
      using False by (simp add: x get rs'_def Let_def)
    show ?thesis
    proof (cases "Suc run = n")
      case True
      with run show ?thesis unfolding step by simp
    next
      case neq: False
      with Cons.IH [OF xs, of "Suc run" rs'] run Cons.prems(3) show ?thesis
        unfolding step by simp
    qed
  qed
qed simp

lemma max_phys_ge:
  "m \<le> max_phys m es \<and>
   (\<forall>e \<in> set es. is_ram (entry_kind e) \<longrightarrow> entry_base e + entry_length e \<le> max_phys m es)"
proof (induction es arbitrary: m)
  case (Cons e es)
  let ?m = "if is_ram (entry_kind e) \<and> entry_base e + entry_length e > m
            then entry_base e + entry_length e else m"
  have "m \<le> ?m" "is_ram (entry_kind e) \<longrightarrow> entry_base e + entry_length e \<le> ?m" by auto
  with Cons.IH [of ?m] have "m \<le> max_phys ?m es"
    and "is_ram (entry_kind e) \<longrightarrow> entry_base e + entry_length e \<le> max_phys ?m es"
    by (meson order_trans)+
  with Cons.IH [of ?m] show ?case by simp
qed simp

lemma find_bitmap_region_found:
  "find_bitmap_region sz es \<noteq> 0 \<Longrightarrow>
     \<exists>e \<in> set es. entry_kind e = USABLE \<and> sz \<le> entry_length e \<and> find_bitmap_region sz es = entry_base e"
  by (induction es) (auto split: if_splits)

lemma unat_div_page: "unat (x div PAGE_SIZE) = unat x div 4096"
  by (simp add: unat_div PAGE_SIZE_def)

lemma entry_frames_below:
  assumes "e \<in> set es" and "entry_kind e = USABLE" and "i \<in> set (entry_frames e)"
  shows "i < unat (max_phys 0 es div PAGE_SIZE)"
proof -
  from max_phys_ge [of 0 es] assms(1,2)
  have "unat (entry_base e + entry_length e) \<le> unat (max_phys 0 es)"
    by (auto simp: is_ram_def word_le_nat_alt)
  then have "unat (entry_base e + entry_length e) div 4096 \<le> unat (max_phys 0 es) div 4096"
    by (rule div_le_mono)
  with assms(3) show ?thesis by (simp add: entry_frames_def unat_div_page)
qed

lemma usable_frames_below:
  "i \<in> set (usable_frames es) \<Longrightarrow> i < unat (max_phys 0 es div PAGE_SIZE)"
  using entry_frames_below [of _ es i] by (auto simp: usable_frames_def)

lemma fresh_bitmap_full: "j < 8 * n \<Longrightarrow> bitmap_test (replicate n 0xFF) j"
proof -
  assume "j < 8 * n"
  then have "j div 8 < n" by auto
  moreover have "bit (0xFF :: u8) k" if "k < 8" for k
  proof -
    have "bit (mask 8 :: u8) k" using that by (simp only: bit_mask_iff) simp
    then show ?thesis by (simp add: mask_eq_exp_minus_1)
  qed
  ultimately show ?thesis by (simp add: bitmap_test_bit)
qed

text \<open>The frames that hold the bitmap itself.\<close>

definition bitmap_frames :: "u64 \<Rightarrow> nat \<Rightarrow> nat set" where
  "bitmap_frames phys size_bytes =
     {unat (phys div PAGE_SIZE) ..< unat ((phys + of_nat size_bytes + PAGE_SIZE - 1) div PAGE_SIZE)}"

lemma bitmap_frames_below:
  assumes wf: "wf_memmap es" and nz: "find_bitmap_region (of_nat sz) es \<noteq> 0" and sz: "sz < 2 ^ 64"
    and i: "i \<in> bitmap_frames (find_bitmap_region (of_nat sz) es) sz"
  shows "i \<in> set (usable_frames es)"
proof -
  from find_bitmap_region_found [OF nz] obtain e where e: "e \<in> set es" "entry_kind e = USABLE"
    "of_nat sz \<le> entry_length e" "find_bitmap_region (of_nat sz) es = entry_base e" by blast
  let ?b = "unat (entry_base e)" and ?l = "unat (entry_length e)"
  from wf e have w: "?b + ?l < 2 ^ 64" "?b mod 4096 = 0" "?l mod 4096 = 0"
    by (auto simp: wf_memmap_def)
  have szl: "sz \<le> ?l" using e(3) sz by (simp add: word_le_nat_alt unat_of_nat)
  have "4096 dvd ?b + ?l" using w(2,3) by (simp add: mod_eq_0_iff_dvd)
  then obtain q where q: "?b + ?l = 4096 * q" by (auto elim: dvdE)
  with w(1) have "4096 * q < 4096 * 4503599627370496" by simp
  then have "q < 4503599627370496" by (rule mult_less_cancel1 [THEN iffD1, THEN conjunct2])
  with q have top: "?b + ?l + 4095 < 2 ^ 64" by simp
  have s: "unat (of_nat sz :: u64) = sz" using sz by (simp add: unat_of_nat)
  have sum1: "unat (entry_base e + of_nat sz) = ?b + sz"
    by (subst unat_add_no_wrap) (use szl w(1) s in auto)
  have "entry_base e + of_nat sz + PAGE_SIZE - 1 = entry_base e + of_nat sz + 4095"
    by (simp add: PAGE_SIZE_def)
  moreover have "unat (entry_base e + of_nat sz + 4095) = ?b + sz + 4095"
    by (subst unat_add_no_wrap) (use szl top sum1 in auto)
  ultimately have up: "unat ((entry_base e + of_nat sz + PAGE_SIZE - 1) div PAGE_SIZE) = (?b + sz + 4095) div 4096"
    by (simp only: unat_div_page)
  have "(?b + sz + 4095) div 4096 \<le> (?b + ?l + 4095) div 4096" using szl by (intro div_le_mono) simp
  also have "\<dots> = (?b + ?l) div 4096" unfolding q by simp
  also have "\<dots> = unat ((entry_base e + entry_length e) div PAGE_SIZE)"
    using w(1) by (simp add: unat_div_page unat_add_no_wrap)
  finally have "i \<in> set (entry_frames e)"
    using i up by (simp add: bitmap_frames_def entry_frames_def e(4))
  with e show ?thesis by (auto simp: usable_frames_def)
qed

lemma reserve_dma_cases:
  assumes inv: "alloc_inv a" and some: "bitmap a \<noteq> None"
  shows "reserve_dma a = Inl (Panic ''Failed to allocate 64KB DMA pool during boot'') \<or>
    (\<exists>a' d. d \<noteq> 0 \<and> reserve_dma a = Inr (a', \<lparr>DMA_POOL_PHYS = frame_addr d, DMA_POOL_USED = 0\<rparr>) \<and>
       alloc_inv a' \<and> {d..<d + 16} \<subseteq> free_idx a \<and> free_idx a' = free_idx a - {d..<d + 16})"
proof -
  from some obtain bm where bm: "bitmap a = Some bm" by blast
  from dma_scan_run [OF inv bm refl, of 0 0 0 16] obtain st where
    st: "dma_scan a 16 [0..<total_frames a] 0 0 = Inr st" "st = 0 \<or> {st..<st + 16} \<subseteq> free_idx a"
    by auto
  show ?thesis
  proof (cases "st = 0")
    case True
    with st(1) show ?thesis by (simp add: reserve_dma_def)
  next
    case False
    with st have sub: "set [st..<st + 16] \<subseteq> free_idx a" by simp
    from reserve_one_loop [OF inv some _ sub] obtain a' where
      "for_loop reserve_one a [st..<st + 16] = Inr a'" "alloc_inv a'" "free_idx a' = free_idx a - {st..<st + 16}"
      by auto
    with False st sub show ?thesis
      by (intro disjI2 exI [of _ a'] exI [of _ st]) (simp add: reserve_dma_def frame_addr_def)
  qed
qed

text \<open>What no operation changes: where the bitmap is stored, how long it is.\<close>

definition layout :: "bitmap_allocator \<Rightarrow> u64 \<times> nat option" where
  "layout a = (bitmap_phys_addr a, map_option length (bitmap a))"

lemma set_bit_layout: "set_bit a i v = Inr a' \<Longrightarrow> layout a' = layout a"
  by (auto simp: set_bit_def layout_def bitmap_put_def Let_def split: option.splits if_splits)

lemma layout_counters [simp]:
  "layout (a\<lparr>free_frames := n\<rparr>) = layout a"
  by (simp add: layout_def)

lemma free_one_layout: "for_loop free_one a is = Inr a' \<Longrightarrow> layout a' = layout a"
  by (erule for_loop_preserves [rotated])
     (auto simp: free_one_def dest: set_bit_layout split: sum.splits)

lemma free_entry_layout: "for_loop free_entry a es = Inr a' \<Longrightarrow> layout a' = layout a"
  by (erule for_loop_preserves [rotated])
     (simp add: free_entry_def free_one_layout split: if_splits)

lemma reserve_if_free_layout: "for_loop reserve_if_free a is = Inr a' \<Longrightarrow> layout a' = layout a"
  by (erule for_loop_preserves [rotated])
     (auto simp: reserve_if_free_def dest: set_bit_layout split: sum.splits bool.splits)

lemma reserve_dma_layout: "reserve_dma a = Inr (a', pool) \<Longrightarrow> layout a' = layout a"
proof -
  assume "reserve_dma a = Inr (a', pool)"
  then obtain st where "for_loop reserve_one a [st..<st + 16] = Inr a'"
    by (auto simp: reserve_dma_def split: sum.splits if_splits)
  then show ?thesis
    by (rule for_loop_preserves [rotated])
       (auto simp: reserve_one_def dest: set_bit_layout split: sum.splits)
qed

lemma page_count_bound: "unat (x div PAGE_SIZE) < 2 ^ 52"
proof -
  have "unat x < 2 ^ 52 * 4096" by simp
  then show ?thesis unfolding unat_div_page by (rule less_mult_imp_div_less)
qed

text \<open>Steps 1 to 4 of \<open>init\<close>: what is left for the reservation of the DMA pool.\<close>

lemma init_before_dma:
  assumes wf: "wf_memmap es"
    and tot: "tot = unat (max_phys 0 es div PAGE_SIZE)"
    and sz: "sz = (tot + 7) div 8"
    and bphys: "bphys = find_bitmap_region (of_nat sz) es"
    and nz: "bphys \<noteq> 0"
  shows "\<exists>a. frame_allocator_init allocator_new es = reserve_dma a \<and> alloc_inv a \<and>
     free_idx a = set (usable_frames es) - bitmap_frames bphys sz \<and>
     bitmap_frames bphys sz \<subseteq> set (usable_frames es) \<and> layout a = (bphys, Some sz)"
proof -
  let ?a = "allocator_new\<lparr>bitmap := Some (replicate sz 0xFF), total_frames := tot,
              free_frames := 0, bitmap_phys_addr := bphys\<rparr>"
  let ?bl = "[unat (bphys div PAGE_SIZE)..<unat ((bphys + of_nat sz + PAGE_SIZE - 1) div PAGE_SIZE)]"
  have t52: "tot < 2 ^ 52" unfolding tot by (rule page_count_bound)
  then have sz64: "sz < 2 ^ 64" unfolding sz by simp
  have t8: "tot \<le> 8 * sz" unfolding sz by simp
  then have fr0: "free_idx ?a = {}" by (auto simp: free_idx_def fresh_bitmap_full)
  then have inv0: "alloc_inv ?a" using t8 t52 by (simp add: alloc_inv_def)
  from wf have "distinct (usable_frames es)" by (simp add: wf_memmap_def)
  from free_entry_loop [OF inv0 _ this] fr0 usable_frames_below [of _ es]
  obtain a1 where a1: "for_loop free_entry ?a es = Inr a1" "alloc_inv a1" "bitmap a1 \<noteq> None"
      "total_frames a1 = tot" "free_idx a1 = set (usable_frames es)"
    by (auto simp: tot)
  have sub: "bitmap_frames bphys sz \<subseteq> set (usable_frames es)"
    using bitmap_frames_below [OF wf _ sz64] nz by (auto simp: bphys)
  have bl: "set ?bl = bitmap_frames bphys sz" by (simp add: bitmap_frames_def)
  have "\<forall>i \<in> set ?bl. i < total_frames a1"
    unfolding bl a1(4) tot using sub by (blast intro: usable_frames_below)
  from reserve_if_free_loop [OF a1(2,3) this] bl a1(5)
  obtain a2 where a2: "for_loop reserve_if_free a1 ?bl = Inr a2" "alloc_inv a2"
      "free_idx a2 = set (usable_frames es) - bitmap_frames bphys sz"
    by auto
  have "frame_allocator_init allocator_new es = reserve_dma a2"
    using nz a1(1) a2(1) unfolding frame_allocator_init_def Let_def bphys sz tot
    by (simp only: if_False sum.case)
  moreover have "layout a2 = (bphys, Some sz)"
    using free_entry_layout [OF a1(1)] reserve_if_free_layout [OF a2(1)]
    by (simp add: layout_def)
  ultimately show ?thesis using a2 sub by blast
qed

section \<open>Properties of the allocator\<close>


text \<open>A map with one usable entry of 32 frames: \<open>init\<close> succeeds there.\<close>

definition sample_memmap :: "memmap_entry list" where
  "sample_memmap = [\<lparr>entry_base = 0x1000, entry_length = 0x20000, entry_kind = USABLE\<rparr>]"

lemma sample_memmap_wf: "wf_memmap sample_memmap"
  by (simp add: wf_memmap_def sample_memmap_def entry_frames_def PAGE_SIZE_def)

lemma sample_memmap_frames: "set (usable_frames sample_memmap) = {1..<33}"
  by (auto simp: sample_memmap_def entry_frames_def PAGE_SIZE_def)

lemma sample_memmap_init:
  "frame_allocator_init allocator_new sample_memmap = Inr
     (\<lparr>bitmap = Some [0xFF, 0xFF, 0x03, 0x00, 0xFE], total_frames = 33, free_frames = 15,
       last_alloc_idx = 0, bitmap_phys_addr = 0x1000\<rparr>,
      \<lparr>DMA_POOL_PHYS = 0x2000, DMA_POOL_USED = 0\<rparr>)"
  by code_simp


text \<open>
  C20: \<open>allocate_frame\<close> never panics and is a next-fit search: it returns no frame exactly
  when no frame is free; otherwise it returns the first free frame at or after
  \<open>last_alloc_idx\<close> in cyclic order, takes only this frame out of the free set and keeps the
  counter exact.
\<close>

theorem allocate_frame_next_fit:
  assumes inv: "alloc_inv a"
  shows "if free_idx a = {} then allocate_frame a = Inr (None, a)
    else \<exists>i a'. i < total_frames a \<and>
      (let idx = (last_alloc_idx a + i) mod total_frames a
       in allocate_frame a = Inr (Some (frame_addr idx), a') \<and> idx \<in> free_idx a \<and>
          (\<forall>k. k < i \<longrightarrow> (last_alloc_idx a + k) mod total_frames a \<notin> free_idx a) \<and>
          free_idx a' = free_idx a - {idx} \<and> last_alloc_idx a' = idx + 1 \<and> alloc_inv a')"
  using allocate_frame_cases [OF inv] by (auto simp: Let_def)

definition sample_allocator :: bitmap_allocator where
  "sample_allocator = \<lparr>bitmap = Some [0xF7, 0xBF], total_frames = 16, free_frames = 2,
     last_alloc_idx = 5, bitmap_phys_addr = 0x1000\<rparr>"

lemma sample_allocator_free: "free_idx sample_allocator = {3, 14}"
proof -
  have "free_idx sample_allocator = set (filter (\<lambda>j. \<not> bitmap_test [0xF7, 0xBF] j) [0..<16])"
    by (auto simp: free_idx_def sample_allocator_def)
  also have "filter (\<lambda>j. \<not> bitmap_test [0xF7, 0xBF] j) [0..<16] = [3, 14]" by code_simp
  finally show ?thesis by simp
qed

lemma sample_allocator_inv: "alloc_inv sample_allocator"
  by (simp add: alloc_inv_def sample_allocator_free) (simp add: sample_allocator_def)

lemma sample_allocator_alloc:
  "allocate_frame sample_allocator = Inr (Some 0xE000,
     \<lparr>bitmap = Some [0xF7, 0xFF], total_frames = 16, free_frames = 1,
      last_alloc_idx = 15, bitmap_phys_addr = 0x1000\<rparr>)"
  by code_simp

theorem allocate_frame_next_fit_witness:
  "alloc_inv sample_allocator \<and> free_idx sample_allocator = {3, 14} \<and>
   (\<exists>a'. allocate_frame sample_allocator = Inr (Some (frame_addr 14), a') \<and> free_idx a' = {3})"
proof -
  have "free_idx sample_allocator \<noteq> {}" by (simp add: sample_allocator_free)
  with allocate_frame_next_fit [OF sample_allocator_inv] obtain idx a' where
    a': "allocate_frame sample_allocator = Inr (Some (frame_addr idx), a')"
      "idx \<in> free_idx sample_allocator" "free_idx a' = free_idx sample_allocator - {idx}"
    unfolding Let_def by metis
  from a'(1) have "frame_addr idx = 0xE000" by (simp add: sample_allocator_alloc)
  with a'(2) have "idx = 14" by (auto simp: sample_allocator_free frame_addr_def PAGE_SIZE_def)
  with a' show ?thesis by (simp add: sample_allocator_inv sample_allocator_free insert_Diff_if)
qed

text \<open>
  C4: frames are never handed out twice. As many consecutive allocations as there are free
  frames succeed with pairwise distinct frames that were free, and one allocation more
  finds none (the callers' \<open>expect\<close> panics).
\<close>

theorem allocations_are_disjoint:
  assumes "alloc_inv a"
  shows "(n \<le> card (free_addrs a) \<longrightarrow>
      (\<exists>fs a'. alloc_many allocate_frame n a = Inr (fs, a') \<and> length fs = n \<and> distinct fs \<and>
         set fs \<subseteq> free_addrs a \<and> free_addrs a' = free_addrs a - set fs \<and> alloc_inv a')) \<and>
    (card (free_addrs a) < n \<longrightarrow> alloc_many allocate_frame n a = Inl Unwrap_None)"
  using fa.alloc_many_enough [OF assms] fa.alloc_many_short [OF assms] by blast

theorem allocations_are_disjoint_witness:
  "alloc_inv sample_allocator \<and>
   (\<exists>fs a'. alloc_many allocate_frame 2 sample_allocator = Inr (fs, a') \<and> distinct fs \<and> free_addrs a' = {}) \<and>
   alloc_many allocate_frame 3 sample_allocator = Inl Unwrap_None"
proof -
  have addrs: "free_addrs sample_allocator = {0x3000, 0xE000}"
    by (simp add: free_addrs_def sample_allocator_free frame_addr_def PAGE_SIZE_def)
  then have card: "card (free_addrs sample_allocator) = 2" by simp
  from allocations_are_disjoint [OF sample_allocator_inv, of 2] card obtain fs a' where
    f: "alloc_many allocate_frame 2 sample_allocator = Inr (fs, a')" "length fs = 2" "distinct fs"
      "set fs \<subseteq> free_addrs sample_allocator" "free_addrs a' = free_addrs sample_allocator - set fs"
    by auto
  have "card (set fs) = card (free_addrs sample_allocator)"
    using distinct_card [OF f(3)] f(2) card by simp
  then have "set fs = free_addrs sample_allocator"
    by (intro card_subset_eq f(4)) (simp_all add: addrs)
  with f have "free_addrs a' = {}" by simp
  with f allocations_are_disjoint [OF sample_allocator_inv, of 3] card show ?thesis
    by (auto simp: sample_allocator_inv)
qed

text \<open>
  C21: \<open>deallocate_frame\<close> undoes \<open>allocate_frame\<close>: giving the frame back restores the free
  set; giving back a frame that is already free, or one outside the managed range,
  changes nothing, so a double free cannot make a frame available twice.
\<close>

theorem deallocate_restores:
  assumes inv: "alloc_inv a"
  shows "(\<forall>f a1. allocate_frame a = Inr (Some f, a1) \<longrightarrow>
        (\<exists>a2. deallocate_frame a1 f = Inr a2 \<and> alloc_inv a2 \<and> free_addrs a2 = free_addrs a)) \<and>
     (\<forall>g. unat (g div PAGE_SIZE) \<in> free_idx a \<or> total_frames a \<le> unat (g div PAGE_SIZE) \<longrightarrow>
        deallocate_frame a g = Inr a)"
proof (intro conjI allI impI)
  show "\<exists>a2. deallocate_frame a1 f = Inr a2 \<and> alloc_inv a2 \<and> free_addrs a2 = free_addrs a"
    if "allocate_frame a = Inr (Some f, a1)" for f a1
    using that by (rule fa.alloc_give_back [OF inv])
next
  fix g assume "unat (g div PAGE_SIZE) \<in> free_idx a \<or> total_frames a \<le> unat (g div PAGE_SIZE)"
  then show "deallocate_frame a g = Inr a" by (rule deallocate_frame_noop [OF inv])
qed

theorem deallocate_restores_witness:
  "alloc_inv sample_allocator \<and>
   (\<exists>a1 a2. allocate_frame sample_allocator = Inr (Some 0xE000, a1) \<and> deallocate_frame a1 0xE000 = Inr a2 \<and>
      free_addrs a2 = free_addrs sample_allocator) \<and>
   deallocate_frame sample_allocator 0x3000 = Inr sample_allocator"
proof -
  note undo = deallocate_restores [OF sample_allocator_inv]
  from undo [THEN conjunct1] sample_allocator_alloc obtain a1 a2 where
    "allocate_frame sample_allocator = Inr (Some 0xE000, a1)"
    "deallocate_frame a1 0xE000 = Inr a2" "free_addrs a2 = free_addrs sample_allocator" by blast
  moreover have "unat ((0x3000 :: u64) div PAGE_SIZE) = 3" by (simp add: PAGE_SIZE_def)
  with undo [THEN conjunct2, rule_format, of "0x3000"]
  have "deallocate_frame sample_allocator 0x3000 = Inr sample_allocator"
    by (simp add: sample_allocator_free)
  ultimately show ?thesis using sample_allocator_inv by blast
qed

section \<open>Properties of the DMA pool\<close>

lemma dma_aligned:
  assumes "unat n + 4095 < 2 ^ 64"
  shows "unat ((n + PAGE_SIZE - 1) AND NOT (PAGE_SIZE - 1)) = (unat n + 4095) div 4096 * 4096"
proof -
  have m: "PAGE_SIZE - 1 = mask 12" by (simp add: PAGE_SIZE_def mask_eq_exp_minus_1)
  have "n + PAGE_SIZE - 1 = n + 4095" by (simp add: PAGE_SIZE_def)
  moreover have "unat (n + 4095) = unat n + 4095"
    by (subst unat_add_no_wrap) (use assms in auto)
  ultimately show ?thesis by (simp only: m unat_and_not_mask) simp
qed

text \<open>The part of the pool that has been handed out.\<close>

definition dma_inv :: "dma_pool \<Rightarrow> bool" where
  "dma_inv pool \<longleftrightarrow> DMA_POOL_USED pool \<le> 65536 \<and> unat (DMA_POOL_PHYS pool) + 65536 \<le> 2 ^ 64"

lemma dma_fits:
  assumes inv: "dma_inv pool" and n: "unat nbytes + 69631 < 2 ^ 64"
    and sz: "sz = (unat nbytes + 4095) div 4096 * 4096"
    and al: "al = (nbytes + PAGE_SIZE - 1) AND NOT (PAGE_SIZE - 1)"
  shows "unat al = sz" and "unat (DMA_POOL_USED pool + al) = unat (DMA_POOL_USED pool) + sz"
    and "DMA_POOL_USED pool + al \<le> 65536 \<longleftrightarrow> unat (DMA_POOL_USED pool) + sz \<le> 65536"
proof -
  show 1: "unat al = sz" unfolding al sz by (rule dma_aligned) (use n in simp)
  have "sz \<le> unat nbytes + 4095" unfolding sz by (rule div_times_less_eq_dividend)
  moreover have "unat (DMA_POOL_USED pool) \<le> 65536"
    using inv by (simp add: dma_inv_def word_le_nat_alt)
  ultimately have "unat (DMA_POOL_USED pool) + unat al < 2 ^ 64" using n 1 by simp
  then show 2: "unat (DMA_POOL_USED pool + al) = unat (DMA_POOL_USED pool) + sz"
    by (simp add: unat_add_no_wrap 1)
  then show "DMA_POOL_USED pool + al \<le> 65536 \<longleftrightarrow> unat (DMA_POOL_USED pool) + sz \<le> 65536"
    by (simp add: word_le_nat_alt)
qed



text \<open>
  A request within 4095 bytes of \<open>u64::MAX\<close> is rounded to zero: the call succeeds
  without reserving anything, however full the pool is, while the caller believes it owns
  the requested number of bytes.
\<close>

theorem allocate_dma_frames_overflow:
  assumes inv: "dma_inv pool" and n: "2 ^ 64 \<le> unat nbytes + 4095"
  shows "\<exists>m'. allocate_dma_frames hhdm nbytes pool m =
    (Some (DMA_POOL_PHYS pool + DMA_POOL_USED pool), pool, m')"
proof -
  let ?x = "nbytes + PAGE_SIZE - 1"
  define r where "r = unat nbytes + 4095 - 2 ^ 64"
  have p: "2 ^ 64 = (18446744073709551616 :: nat)" by simp
  have r: "unat nbytes + 4095 = r + 2 ^ 64" "r < 4096"
    using n unat_lt_2p64 [of nbytes] unfolding r_def p by linarith+
  have "unat (nbytes + 4095) = (unat nbytes + 4095) mod 2 ^ 64" by (simp add: unat_word_ariths)
  also have "\<dots> = r" unfolding r(1) using r(2) by simp
  finally have "unat (nbytes + 4095) < 4096" using r(2) by simp
  then have "unat ?x div 2 ^ 12 = 0" by (simp add: PAGE_SIZE_def add.commute)
  then have "unat (?x AND NOT (mask 12)) = 0" by (simp only: unat_and_not_mask)
  then have "?x AND NOT (PAGE_SIZE - 1) = 0"
    by (simp add: PAGE_SIZE_def mask_eq_exp_minus_1 unat_eq_0)
  with inv show ?thesis by (simp add: allocate_dma_frames_def Let_def dma_inv_def)
qed

theorem allocate_dma_frames_overflow_witness:
  "let pool = \<lparr>DMA_POOL_PHYS = 0x200000, DMA_POOL_USED = 65536\<rparr>
   in dma_inv pool \<and> fst (allocate_dma_frames 0 u64_max pool (\<lambda>_. 7)) = Some 0x210000"
proof -
  let ?pool = "\<lparr>DMA_POOL_PHYS = 0x200000, DMA_POOL_USED = 65536\<rparr>"
  have inv: "dma_inv ?pool" by (simp add: dma_inv_def)
  have "2 ^ 64 \<le> unat u64_max + 4095" by simp
  from allocate_dma_frames_overflow [OF inv this, of 0 "\<lambda>_. 7"] inv show ?thesis by auto
qed

end
