(* ===== verification/Machine.thy ===== *)
theory Machine
  imports Scheduler Frame_Allocator Byte_Codec
begin

text \<open>
  The kernel together with memory, page tables and devices. A \<open>machine\<close> extends the kernel
  state of the scheduler by the physical memory, the frame allocator, the DMA pool and the
  statics of the memory subsystem.

  The memory \<open>kmem\<close> is keyed by kernel addresses of the higher-half direct map: the byte at
  physical address \<open>p\<close> is \<open>kmem (p + hhdm)\<close>. What is not in the sources is a parameter of the
  model, kept in the last fields: the page-table operations and address types of the \<open>x86_64\<close>
  crate, the address translation of the processor, and what a device answers to a port read.
  The predicate \<open>crate_ok\<close> states the documented behaviour that the code relies on for the
  address types.
\<close>

section \<open>The framebuffer description\<close>

record framebuffer_info =
  physical_address :: u64
  fb_width :: u64
  fb_height :: u64
  fb_pitch :: u64
  fb_bpp :: u16
  fb_size :: u64

section \<open>Parameters\<close>

datatype page_flag = PRESENT | WRITABLE | USER_ACCESSIBLE | NO_CACHE | NO_EXECUTE

text \<open>\<open>Result<MapperFlush, MapToError>\<close>.\<close>

datatype map_result = Map_Ok | PageAlreadyMapped | ParentEntryHugePage | FrameAllocationFailed

datatype access = Read_Access | Write_Access

text \<open>An \<open>OffsetPageTable\<close>: the pointer to the level-4 table and the offset of the direct map.\<close>

type_synonym page_table = "u64 \<times> u64"

record machine = kernel +
  kmem :: mem
  falloc :: bitmap_allocator
  dma :: dma_pool
  mapper :: "page_table option"
  heap_region :: "(u64 \<times> u64) option"
  framebuffer :: "framebuffer_info option"
  initramfs :: bytes
  user_log :: "bytes list"
  ioapic_addr :: u64
  map_to :: "page_table \<Rightarrow> u64 \<Rightarrow> u64 \<Rightarrow> page_flag list \<Rightarrow> mem \<times> bitmap_allocator \<Rightarrow>
    panic + map_result \<times> mem \<times> bitmap_allocator"
  update_flags :: "page_table \<Rightarrow> u64 \<Rightarrow> page_flag list \<Rightarrow> mem \<Rightarrow> bool \<times> mem"
  unmap :: "page_table \<Rightarrow> u64 \<Rightarrow> mem \<Rightarrow> bool \<times> mem"
  mmu_walk :: "u64 \<Rightarrow> mem \<Rightarrow> u64 \<Rightarrow> access \<Rightarrow> u64 \<Rightarrow> u64 option"
  page_containing :: "u64 \<Rightarrow> u64"
  page_range_inclusive :: "u64 \<Rightarrow> u64 \<Rightarrow> u64 list"
  frame_containing :: "u64 \<Rightarrow> u64"
  phys_addr_ok :: "u64 \<Rightarrow> bool"
  port_in :: "io_event list \<Rightarrow> u16 \<Rightarrow> u8 \<Rightarrow> u32"

definition pages_from :: "u64 \<Rightarrow> nat \<Rightarrow> u64 list" where
  "pages_from a n = map (\<lambda>i. a + of_nat i * 4096) [0..<n]"

definition crate_ok :: "'a machine_scheme \<Rightarrow> bool" where
  "crate_ok k \<longleftrightarrow>
     (\<forall>a. page_containing k a = a AND NOT 0xFFF) \<and>
     (\<forall>a. frame_containing k a = a AND NOT 0xFFF) \<and>
     (\<forall>a b. a AND 0xFFF = 0 \<longrightarrow> b AND 0xFFF = 0 \<longrightarrow> page_range_inclusive k a b =
        (if a \<le> b then pages_from a (unat ((b - a) div 4096) + 1) else [])) \<and>
     (\<forall>a. virt_addr_ok k a \<longleftrightarrow> a < 0x800000000000 \<or> 0xFFFF800000000000 \<le> a) \<and>
     (\<forall>a. phys_addr_ok k a \<longleftrightarrow> a < 0x10000000000000)"

section \<open>Frames\<close>

text \<open>\<open>ALLOCATOR.lock().allocate_frame().expect(msg)\<close>.\<close>

definition take_frame :: "string \<Rightarrow> 'a machine_scheme \<Rightarrow> panic + u64 \<times> 'a machine_scheme" where
  "take_frame msg k =
     and_then (allocate_frame (falloc k)) (\<lambda>(f, a).
     and_then (expect msg f) (\<lambda>frame. Inr (frame, k\<lparr>falloc := a\<rparr>)))"

text \<open>\<open>VirtAddr::new\<close> and \<open>PhysAddr::new\<close> panic on addresses that the hardware does not have.\<close>

definition VirtAddr_new :: "'a machine_scheme \<Rightarrow> u64 \<Rightarrow> panic + u64" where
  "VirtAddr_new k = checked ''VirtAddr::new'' (virt_addr_ok k)"

definition PhysAddr_new :: "'a machine_scheme \<Rightarrow> u64 \<Rightarrow> panic + u64" where
  "PhysAddr_new k = checked ''PhysAddr::new'' (phys_addr_ok k)"

text \<open>\<open>mapper.map_to(page, frame, flags, allocator)\<close> on an arbitrary table.\<close>

definition mapper_map_to ::
  "page_table \<Rightarrow> u64 \<Rightarrow> u64 \<Rightarrow> page_flag list \<Rightarrow> 'a machine_scheme \<Rightarrow> panic + map_result \<times> 'a machine_scheme" where
  "mapper_map_to pt page frame flags k =
     and_then (map_to k pt page frame flags (kmem k, falloc k)) (\<lambda>(r, m, a).
     Inr (r, k\<lparr>kmem := m, falloc := a\<rparr>))"

section \<open>Memory of the running program\<close>

text \<open>
  A kernel access through a user pointer goes through the page table in \<open>CR3\<close>. When a byte is
  not mapped the processor raises a page fault in kernel mode, whose handler halts the system.
\<close>

definition kernel_page_fault :: panic where
  "kernel_page_fault = Panic ''KERNEL PAGE FAULT''"

definition user_phys :: "access \<Rightarrow> 'a machine_scheme \<Rightarrow> u64 \<Rightarrow> u64 option" where
  "user_phys acc k v = mmu_walk k (hhdm_offset k) (kmem k) (cr3_reg k) acc v"

fun read_user :: "'a machine_scheme \<Rightarrow> u64 \<Rightarrow> nat \<Rightarrow> panic + bytes" where
  "read_user k v 0 = Inr []"
| "read_user k v (Suc n) =
     (case user_phys Read_Access k v of
        None \<Rightarrow> Inl kernel_page_fault
      | Some p \<Rightarrow> and_then (read_user k (v + 1) n) (\<lambda>bs. Inr (kmem k (p + hhdm_offset k) # bs)))"

fun write_user :: "u64 \<Rightarrow> bytes \<Rightarrow> 'a machine_scheme \<Rightarrow> panic + 'a machine_scheme" where
  "write_user v [] k = Inr k"
| "write_user v (b # bs) k =
     (case user_phys Write_Access k v of
        None \<Rightarrow> Inl kernel_page_fault
      | Some p \<Rightarrow> write_user (v + 1) bs (k\<lparr>kmem := (kmem k)(p + hhdm_offset k := b)\<rparr>))"

end
