(* ===== verification/Paging.thy ===== *)
theory Paging
  imports Machine
begin

text \<open>
  Virtual memory: \<^verbatim>\<open>kernel/src/memory/page_table.rs\<close>, \<^verbatim>\<open>kernel/src/memory/heap.rs\<close>,
  \<^verbatim>\<open>kernel/src/memory/mod.rs\<close> and the address spaces of \<^verbatim>\<open>kernel/src/task/process.rs\<close>.
  The flush of the translation buffer after a change (\<open>tlb.flush()\<close>) has no counterpart: the
  translation of the model reads the tables in memory.
\<close>

section \<open>The kernel's page table\<close>

definition page_table_init :: "'a machine_scheme \<Rightarrow> panic + 'a machine_scheme" where
  "page_table_init k =
     and_then (VirtAddr_new k (hhdm_offset k)) (\<lambda>phys_offset.
     and_then (VirtAddr_new k (phys_offset + cr3_reg k)) (\<lambda>virt.
     Inr (k\<lparr>mapper := Some (virt, phys_offset)\<rparr>)))"

definition map_page :: "u64 \<Rightarrow> u64 \<Rightarrow> page_flag list \<Rightarrow> 'a machine_scheme \<Rightarrow> panic + 'a machine_scheme" where
  "map_page page frame flags k =
     and_then (expect ''Mapper not initialized'' (mapper k)) (\<lambda>pt.
     and_then (mapper_map_to pt page frame flags k) (\<lambda>(r, k1).
     if r = Map_Ok then Inr k1 else Inl (Panic ''Failed to map page'')))"

definition unmap_page :: "u64 \<Rightarrow> 'a machine_scheme \<Rightarrow> panic + 'a machine_scheme" where
  "unmap_page page k =
     and_then (expect ''Mapper not initialized'' (mapper k)) (\<lambda>pt.
     let (ok, m) = unmap k pt page (kmem k)
     in if ok then Inr (k\<lparr>kmem := m\<rparr>) else Inl (Panic ''Failed to unmap page''))"

text \<open>
  \<open>ensure_mapped\<close> maps a physical range at its place in the direct map. A page that is mapped
  already gets new flags; a failure to set them is only logged.
\<close>

definition ensure_page :: "page_table \<Rightarrow> 'a machine_scheme \<Rightarrow> u64 \<Rightarrow> panic + 'a machine_scheme" where
  "ensure_page pt k page =
     and_then (PhysAddr_new k (page - hhdm_offset k)) (\<lambda>p.
     let frame = frame_containing k p; flags = [PRESENT, WRITABLE, NO_EXECUTE, NO_CACHE]
     in and_then (mapper_map_to pt page frame flags k) (\<lambda>(r, k1).
        case r of
          Map_Ok \<Rightarrow> Inr k1
        | PageAlreadyMapped \<Rightarrow> Inr (k1\<lparr>kmem := snd (update_flags k1 pt page flags (kmem k1))\<rparr>)
        | _ \<Rightarrow> Inl (Panic ''Failed to ensure mapped page'')))"

definition ensure_mapped :: "u64 \<Rightarrow> u64 \<Rightarrow> 'a machine_scheme \<Rightarrow> panic + 'a machine_scheme" where
  "ensure_mapped phys_addr nbytes k =
     and_then (expect ''Mapper not initialized'' (mapper k)) (\<lambda>pt.
     and_then (VirtAddr_new k (phys_addr + hhdm_offset k)) (\<lambda>first.
     and_then (VirtAddr_new k (phys_addr + saturating_sub nbytes 1 + hhdm_offset k)) (\<lambda>last.
     for_loop (ensure_page pt) k
       (page_range_inclusive k (page_containing k first) (page_containing k last)))))"

section \<open>The kernel heap\<close>

definition HEAP_START :: u64 where "HEAP_START = 0xFFFF900000000000"
definition HEAP_SIZE :: u64 where "HEAP_SIZE = 100 * 1024"

definition heap_page :: "'a machine_scheme \<Rightarrow> u64 \<Rightarrow> panic + 'a machine_scheme" where
  "heap_page k page =
     and_then (take_frame ''Failed to allocate physical frame for kernel heap'' k) (\<lambda>(frame, k1).
     map_page page frame [PRESENT, WRITABLE] k1)"

text \<open>The last step hands the region to the \<open>linked_list_allocator\<close> crate.\<close>

definition heap_init :: "'a machine_scheme \<Rightarrow> panic + 'a machine_scheme" where
  "heap_init k =
     and_then (VirtAddr_new k HEAP_START) (\<lambda>heap_start.
     and_then (VirtAddr_new k (heap_start + HEAP_SIZE - 1)) (\<lambda>heap_end.
     and_then (for_loop heap_page k
       (page_range_inclusive k (page_containing k heap_start) (page_containing k heap_end))) (\<lambda>k1.
     Inr (k1\<lparr>heap_region := Some (HEAP_START, HEAP_SIZE)\<rparr>))))"

section \<open>Initialisation of the memory subsystem\<close>

text \<open>
  The two responses of the boot loader are inputs. The totals of usable and reserved memory
  are only logged. The bitmap of the allocator is its own object here, not bytes of \<open>kmem\<close>.
\<close>

definition memory_init ::
  "u64 option \<Rightarrow> memmap_entry list option \<Rightarrow> 'a machine_scheme \<Rightarrow> panic + 'a machine_scheme" where
  "memory_init hhdm_response memmap_response k =
     and_then (expect ''Bootloader did not provide an HHDM response!'' hhdm_response) (\<lambda>offset.
     and_then (expect ''Bootloader did not provide a memory map!'' memmap_response) (\<lambda>entries.
     and_then (frame_allocator_init (falloc k) entries) (\<lambda>(a, pool).
     and_then (page_table_init (k\<lparr>hhdm_offset := offset, falloc := a, dma := pool\<rparr>)) (\<lambda>k1.
     heap_init k1))))"

section \<open>Address spaces\<close>

text \<open>
  A new level-4 table is zeroed and gets the entries 256 to 511 of the current table, which
  map the kernel. \<open>copy_upper_half\<close> is the loop over the entries.
\<close>

definition copy_entry :: "u64 \<Rightarrow> u64 \<Rightarrow> mem \<Rightarrow> nat \<Rightarrow> mem" where
  "copy_entry dst src m i = copy_bytes m (dst + of_nat (8 * i)) (read_bytes m (src + of_nat (8 * i)) 8)"

definition copy_upper_half :: "u64 \<Rightarrow> u64 \<Rightarrow> mem \<Rightarrow> mem" where
  "copy_upper_half dst src m = foldl (copy_entry dst src) m [256..<512]"

record process =
  proc_cr3 :: u64
  proc_cspace :: cspace_id
  proc_state :: proc_ref

definition new_cspace :: "cspace \<Rightarrow> 'a machine_scheme \<Rightarrow> cspace_id \<times> 'a machine_scheme" where
  "new_cspace cs k =
     (next_cspace k, k\<lparr>cspaces := (cspaces k)(next_cspace k := cs), next_cspace := next_cspace k + 1\<rparr>)"

definition new_process_state :: "'a machine_scheme \<Rightarrow> proc_ref \<times> 'a machine_scheme" where
  "new_process_state k =
     (next_proc k, k\<lparr>procs := (procs k)(next_proc k := process_state_new), next_proc := next_proc k + 1\<rparr>)"

definition process_new :: "'a machine_scheme \<Rightarrow> panic + process \<times> 'a machine_scheme" where
  "process_new k =
     and_then (take_frame ''Failed to allocate frame for L4 table'' k) (\<lambda>(l4_frame, k1).
     and_then (VirtAddr_new k1 (l4_frame + hhdm_offset k1)) (\<lambda>l4.
     and_then (VirtAddr_new k1 (cr3_reg k1 + hhdm_offset k1)) (\<lambda>current_l4.
     let k2 = k1\<lparr>kmem := copy_upper_half l4 current_l4 (write_bytes (kmem k1) l4 0 4096)\<rparr>;
         (cs, k3) = new_cspace cspace_new k2;
         (ps, k4) = new_process_state k3
     in Inr (\<lparr>proc_cr3 = l4_frame, proc_cspace = cs, proc_state = ps\<rparr>, k4))))"

definition process_activate :: "process \<Rightarrow> 'a machine_scheme \<Rightarrow> 'a machine_scheme" where
  "process_activate p k = k\<lparr>cr3_reg := proc_cr3 p\<rparr>"

definition process_map_page ::
  "process \<Rightarrow> u64 \<Rightarrow> u64 \<Rightarrow> page_flag list \<Rightarrow> 'a machine_scheme \<Rightarrow> panic + 'a machine_scheme" where
  "process_map_page p page frame flags k =
     and_then (VirtAddr_new k (proc_cr3 p + hhdm_offset k)) (\<lambda>l4.
     and_then (VirtAddr_new k (hhdm_offset k)) (\<lambda>off.
     and_then (mapper_map_to (l4, off) page frame flags k) (\<lambda>(r, k1).
     if r = Map_Ok then Inr k1 else Inl (Panic ''Failed to map page in process''))))"

section \<open>The copy of the kernel half\<close>

lemma copy_entry_apply:
  "copy_entry dst src m i a =
     (if unat (a - (dst + of_nat (8 * i))) < 8 then m (src + (a - dst)) else m a)"
  by (simp add: copy_entry_def copy_bytes_def)

lemma entry_index:
  assumes "i < 512"
  shows "unat (a - (dst + of_nat (8 * i) :: u64)) < 8 \<longleftrightarrow> 8 * i \<le> unat (a - dst) \<and> unat (a - dst) < 8 * Suc i"
proof -
  define d where "d = a - dst"
  define w where "w = (of_nat (8 * i) :: u64)"
  have e: "a - (dst + of_nat (8 * i)) = d - w" by (simp add: d_def w_def)
  have w: "unat w = 8 * i" unfolding w_def unat_of_nat using assms by simp
  show ?thesis
  proof (cases "w \<le> d")
    case True
    then have "unat (d - w) = unat d - 8 * i" using unat_sub [OF True] w by simp
    with True show ?thesis unfolding e d_def [symmetric] by (auto simp: word_le_nat_alt w)
  next
    case False
    then have lt: "unat d < 8 * i" by (simp add: word_le_nat_alt w)
    then have "unat (d - w) = 2 ^ 64 + unat d - 8 * i"
      using assms by (simp add: unat_sub_if' w)
    with lt assms show ?thesis unfolding e d_def [symmetric] by simp
  qed
qed

text \<open>When the two tables do not overlap the loop is one block copy.\<close>

lemma copy_upper_half_apply:
  assumes "2048 \<le> src - dst" and "2048 \<le> dst - src"
  shows "copy_upper_half dst src m a =
    (if 2048 \<le> a - dst \<and> a - dst < 4096 then m (src + (a - dst)) else m a)"
proof -
  have "foldl (copy_entry dst src) m [256..<n] a =
      (if 2048 \<le> unat (a - dst) \<and> unat (a - dst) < 8 * n then m (src + (a - dst)) else m a)"
    if "256 \<le> n" "n \<le> 512" for n a
    using that
  proof (induction n arbitrary: a rule: dec_induct)
    case (step n)
    let ?f = "foldl (copy_entry dst src) m [256..<n]"
    have src: "?f (src + (a - dst)) = m (src + (a - dst))" if d: "8 * n \<le> unat (a - dst)" "unat (a - dst) < 8 * Suc n"
    proof -
      have "\<not> (2048 \<le> unat (src + (a - dst) - dst) \<and> unat (src + (a - dst) - dst) < 8 * n)"
      proof
        assume w: "2048 \<le> unat (src + (a - dst) - dst) \<and> unat (src + (a - dst) - dst) < 8 * n"
        let ?x = "src + (a - dst) - dst"
        have "src - dst = ?x - (a - dst)" and "dst - src = (a - dst) - ?x" by simp_all
        moreover have "unat ?x < unat (a - dst)" using w d by linarith
        ultimately have "unat (dst - src) = unat (a - dst) - unat ?x"
          using unat_sub [of ?x "a - dst"] by (simp add: word_le_nat_alt)
        moreover have "unat (a - dst) < 4096" using d step.hyps step.prems by simp
        ultimately have "unat (dst - src) < 2048" using w by linarith
        then show False using assms(2) by (simp add: word_le_nat_alt)
      qed
      then show ?thesis using step.IH [of "src + (a - dst)"] step.prems by (simp only: if_False)
    qed
    have "foldl (copy_entry dst src) m [256..<Suc n] a = copy_entry dst src ?f n a"
      using step.hyps by simp
    also have "\<dots> = (if 8 * n \<le> unat (a - dst) \<and> unat (a - dst) < 8 * Suc n then ?f (src + (a - dst)) else ?f a)"
      unfolding copy_entry_apply using entry_index [of n a dst] step.prems by simp
    finally show ?case using src step.IH [of a] step.prems step.hyps by auto
  qed auto
  from this [of 512 a] show ?thesis
    by (simp add: copy_upper_half_def word_le_nat_alt word_less_nat_alt)
qed

lemma copy_upper_half_code [code]:
  "copy_upper_half dst src m =
     (if 2048 \<le> src - dst \<and> 2048 \<le> dst - src
      then (\<lambda>a. let d = a - dst in if 2048 \<le> d \<and> d < 4096 then m (src + d) else m a)
      else foldl (copy_entry dst src) m [256..<512])"
  by (simp add: fun_eq_iff copy_upper_half_apply Let_def) (simp add: copy_upper_half_def)

end
