(* ===== verification/Elf_Loader.thy ===== *)
theory Elf_Loader
  imports Paging
begin

text \<open>
  The program loader, \<^verbatim>\<open>kernel/src/elf/mod.rs\<close>. The packed header structures are read from the
  bytes of the file through raw pointers without a bounds check, so a read beyond the end of
  the file is \<open>Undefined_Behaviour\<close>.
\<close>

section \<open>Headers\<close>

record elf64_ehdr =
  e_ident :: bytes
  e_type :: u16
  e_machine :: u16
  e_version :: u32
  e_entry :: u64
  e_phoff :: u64
  e_shoff :: u64
  e_flags :: u32
  e_ehsize :: u16
  e_phentsize :: u16
  e_phnum :: u16
  e_shentsize :: u16
  e_shnum :: u16
  e_shstrndx :: u16

record elf64_phdr =
  p_type :: u32
  p_flags :: u32
  p_offset :: u64
  p_vaddr :: u64
  p_paddr :: u64
  p_filesz :: u64
  p_memsz :: u64
  p_align :: u64

definition EHDR_SIZE :: nat where "EHDR_SIZE = 64"
definition PHDR_SIZE :: nat where "PHDR_SIZE = 56"
definition ELFMAG :: bytes where "ELFMAG = [0x7F, 0x45, 0x4C, 0x46]"
definition PT_LOAD :: u32 where "PT_LOAD = 1"

text \<open>A little-endian field of \<open>n\<close> bytes at an offset of a packed structure.\<close>

definition field :: "bytes \<Rightarrow> nat \<Rightarrow> nat \<Rightarrow> 'w::len word" where
  "field bs off n = le_word (slice bs off n)"

definition read_ehdr :: "bytes \<Rightarrow> elf64_ehdr" where
  "read_ehdr bs =
     \<lparr>e_ident = slice bs 0 16, e_type = field bs 16 2, e_machine = field bs 18 2,
      e_version = field bs 20 4, e_entry = field bs 24 8, e_phoff = field bs 32 8,
      e_shoff = field bs 40 8, e_flags = field bs 48 4, e_ehsize = field bs 52 2,
      e_phentsize = field bs 54 2, e_phnum = field bs 56 2, e_shentsize = field bs 58 2,
      e_shnum = field bs 60 2, e_shstrndx = field bs 62 2\<rparr>"

definition phdr_at :: "bytes \<Rightarrow> nat \<Rightarrow> elf64_phdr" where
  "phdr_at bs off =
     \<lparr>p_type = field bs off 4, p_flags = field bs (off + 4) 4, p_offset = field bs (off + 8) 8,
      p_vaddr = field bs (off + 16) 8, p_paddr = field bs (off + 24) 8,
      p_filesz = field bs (off + 32) 8, p_memsz = field bs (off + 40) 8,
      p_align = field bs (off + 48) 8\<rparr>"

definition read_phdr :: "bytes \<Rightarrow> u64 \<Rightarrow> panic + elf64_phdr" where
  "read_phdr elf_bytes phdr_offset =
     (if unat phdr_offset + PHDR_SIZE \<le> length elf_bytes then Inr (phdr_at elf_bytes (unat phdr_offset))
      else Inl Undefined_Behaviour)"

section \<open>Segments\<close>

definition USER_FLAGS :: "page_flag list" where
  "USER_FLAGS = [PRESENT, WRITABLE, USER_ACCESSIBLE]"

text \<open>The part of the file that belongs to the page, copied into the frame at \<open>page_ptr\<close>.\<close>

definition copy_segment_part ::
  "bytes \<Rightarrow> elf64_phdr \<Rightarrow> u64 \<Rightarrow> u64 \<Rightarrow> mem \<Rightarrow> panic + mem" where
  "copy_segment_part elf_bytes ph page_vaddr page_ptr m =
     (let segment_start = p_vaddr ph; segment_end = p_vaddr ph + p_filesz ph;
          copy_start = max page_vaddr segment_start;
          copy_end = min (page_vaddr + 4096) segment_end
      in if copy_start < copy_end
         then (let copy_len = unat (copy_end - copy_start); src_offset = copy_start - segment_start;
                   src = unat (p_offset ph + src_offset)
               in if src + copy_len \<le> length elf_bytes
                  then Inr (copy_bytes m (page_ptr + (copy_start - page_vaddr)) (slice elf_bytes src copy_len))
                  else Inl Undefined_Behaviour)
         else Inr m)"

definition load_page ::
  "page_table \<Rightarrow> bytes \<Rightarrow> elf64_phdr \<Rightarrow> 'a machine_scheme \<Rightarrow> u64 \<Rightarrow> panic + 'a machine_scheme" where
  "load_page pt elf_bytes ph k page =
     and_then (take_frame ''No frames for ELF segment'' k) (\<lambda>(frame, k1).
     and_then (mapper_map_to pt page frame USER_FLAGS k1) (\<lambda>(r, k2).
     if r \<noteq> Map_Ok then Inl (Panic ''Failed to map user page'')
     else (let page_ptr = hhdm_offset k2 + frame
           in and_then (copy_segment_part elf_bytes ph page page_ptr
                (write_bytes (kmem k2) page_ptr 0 4096)) (\<lambda>m. Inr (k2\<lparr>kmem := m\<rparr>)))))"

definition load_segment ::
  "page_table \<Rightarrow> bytes \<Rightarrow> u64 \<Rightarrow> 'a machine_scheme \<Rightarrow> nat \<Rightarrow> panic + 'a machine_scheme" where
  "load_segment pt elf_bytes phoff k i =
     and_then (read_phdr elf_bytes (phoff + of_nat (i * PHDR_SIZE))) (\<lambda>ph.
     if p_type ph = PT_LOAD
     then and_then (VirtAddr_new k (p_vaddr ph)) (\<lambda>first.
          and_then (VirtAddr_new k (p_vaddr ph + p_memsz ph - 1)) (\<lambda>last.
          for_loop (load_page pt elf_bytes ph) k
            (page_range_inclusive k (page_containing k first) (page_containing k last))))
     else Inr k)"

section \<open>The user stack\<close>

definition STACK_TOP :: u64 where "STACK_TOP = 0x700000000000"

definition stack_page :: "page_table \<Rightarrow> 'a machine_scheme \<Rightarrow> nat \<Rightarrow> panic + 'a machine_scheme" where
  "stack_page pt k i =
     and_then (VirtAddr_new k (STACK_TOP - (of_nat i + 1) * 4096)) (\<lambda>v.
     and_then (take_frame ''No frames for user stack'' k) (\<lambda>(frame, k1).
     and_then (mapper_map_to pt (page_containing k v) frame USER_FLAGS k1) (\<lambda>(r, k2).
     if r \<noteq> Map_Ok then Inl (Panic ''Failed to map user stack page'') else Inr k2)))"

section \<open>A new process\<close>

text \<open>
  \<open>user_address_space\<close> is the first half of \<open>spawn_from_elf\<close>: the checks of the file, the new
  level-4 table, the segments and the stack. \<open>stack_ptr\<close> is the address the heap gives for the
  kernel stack of the new thread.
\<close>

definition user_address_space :: "bytes \<Rightarrow> 'a machine_scheme \<Rightarrow> panic + u64 \<times> 'a machine_scheme" where
  "user_address_space elf_bytes k =
     (if length elf_bytes < EHDR_SIZE then Inl (Panic ''ELF too small'')
      else
        let ehdr = read_ehdr elf_bytes
        in if slice (e_ident ehdr) 0 4 \<noteq> ELFMAG then Inl (Panic ''Invalid ELF magic'')
           else
             and_then (take_frame ''No frames for user CR3'' k) (\<lambda>(cr3_frame, k1).
             let hhdm = hhdm_offset k1; cr3_ptr = hhdm + cr3_frame;
                 k2 = k1\<lparr>kmem := copy_upper_half cr3_ptr (hhdm + cr3_reg k1)
                            (write_bytes (kmem k1) cr3_ptr 0 4096)\<rparr>
             in and_then (VirtAddr_new k2 cr3_ptr) (\<lambda>cr3_virt.
                and_then (VirtAddr_new k2 hhdm) (\<lambda>off.
                and_then (for_loop (load_segment (cr3_virt, off) elf_bytes (e_phoff ehdr)) k2
                  [0..<unat (e_phnum ehdr)]) (\<lambda>k3.
                and_then (for_loop (stack_page (cr3_virt, off)) k3 [0..<4]) (\<lambda>k4.
                Inr (cr3_frame, k4)))))))"

definition spawn_from_elf ::
  "bytes \<Rightarrow> capability option \<Rightarrow> u64 \<Rightarrow> 'a machine_scheme \<Rightarrow>
     panic + (proc_ref \<times> cspace_id) \<times> 'a machine_scheme" where
  "spawn_from_elf elf_bytes ep_cap stack_ptr k =
     and_then (user_address_space elf_bytes k) (\<lambda>(cr3_frame, k1).
     let cspace_obj = (case ep_cap of None \<Rightarrow> cspace_new | Some cap \<Rightarrow> cspace_insert_at cspace_new 1 cap);
         (cs, k2) = new_cspace cspace_obj k1;
         (ps, k3) = new_process_state k2;
         (t, k4) = new_user_thread (e_entry (read_ehdr elf_bytes)) STACK_TOP cr3_frame cs ps stack_ptr k3
     in Inr ((ps, cs), add_thread t k4))"

end
