(* ===== verification/Tar.thy ===== *)
theory Tar
  imports Byte_Codec
begin

text \<open>
  The initial file system, \<^verbatim>\<open>kernel/src/fs/tar.rs\<close>: the search of a file by name in a tar
  archive, and that it finds exactly the regular files that an archive holds.
  Offsets and sizes are natural numbers: the size field has at most twelve octal digits and an
  archive fits into memory, so the \<open>usize\<close> arithmetic of the code does not wrap.
\<close>

section \<open>The search\<close>

text \<open>\<open>TarArchive\<close> is the archive's bytes. The inner loop measures the name, at most 100 bytes.\<close>

function name_scan :: "bytes \<Rightarrow> nat \<Rightarrow> nat" where
  "name_scan header name_len =
     (if name_len < 100 \<and> header ! name_len \<noteq> 0 then name_scan header (name_len + 1) else name_len)"
  by auto

termination
  by (relation "measure (\<lambda>(header, n). 100 - n)") auto

declare name_scan.simps [simp del]

definition entry_name :: "bytes \<Rightarrow> bytes" where
  "entry_name header =
     (let n = take (name_scan header 0) header in if utf8_valid n then n else [])"

fun octal :: "nat \<Rightarrow> bytes \<Rightarrow> nat" where
  "octal sz [] = sz"
| "octal sz (b # bs) =
     (if 0x30 \<le> b \<and> b \<le> 0x37 then octal (sz * 8 + unat (b - 0x30)) bs
      else if b = 0 \<or> b = 0x20 then sz
      else octal sz bs)"

definition entry_size :: "bytes \<Rightarrow> nat" where
  "entry_size header = octal 0 (slice header 124 12)"

definition is_file :: "bytes \<Rightarrow> bool" where
  "is_file header \<longleftrightarrow> header ! 156 = 0x30 \<or> header ! 156 = 0"

function find_from :: "bytes \<Rightarrow> bytes \<Rightarrow> nat \<Rightarrow> bytes option" where
  "find_from data name offset =
     (if offset + 512 \<le> length data then
        let header = slice data offset 512; sz = entry_size header in
        if header ! 0 = 0 then None
        else if is_file header \<and> entry_name header = name then
          (if offset + 512 + sz \<le> length data then Some (slice data (offset + 512) sz) else None)
        else find_from data name (offset + (512 + (sz + 511) div 512 * 512))
      else None)"
  by auto

termination
  by (relation "measure (\<lambda>(data, name, offset). length data - offset)") auto

declare find_from.simps [simp del]

definition find_file :: "bytes \<Rightarrow> bytes \<Rightarrow> bytes option" where
  "find_file data name = find_from data name 0"

section \<open>Names and sizes\<close>

lemma name_scan_takeWhile:
  assumes "name_len \<le> 100" and "100 \<le> length header"
  shows "name_scan header name_len =
    name_len + length (takeWhile (\<lambda>b. b \<noteq> 0) (slice header name_len (100 - name_len)))"
  using assms
proof (induction header name_len rule: name_scan.induct)
  case (1 header n)
  show ?case
  proof (cases "n < 100")
    case True
    with 1(3) have s: "slice header n (100 - n) = header ! n # slice header (n + 1) (100 - (n + 1))"
      by (simp add: slice_def Cons_nth_drop_Suc [symmetric] take_Cons')
    show ?thesis
      by (subst name_scan.simps) (use 1 True s in auto)
  next
    case False
    with 1(2) show ?thesis by (subst name_scan.simps) (simp add: slice_def)
  qed
qed

text \<open>The octal digits of a size, most significant first.\<close>

fun octal_digits :: "nat \<Rightarrow> nat \<Rightarrow> bytes" where
  "octal_digits 0 v = []"
| "octal_digits (Suc n) v = octal_digits n (v div 8) @ [0x30 + of_nat (v mod 8)]"

lemma length_octal_digits [simp]: "length (octal_digits n v) = n"
  by (induction n arbitrary: v) simp_all

lemma octal_digit:
  assumes "d < 8"
  shows "0x30 \<le> (0x30 + of_nat d :: u8)" and "(0x30 + of_nat d :: u8) \<le> 0x37"
    and "unat ((0x30 + of_nat d :: u8) - 0x30) = d"
proof -
  have "unat (0x30 + of_nat d :: u8) = 0x30 + d"
    using assms by (simp add: unat_word_ariths unat_of_nat)
  with assms show "0x30 \<le> (0x30 + of_nat d :: u8)" "(0x30 + of_nat d :: u8) \<le> 0x37"
    by (simp_all add: word_le_nat_alt)
  show "unat ((0x30 + of_nat d :: u8) - 0x30) = d"
    using assms by (simp add: unat_of_nat)
qed

lemma octal_append_digits:
  "octal s (octal_digits n v @ rest) = octal (s * 8 ^ n + v mod 8 ^ n) rest"
proof (induction n arbitrary: v rest)
  case (Suc n)
  have "v mod 8 ^ Suc n = v div 8 mod 8 ^ n * 8 + v mod 8"
    by (simp add: mod_mult2_eq)
  then have eq: "(s * 8 ^ n + v div 8 mod 8 ^ n) * 8 + v mod 8 = s * 8 ^ Suc n + v mod 8 ^ Suc n"
    by (simp add: algebra_simps)
  have "octal s (octal_digits (Suc n) v @ rest) =
      octal ((s * 8 ^ n + v div 8 mod 8 ^ n) * 8 + v mod 8) rest"
    using Suc [of "v div 8"] octal_digit [of "v mod 8"] by simp
  with eq show ?case by (simp only:)
qed simp

section \<open>Archives\<close>

text \<open>
  The layout of a tar archive: every entry is a header block with the name in its first 100
  bytes, eleven octal digits of the size and a terminator at 124, a type flag at 156 and
  anything elsewhere, followed by the content padded to whole blocks; two zero blocks end the
  archive.
\<close>

definition header_of :: "bytes \<Rightarrow> bytes \<Rightarrow> nat \<Rightarrow> bool" where
  "header_of header name sz \<longleftrightarrow>
     length header = 512 \<and> name \<noteq> [] \<and> length name \<le> 100 \<and> 0 \<notin> set name \<and> utf8_valid name \<and>
     slice header 0 100 = name @ replicate (100 - length name) 0 \<and>
     int sz < 8 ^ 11 \<and> slice header 124 12 = octal_digits 11 sz @ [0]"

definition entry_block :: "bytes \<times> bytes \<times> bytes \<Rightarrow> bytes" where
  "entry_block e = (case e of (header, name, content) \<Rightarrow>
     header @ content @ replicate ((length content + 511) div 512 * 512 - length content) 0)"

definition archive :: "(bytes \<times> bytes \<times> bytes) list \<Rightarrow> bytes" where
  "archive es = concat (map entry_block es) @ replicate 1024 0"

definition wf_entries :: "(bytes \<times> bytes \<times> bytes) list \<Rightarrow> bool" where
  "wf_entries es \<longleftrightarrow> list_all (\<lambda>(header, name, content). header_of header name (length content)) es"

definition regular_files :: "(bytes \<times> bytes \<times> bytes) list \<Rightarrow> (bytes \<times> bytes) list" where
  "regular_files es = map snd (filter (\<lambda>(header, _). is_file header) es)"

lemma takeWhile_padded:
  assumes "0 \<notin> set xs"
  shows "takeWhile (\<lambda>b. b \<noteq> 0) (xs @ replicate k (0 :: u8)) = xs"
proof -
  have "takeWhile (\<lambda>b. b \<noteq> 0) (replicate k (0 :: u8)) = []" by (cases k) simp_all
  moreover have "\<And>x. x \<in> set xs \<Longrightarrow> x \<noteq> 0" using assms by metis
  ultimately show ?thesis by (simp add: takeWhile_append2)
qed

lemma header_ofD:
  assumes "header_of header name sz"
  shows "entry_name header = name" and "entry_size header = sz" and "header ! 0 \<noteq> 0"
proof -
  note h = assms [unfolded header_of_def]
  have s: "slice header 0 100 = take 100 header" by (simp add: slice_def)
  have n: "name_scan header 0 = length name"
    using h name_scan_takeWhile [of 0 header] by (simp add: takeWhile_padded)
  have "take (length name) header = take (length name) (take 100 header)"
    using h by simp
  also have "\<dots> = name" using h s by simp
  finally show "entry_name header = name"
    using n h by (simp add: entry_name_def)
  show "entry_size header = sz"
    using h octal_append_digits [of 0 11 sz "[0]"] by (simp add: entry_size_def)
  have "header ! 0 = slice header 0 100 ! 0" unfolding s by simp
  also have "\<dots> = name ! 0" using h by (simp add: nth_append)
  finally have "header ! 0 = name ! 0" .
  moreover have "name ! 0 \<in> set name" using h by simp
  ultimately show "header ! 0 \<noteq> 0" using h by metis
qed

lemma length_entry_block:
  assumes "header_of header name (length content)"
  shows "length (entry_block (header, name, content)) = 512 + (length content + 511) div 512 * 512"
proof -
  have "(length content + 511) mod 512 < 512" by simp
  with div_mult_mod_eq [of "length content + 511" 512]
  have "length content \<le> (length content + 511) div 512 * 512" by linarith
  with assms show ?thesis by (simp add: entry_block_def header_of_def)
qed

lemma find_from_entry:
  assumes h: "header_of header name' (length content)"
    and data: "data = pre @ entry_block (header, name', content) @ rest"
  shows "find_from data name (length pre) =
    (if is_file header \<and> name' = name then Some content
     else find_from data name (length (pre @ entry_block (header, name', content))))"
proof -
  have l: "length header = 512" using h by (simp add: header_of_def)
  have s: "slice data (length pre) 512 = header"
    using l by (simp add: data entry_block_def)
  have c: "slice data (length pre + 512) (length content) = content"
    using l by (simp add: data slice_def entry_block_def)
  have len: "length pre + 512 + length content \<le> length data" "length pre + 512 \<le> length data"
    using l by (simp_all add: data entry_block_def)
  have adv: "length (pre @ entry_block (header, name', content)) =
      length pre + (512 + (length content + 511) div 512 * 512)"
    using length_entry_block [OF h] by simp
  show ?thesis
    unfolding adv by (subst find_from.simps) (simp add: Let_def s c len header_ofD [OF h])
qed

lemma find_from_archive:
  assumes "wf_entries es"
  shows "find_from (pre @ archive es) name (length pre) = map_of (regular_files es) name"
  using assms
proof (induction es arbitrary: pre)
  case Nil
  define z where "z = archive []"
  have z: "z = replicate 1024 0"
    by (simp only: z_def archive_def list.map concat.simps append_Nil)
  have "length z = 1024" by (simp only: z length_replicate)
  moreover have "z ! 0 = 0" by (simp only: z nth_replicate zero_less_numeral)
  ultimately show ?case
    unfolding z_def [symmetric] by (subst find_from.simps) (simp add: regular_files_def Let_def)
next
  case (Cons e es)
  obtain header n content where e: "e = (header, n, content)" by (cases e)
  with Cons.prems have h: "header_of header n (length content)" and es: "wf_entries es"
    by (simp_all add: wf_entries_def)
  have a: "pre @ archive (e # es) = pre @ entry_block (header, n, content) @ archive es"
    by (simp add: archive_def e)
  have "find_from (pre @ archive (e # es)) name (length (pre @ entry_block (header, n, content))) =
      map_of (regular_files es) name"
    using Cons.IH [OF es, of "pre @ entry_block (header, n, content)"] by (simp only: a append_assoc)
  with find_from_entry [OF h a, of name] show ?case
    by (simp only:) (simp add: e regular_files_def)
qed

text \<open>
  C16: The search finds exactly the regular files of a well-formed archive: the content of the
  first regular entry with the name, and nothing when there is none; directories and other
  entries are skipped. Together with the termination of the definition this is the complete
  behaviour of \<open>find_file\<close> on archives.
\<close>

theorem find_file_archive:
  assumes "wf_entries es"
  shows "find_file (archive es) name = map_of (regular_files es) name"
  using find_from_archive [OF assms, of "[]" name] by (simp add: find_file_def)

definition sample_header :: "bytes \<Rightarrow> nat \<Rightarrow> u8 \<Rightarrow> bytes" where
  "sample_header name sz flag =
     name @ replicate (124 - length name) 0 @ octal_digits 11 sz @ [0] @ replicate 20 0x20 @
     [flag] @ replicate 355 0"

definition sample_files :: "(bytes \<times> bytes \<times> bytes) list" where
  "sample_files =
     [(sample_header [0x64] 0 0x35, [0x64], []),
      (sample_header [0x69, 0x6E] 3 0x30, [0x69, 0x6E], [1, 2, 3])]"

lemma sample_files_wf: "wf_entries sample_files"
  by code_simp

theorem find_file_archive_witness:
  "wf_entries sample_files \<and> find_file (archive sample_files) [0x69, 0x6E] = Some [1, 2, 3] \<and>
   find_file (archive sample_files) [0x64] = None"
proof -
  have "map_of (regular_files sample_files) [0x69, 0x6E] = Some [1, 2, 3]"
    and "map_of (regular_files sample_files) [0x64] = None"
    by code_simp+
  with find_file_archive [OF sample_files_wf] sample_files_wf show ?thesis by simp
qed

end
