(* ===== verification/Syscall.thy ===== *)
theory Syscall
  imports Elf_Loader Tar
begin

text \<open>
  The system calls, \<^verbatim>\<open>kernel/src/syscall/mod.rs\<close>: one definition per arm of
  \<open>syscall_handler\<close> and the dispatcher. A call returns a panic or, as the blocking calls of the
  scheduler, an outcome with the value of \<open>rax\<close>. What a call cannot determine itself is an
  input: the stack pointer at a context switch, the interrupts that arrive while it idles, and
  the address the heap gives for a kernel stack.
\<close>

section \<open>Results and inputs\<close>

definition ERR_INVALID_ARG :: u64 where "ERR_INVALID_ARG = - 1"
definition ERR_BAD_ADDRESS :: u64 where "ERR_BAD_ADDRESS = - 2"
definition ERR_CAPABILITY :: u64 where "ERR_CAPABILITY = - 3"
definition ERR_NOT_FOUND :: u64 where "ERR_NOT_FOUND = - 4"

record call_inputs =
  in_rax :: u64
  in_old_rsp :: u64
  in_batches :: "interrupt list list"
  in_stack_ptr :: u64

fun map_outcome :: "('r \<Rightarrow> 'q) \<Rightarrow> 'r outcome \<Rightarrow> 'q outcome" where
  "map_outcome f (Returned r) = Returned (f r)"
| "map_outcome f (Switched c) = Switched c"
| "map_outcome f Halted = Halted"

definition returning :: "('r \<Rightarrow> u64) \<Rightarrow> panic + 'r outcome \<times> 'k \<Rightarrow> panic + u64 outcome \<times> 'k" where
  "returning f m = and_then m (\<lambda>(r, k). Inr (map_outcome f r, k))"

text \<open>The range check of user pointers: no overflow and below the non-canonical hole.\<close>

definition USER_END :: u64 where "USER_END = 0x0000800000000000"

definition bad_range :: "u64 \<Rightarrow> u64 \<Rightarrow> bool" where
  "bad_range ptr len = (case checked_add ptr len of None \<Rightarrow> True | Some e \<Rightarrow> e \<ge> USER_END)"

definition message_bytes :: "message \<Rightarrow> bytes" where
  "message_bytes m = concat (map (word_le 8)
     [msg_rdi m, msg_rsi m, msg_rdx m, msg_r10 m, msg_r8 m, msg_r9 m])"

definition bytes_message :: "bytes \<Rightarrow> message" where
  "bytes_message bs = \<lparr>msg_rdi = field bs 0 8, msg_rsi = field bs 8 8, msg_rdx = field bs 16 8,
     msg_r10 = field bs 24 8, msg_r8 = field bs 32 8, msg_r9 = field bs 40 8\<rparr>"

section \<open>Yield, exit and log\<close>

definition sys_yield :: "call_inputs \<Rightarrow> 'a machine_scheme \<Rightarrow> panic + u64 outcome \<times> 'a machine_scheme" where
  "sys_yield i k = returning (\<lambda>_. 0) (yield_now (in_old_rsp i) k)"

definition sys_exit :: "call_inputs \<Rightarrow> 'a machine_scheme \<Rightarrow> panic + u64 outcome \<times> 'a machine_scheme" where
  "sys_exit i k = and_then (exit_current_thread (in_rax i) (in_old_rsp i) k) (\<lambda>(r, k'). Inr (Switched r, k'))"

definition sys_log :: "u64 \<Rightarrow> u64 \<Rightarrow> 'a machine_scheme \<Rightarrow> panic + u64 outcome \<times> 'a machine_scheme" where
  "sys_log ptr len k =
     (if bad_range ptr len then Inr (Returned ERR_BAD_ADDRESS, k)
      else and_then (read_user k ptr (unat len)) (\<lambda>s.
        if utf8_valid s then Inr (Returned 0, k\<lparr>user_log := user_log k @ [s]\<rparr>)
        else Inr (Returned ERR_INVALID_ARG, k)))"

section \<open>IPC\<close>

definition sys_ep_create :: "'a machine_scheme \<Rightarrow> panic + u64 outcome \<times> 'a machine_scheme" where
  "sys_ep_create k = and_then (sys_endpoint_create k) (\<lambda>(h, k'). Inr (Returned (of_nat h), k'))"

definition syscall_send ::
  "u64 \<Rightarrow> u64 \<Rightarrow> call_inputs \<Rightarrow> 'a machine_scheme \<Rightarrow> panic + u64 outcome \<times> 'a machine_scheme" where
  "syscall_send handle msg_ptr i k =
     (if bad_range msg_ptr 48 then Inr (Returned ERR_BAD_ADDRESS, k)
      else and_then (read_user k msg_ptr 48) (\<lambda>bs.
        returning (case_sum (\<lambda>_. ERR_CAPABILITY) (\<lambda>_. 0))
          (sys_send (unat handle) (bytes_message bs) (in_old_rsp i) (in_batches i) k)))"

text \<open>When \<open>sys_recv\<close> returns at once the message is copied to the user; \<open>syscall_resume\<close> below is the same step of a call that has blocked.\<close>

definition deliver :: "u64 \<Rightarrow> message \<Rightarrow> 'a machine_scheme \<Rightarrow> panic + u64 \<times> 'a machine_scheme" where
  "deliver msg_ptr msg k = and_then (write_user msg_ptr (message_bytes msg) k) (\<lambda>k'. Inr (0, k'))"

definition syscall_recv ::
  "u64 \<Rightarrow> u64 \<Rightarrow> call_inputs \<Rightarrow> 'a machine_scheme \<Rightarrow> panic + u64 outcome \<times> 'a machine_scheme" where
  "syscall_recv handle msg_ptr i k =
     (if bad_range msg_ptr 48 then Inr (Returned ERR_BAD_ADDRESS, k)
      else and_then (sys_recv (unat handle) (From_Syscall msg_ptr) (in_old_rsp i) (in_batches i) k) (\<lambda>(r, k1).
        case r of
          Returned (Inr msg) \<Rightarrow> and_then (deliver msg_ptr msg k1) (\<lambda>(v, k2). Inr (Returned v, k2))
        | Returned (Inl _) \<Rightarrow> Inr (Returned ERR_CAPABILITY, k1)
        | Switched c \<Rightarrow> Inr (Switched c, k1)
        | Halted \<Rightarrow> Inr (Halted, k1)))"

text \<open>The value of a system call whose blocked scheduler call goes on.\<close>

fun syscall_resume :: "kcall \<Rightarrow> 'a machine_scheme \<Rightarrow> panic + u64 \<times> 'a machine_scheme" where
  "syscall_resume (In_Recv b (From_Syscall ptr)) k = deliver ptr (recv_result b k) k"
| "syscall_resume In_Exit k = Inl Unreachable_Code"
| "syscall_resume call k = Inr (0, k)"

section \<open>Processes and threads\<close>

definition with_cspace :: "'a machine_scheme \<Rightarrow> (cspace_id \<Rightarrow> cspace \<Rightarrow> panic + 'r) \<Rightarrow> panic + 'r" where
  "with_cspace k f = and_then (current_cspace k) (\<lambda>(t, c). f c (cspaces k c))"

definition insert_cap :: "capability \<Rightarrow> 'a machine_scheme \<Rightarrow> panic + u64 outcome \<times> 'a machine_scheme" where
  "insert_cap cap k =
     with_cspace k (\<lambda>c cs. let (handle, cs') = cspace_insert cs cap
       in Inr (Returned (of_nat handle), k\<lparr>cspaces := (cspaces k)(c := cs')\<rparr>))"

text \<open>\<open>ep_handle = usize::MAX\<close> copies every capability of the caller to the same index of the child.\<close>

definition clone_caps :: "cspace_id \<Rightarrow> 'a machine_scheme \<Rightarrow> panic + 'a machine_scheme" where
  "clone_caps child k =
     with_cspace k (\<lambda>c cs.
       Inr (k\<lparr>cspaces := (cspaces k)(child := copy_slots cspace_insert_at 0 (slots cs) (cspaces k child))\<rparr>))"

definition child_caps :: "u64 \<Rightarrow> cspace_id \<Rightarrow> 'a machine_scheme \<Rightarrow> panic + 'a machine_scheme" where
  "child_caps ep_handle child k = (if ep_handle = u64_max then clone_caps child k else Inr k)"

definition granted_cap :: "capability option \<Rightarrow> capability option" where
  "granted_cap c = (case c of Some (Endpoint ep rights) \<Rightarrow> Some (Endpoint ep rights) | _ \<Rightarrow> None)"

definition sys_spawn ::
  "u64 \<Rightarrow> u64 \<Rightarrow> u64 \<Rightarrow> call_inputs \<Rightarrow> 'a machine_scheme \<Rightarrow> panic + u64 outcome \<times> 'a machine_scheme" where
  "sys_spawn name_ptr name_len ep_handle i k =
     (if bad_range name_ptr name_len then Inr (Returned ERR_BAD_ADDRESS, k)
      else and_then (read_user k name_ptr (unat name_len)) (\<lambda>name.
        if \<not> utf8_valid name then Inr (Returned ERR_INVALID_ARG, k)
        else and_then (with_cspace k (\<lambda>c cs. Inr (granted_cap (cspace_get cs (unat ep_handle))))) (\<lambda>cap.
          case find_file (initramfs k) name of
            None \<Rightarrow> Inr (Returned ERR_NOT_FOUND, k)
          | Some elf_bytes \<Rightarrow>
              and_then (spawn_from_elf elf_bytes cap (in_stack_ptr i) k) (\<lambda>((ps, child), k1).
              and_then (child_caps ep_handle child k1) (\<lambda>k2.
              insert_cap (Process ps RIGHTS_WAIT) k2)))))"

definition syscall_wait ::
  "u64 \<Rightarrow> call_inputs \<Rightarrow> 'a machine_scheme \<Rightarrow> panic + u64 outcome \<times> 'a machine_scheme" where
  "syscall_wait handle i k = returning of_int (sys_wait (unat handle) (in_old_rsp i) (in_batches i) k)"

definition syscall_wait_irq ::
  "u64 \<Rightarrow> call_inputs \<Rightarrow> 'a machine_scheme \<Rightarrow> panic + u64 outcome \<times> 'a machine_scheme" where
  "syscall_wait_irq handle i k = returning of_int (sys_wait_irq (unat handle) (in_old_rsp i) (in_batches i) k)"

definition sys_thread_spawn ::
  "u64 \<Rightarrow> u64 \<Rightarrow> call_inputs \<Rightarrow> 'a machine_scheme \<Rightarrow> panic + u64 outcome \<times> 'a machine_scheme" where
  "sys_thread_spawn entry_point user_stack i k =
     (if entry_point \<ge> USER_END \<or> user_stack \<ge> USER_END then Inr (Returned ERR_BAD_ADDRESS, k)
      else case current k of
             None \<Rightarrow> Inl Unwrap_None
           | Some t \<Rightarrow>
               (case (cr3 t, cspace_ref t, pstate_ref t) of
                  (Some root, Some cs, Some ps) \<Rightarrow>
                    (let (n, k1) = new_user_thread entry_point user_stack root cs ps (in_stack_ptr i) k
                     in Inr (Returned (tid n), add_thread n k1))
                | _ \<Rightarrow> Inl Unwrap_None))"

section \<open>Port access\<close>

definition port_allowed :: "u64 \<Rightarrow> u16 \<Rightarrow> u8 \<Rightarrow> cspace \<Rightarrow> bool" where
  "port_allowed handle port width cs =
     (case cspace_get cs (unat handle) of
        Some (PortIO start len allowed_width) \<Rightarrow>
          port \<ge> start \<and> (ucast port + ucast width :: u32) \<le> ucast start + ucast len \<and>
          (allowed_width = 0 \<or> width = allowed_width)
      | _ \<Rightarrow> False)"

text \<open>The value an \<open>in\<close> instruction leaves in \<open>al\<close>, \<open>ax\<close> or \<open>eax\<close>.\<close>

definition do_port_in :: "u16 \<Rightarrow> u8 \<Rightarrow> 'a machine_scheme \<Rightarrow> u64 \<times> 'a machine_scheme" where
  "do_port_in port width k =
     (let v = port_in k (io_trace k) port width;
          r = (if width = 1 then ucast (ucast v :: u8) else if width = 2 then ucast (ucast v :: u16) else ucast v)
      in (r, io (Port_Read port width) k))"

definition do_port_out :: "u16 \<Rightarrow> u8 \<Rightarrow> u32 \<Rightarrow> 'a machine_scheme \<Rightarrow> 'a machine_scheme" where
  "do_port_out port width v k =
     io (Port_Write port width (if width = 1 then ucast (ucast v :: u8)
       else if width = 2 then ucast (ucast v :: u16) else v)) k"

definition sys_port_in ::
  "u64 \<Rightarrow> u64 \<Rightarrow> u64 \<Rightarrow> 'a machine_scheme \<Rightarrow> panic + u64 outcome \<times> 'a machine_scheme" where
  "sys_port_in handle rsi rdx k =
     (let port = ucast rsi; width = ucast rdx
      in with_cspace k (\<lambda>c cs.
           if port_allowed handle port width cs
           then (if width = 1 \<or> width = 2 \<or> width = 4
                 then (let (v, k') = do_port_in port width k in Inr (Returned v, k'))
                 else Inr (Returned u64_max, k))
           else Inr (Returned u64_max, k)))"

definition sys_port_out ::
  "u64 \<Rightarrow> u64 \<Rightarrow> u64 \<Rightarrow> u64 \<Rightarrow> 'a machine_scheme \<Rightarrow> panic + u64 outcome \<times> 'a machine_scheme" where
  "sys_port_out handle rsi rdx r10 k =
     (let port = ucast rsi; width = ucast rdx; v = ucast r10
      in with_cspace k (\<lambda>c cs.
           if port_allowed handle port width cs
           then (if width = 1 \<or> width = 2 \<or> width = 4
                 then Inr (Returned 0, do_port_out port width v k)
                 else Inr (Returned u64_max, k))
           else Inr (Returned u64_max, k)))"

section \<open>Physical memory\<close>

text \<open>The range to map: the whole capability when the requested address is \<open>u64::MAX\<close>.\<close>

definition map_range :: "u64 \<Rightarrow> u64 \<Rightarrow> u64 \<Rightarrow> u64 \<Rightarrow> u64 \<times> u64" where
  "map_range phys_addr len start cap_len =
     (if phys_addr = u64_max then (start, cap_len) else (phys_addr, len))"

definition map_allowed :: "u64 \<Rightarrow> u64 \<Rightarrow> u64 \<Rightarrow> u64 \<Rightarrow> bool" where
  "map_allowed actual_phys actual_len start cap_len =
     (let end_requested = saturating_add actual_phys actual_len;
          end_allowed = saturating_add start cap_len
      in actual_phys \<ge> start \<and> end_requested \<le> end_allowed \<and> end_requested \<ge> actual_phys)"

definition MAP_FLAGS :: "page_flag list" where
  "MAP_FLAGS = [PRESENT, WRITABLE, USER_ACCESSIBLE, NO_CACHE]"

definition map_phys_page ::
  "page_table \<Rightarrow> 'a machine_scheme \<times> u64 \<Rightarrow> u64 \<Rightarrow> panic + 'a machine_scheme \<times> u64" where
  "map_phys_page pt s page =
     (case s of (k, current_phys) \<Rightarrow>
        and_then (PhysAddr_new k current_phys) (\<lambda>p.
        and_then (mapper_map_to pt page (frame_containing k p) MAP_FLAGS k) (\<lambda>(r, k1).
        if r \<noteq> Map_Ok then Inl (Panic ''Failed to map phys_addr'')
        else Inr (k1, current_phys + 4096))))"

definition map_window :: "u64 \<Rightarrow> u64" where
  "map_window handle = 0x80000000 + handle * 0x1000000"

definition do_map_phys ::
  "u64 \<Rightarrow> u64 \<Rightarrow> u64 \<Rightarrow> u64 \<Rightarrow> 'a machine_scheme \<Rightarrow> panic + u64 outcome \<times> 'a machine_scheme" where
  "do_map_phys handle actual_phys actual_len cr3_phys k =
     (let virt_addr = map_window handle
      in and_then (VirtAddr_new k virt_addr) (\<lambda>first.
         and_then (VirtAddr_new k (virt_addr + actual_len - 1)) (\<lambda>last.
         and_then (VirtAddr_new k (hhdm_offset k)) (\<lambda>off.
         and_then (for_loop (map_phys_page (cr3_phys + hhdm_offset k, off)) (k, actual_phys)
           (page_range_inclusive k (page_containing k first) (page_containing k last))) (\<lambda>(k1, _).
         Inr (Returned virt_addr, k1))))))"

definition sys_map_phys ::
  "u64 \<Rightarrow> u64 \<Rightarrow> u64 \<Rightarrow> 'a machine_scheme \<Rightarrow> panic + u64 outcome \<times> 'a machine_scheme" where
  "sys_map_phys handle phys_addr len k =
     and_then (current_cspace k) (\<lambda>(t, c).
     case cspace_get (cspaces k c) (unat handle) of
       Some (MemoryMap start cap_len) \<Rightarrow>
         (let (actual_phys, actual_len) = map_range phys_addr len start cap_len
          in if map_allowed actual_phys actual_len start cap_len
             then (case cr3 t of
                     None \<Rightarrow> Inl Unwrap_None
                   | Some cr3_phys \<Rightarrow> do_map_phys handle actual_phys actual_len cr3_phys k)
             else Inr (Returned 0, k))
     | _ \<Rightarrow> Inr (Returned 0, k))"

text \<open>The structure is 48 bytes long; the six bytes of padding before \<open>size\<close> are not written.\<close>

definition sys_framebuffer_info :: "u64 \<Rightarrow> 'a machine_scheme \<Rightarrow> panic + u64 outcome \<times> 'a machine_scheme" where
  "sys_framebuffer_info info_ptr k =
     (if bad_range info_ptr 48 then Inr (Returned ERR_BAD_ADDRESS, k)
      else case framebuffer k of
             None \<Rightarrow> Inr (Returned ERR_NOT_FOUND, k)
           | Some fb \<Rightarrow>
               and_then (write_user info_ptr (concat (map (word_le 8)
                 [physical_address fb, fb_width fb, fb_height fb, fb_pitch fb]) @ word_le 2 (fb_bpp fb)) k) (\<lambda>k1.
               and_then (write_user (info_ptr + 40) (word_le 8 (fb_size fb)) k1) (\<lambda>k2.
               Inr (Returned 0, k2))))"

definition sys_frame_alloc :: "u64 \<Rightarrow> 'a machine_scheme \<Rightarrow> panic + u64 outcome \<times> 'a machine_scheme" where
  "sys_frame_alloc nbytes k =
     (if nbytes > 4096 then Inr (Returned 0, k)
      else and_then (allocate_frame (falloc k)) (\<lambda>(f, a).
        case f of
          None \<Rightarrow> Inr (Returned 0, k\<lparr>falloc := a\<rparr>)
        | Some phys_addr \<Rightarrow>
            insert_cap (MemoryMap phys_addr 4096)
              (k\<lparr>falloc := a, kmem := write_bytes (kmem k) (phys_addr + hhdm_offset k) 0 4096\<rparr>)))"

definition sys_dma_alloc :: "u64 \<Rightarrow> 'a machine_scheme \<Rightarrow> panic + u64 outcome \<times> 'a machine_scheme" where
  "sys_dma_alloc nbytes k =
     (case allocate_dma_frames (hhdm_offset k) nbytes (dma k) (kmem k) of
        (None, pool, m) \<Rightarrow> Inr (Returned 0, k\<lparr>dma := pool, kmem := m\<rparr>)
      | (Some phys, pool, m) \<Rightarrow> insert_cap (MemoryMap phys nbytes) (k\<lparr>dma := pool, kmem := m\<rparr>))"

definition cap_info :: "capability option \<Rightarrow> u64" where
  "cap_info cap =
     (case cap of
        Some (MemoryMap phys _) \<Rightarrow> phys
      | Some (PortIO base _ _) \<Rightarrow> ucast base
      | Some (Interrupt irq) \<Rightarrow> ucast irq
      | _ \<Rightarrow> u64_max)"

definition sys_cap_info :: "u64 \<Rightarrow> 'a machine_scheme \<Rightarrow> panic + u64 outcome \<times> 'a machine_scheme" where
  "sys_cap_info handle k = with_cspace k (\<lambda>c cs. Inr (Returned (cap_info (cspace_get cs (unat handle))), k))"

section \<open>The dispatcher\<close>

record user_regs =
  u_rdi :: u64
  u_rsi :: u64
  u_rdx :: u64
  u_r10 :: u64
  u_r8 :: u64
  u_r9 :: u64
  u_rax :: u64

definition syscall_handler ::
  "user_regs \<Rightarrow> call_inputs \<Rightarrow> 'a machine_scheme \<Rightarrow> panic + u64 outcome \<times> 'a machine_scheme" where
  "syscall_handler r i k =
     (let n = u_rax r in
      if n = 0 then sys_yield i k
      else if n = 1 then sys_exit i k
      else if n = 2 then sys_log (u_rdi r) (u_rsi r) k
      else if n = 3 then sys_ep_create k
      else if n = 4 then syscall_send (u_rdi r) (u_rsi r) i k
      else if n = 5 then syscall_recv (u_rdi r) (u_rsi r) i k
      else if n = 6 then sys_spawn (u_rdi r) (u_rsi r) (u_rdx r) i k
      else if n = 7 then syscall_wait (u_rdi r) i k
      else if n = 8 then syscall_wait_irq (u_rdi r) i k
      else if n = 9 then sys_port_in (u_rdi r) (u_rsi r) (u_rdx r) k
      else if n = 10 then sys_port_out (u_rdi r) (u_rsi r) (u_rdx r) (u_r10 r) k
      else if n = 11 then sys_map_phys (u_rdi r) (u_rsi r) (u_rdx r) k
      else if n = 12 then sys_framebuffer_info (u_rdi r) k
      else if n = 13 then sys_frame_alloc (u_rdi r) k
      else if n = 14 then sys_dma_alloc (u_rdi r) k
      else if n = 15 then sys_cap_info (u_rdi r) k
      else if n = 16 then sys_thread_spawn (u_rdi r) (u_rsi r) i k
      else Inr (Returned ERR_INVALID_ARG, k))"

end
