(* ===== verification/Sample_Machine.thy ===== *)
theory Sample_Machine
  imports Paging
begin

text \<open>
  A small concrete machine for the witnesses of the properties. Its page tables have a single
  level: the level-4 frame itself holds one eight-byte entry per supported page (the first 64
  pages, the first four pages of sixteen mapping windows, and the last 64 pages below the top of
  the user stack). It instantiates the parameters that stand for the \<open>x86_64\<close> crate and the
  processor; nothing else depends on it.
\<close>

definition toy_slot :: "u64 \<Rightarrow> nat option" where
  "toy_slot page =
     (let n = drop_bit 12 page; d = n - 0x80000; e = n - 0x6FFFFFFC0
      in if n < 64 then Some (unat n)
         else if d < 0x10000 \<and> d AND 0xFFF < 4 then Some (64 + unat (drop_bit 12 d) * 4 + unat (d AND 0xFFF))
         else if e < 64 then Some (128 + unat e)
         else None)"

definition toy_map_to ::
  "page_table \<Rightarrow> u64 \<Rightarrow> u64 \<Rightarrow> page_flag list \<Rightarrow> mem \<times> bitmap_allocator \<Rightarrow>
     panic + map_result \<times> mem \<times> bitmap_allocator" where
  "toy_map_to pt page frame flags s =
     (case toy_slot page of
        None \<Rightarrow> Inr (ParentEntryHugePage, s)
      | Some i \<Rightarrow>
          let p = fst pt + of_nat (8 * i)
          in if fst s p AND 1 \<noteq> 0 then Inr (PageAlreadyMapped, s)
             else Inr (Map_Ok, copy_bytes (fst s) p (word_le 8 (frame OR 1)), snd s))"

definition toy_walk :: "u64 \<Rightarrow> mem \<Rightarrow> u64 \<Rightarrow> access \<Rightarrow> u64 \<Rightarrow> u64 option" where
  "toy_walk hhdm m root acc v =
     (case toy_slot (v AND NOT 0xFFF) of
        None \<Rightarrow> None
      | Some i \<Rightarrow>
          let e = le_word (read_bytes m (hhdm + root + of_nat (8 * i)) 8) :: u64
          in if e AND 1 = 0 then None else Some ((e AND NOT 0xFFF) + (v AND 0xFFF)))"

definition toy_unmap :: "page_table \<Rightarrow> u64 \<Rightarrow> mem \<Rightarrow> bool \<times> mem" where
  "toy_unmap pt page m =
     (case toy_slot page of
        None \<Rightarrow> (False, m)
      | Some i \<Rightarrow> (let p = fst pt + of_nat (8 * i) in (m p AND 1 \<noteq> 0, m(p := 0))))"

definition toy_range :: "u64 \<Rightarrow> u64 \<Rightarrow> u64 list" where
  "toy_range a b = (if a \<le> b then pages_from a (unat ((b - a) div 4096) + 1) else [])"

definition sample_task :: "u64 \<Rightarrow> u64 \<Rightarrow> thread" where
  "sample_task i base =
     \<lparr>tid = i, state = Cooperative (base + 0x1FC8), stack = (base, STACK_SIZE), cr3 = Some 0x2000,
      cspace_ref = Some 0, pstate_ref = Some 0\<rparr>"

definition sample_slots :: "capability option list" where
  "sample_slots =
     [Some (Endpoint 0 RIGHTS_ALL), Some (Interrupt 1), Some (PortIO 0x60 5 1),
      Some (MemoryMap 0x30000 0x2000)]"

text \<open>The direct map starts at \<open>0xFFFF800000000000\<close>; 48 of the 64 frames are free; page 1 of the running task is mapped to frame 3, which is zero.\<close>

definition sample_machine :: machine where
  "sample_machine =
     \<lparr>run_queue = [], current = Some (sample_task 1 0x10000), irq_waiters = (\<lambda>_. None),
      pending_irqs = (\<lambda>_. False), state_to_update = None, next_user_id = 2, next_kernel_id = 1,
      endpoints = (\<lambda>_. Idle), next_ep = 1, procs = (\<lambda>_. process_state_new), next_proc = 1,
      cspaces = (\<lambda>_. \<lparr>slots = sample_slots\<rparr>), next_cspace = 1,
      msg_bufs = (\<lambda>_. message_zero), next_buf = 0, kstack = (\<lambda>_. None), tss_rsp0 = 0,
      percpu_kernel_stack = 0, cr3_reg = 0x2000, io_trace = [], lapic_addr = 0xFEE00000,
      hhdm_offset = 0xFFFF800000000000, sym_user_trampoline = 0x100, sym_thread_entry_stub = 0x200,
      user_code_selector = 0x23, user_data_selector = 0x1B,
      virt_addr_ok = (\<lambda>a. a < 0x800000000000 \<or> 0xFFFF800000000000 \<le> a),
      phys_frame_ok = (\<lambda>a. a AND 0xFFF = 0),
      kmem = copy_bytes (\<lambda>_. 0) 0xFFFF800000002008 (word_le 8 (0x3001 :: u64)),
      falloc = \<lparr>bitmap = Some [0xFF, 0xFF, 0, 0, 0, 0, 0, 0], total_frames = 64, free_frames = 48,
        last_alloc_idx = 16, bitmap_phys_addr = 0x1000\<rparr>,
      dma = \<lparr>DMA_POOL_PHYS = 0x40000, DMA_POOL_USED = 0\<rparr>,
      mapper = Some (0xFFFF800000002000, 0xFFFF800000000000), heap_region = None, framebuffer = None,
      initramfs = [], user_log = [], ioapic_addr = 0,
      map_to = toy_map_to, update_flags = (\<lambda>pt page flags m. (True, m)), unmap = toy_unmap,
      mmu_walk = toy_walk, page_containing = (\<lambda>a. a AND NOT 0xFFF), page_range_inclusive = toy_range,
      frame_containing = (\<lambda>a. a AND NOT 0xFFF), phys_addr_ok = (\<lambda>a. a < 0x10000000000000),
      port_in = (\<lambda>_ _ _. 0x1C)\<rparr>"

lemma sample_crate_ok: "crate_ok sample_machine"
  by (simp add: crate_ok_def sample_machine_def toy_range_def)

lemma sample_user_byte: "user_phys Read_Access sample_machine 0x1005 = Some 0x3005"
  by code_simp

end
