(* ===== verification/Syscall_Authority.thy ===== *)
theory Syscall_Authority
  imports Syscall Sample_Machine
begin

text \<open>
  What a system call may do with the authority of its caller: device ports, physical memory and
  capabilities. The frame lemmas at the start say which parts of the machine an operation
  leaves alone.
\<close>

section \<open>What the operations leave alone\<close>

text \<open>Only memory and the frame allocator change.\<close>

definition mem_step :: "'a machine_scheme \<Rightarrow> 'a machine_scheme \<Rightarrow> bool" where
  "mem_step k k' \<longleftrightarrow> k' = k\<lparr>kmem := kmem k', falloc := falloc k'\<rparr>"

lemma mem_stepI: "k' = k\<lparr>kmem := m, falloc := a\<rparr> \<Longrightarrow> mem_step k k'"
  by (simp add: mem_step_def)

lemma mem_step_refl [simp]: "mem_step k k"
  by (simp add: mem_step_def)

lemma mem_step_upd [simp]: "mem_step k (k\<lparr>kmem := m\<rparr>)" "mem_step k (k\<lparr>falloc := a\<rparr>)"
  "mem_step k (k\<lparr>kmem := m, falloc := a\<rparr>)"
  by (simp_all add: mem_step_def)

lemma mem_step_trans:
  assumes "mem_step k1 k2" and "mem_step k2 k3"
  shows "mem_step k1 k3"
proof -
  have "k2 = k1\<lparr>kmem := kmem k2, falloc := falloc k2\<rparr>" and "k3 = k2\<lparr>kmem := kmem k3, falloc := falloc k3\<rparr>"
    using assms by (simp_all add: mem_step_def)
  then have "k3 = k1\<lparr>kmem := kmem k2, falloc := falloc k2\<rparr>\<lparr>kmem := kmem k3, falloc := falloc k3\<rparr>"
    by metis
  then show ?thesis by (intro mem_stepI [where m = "kmem k3" and a = "falloc k3"]) simp
qed

lemma mem_step_sel:
  assumes "mem_step k k'"
  shows "current k' = current k" "run_queue k' = run_queue k" "cspaces k' = cspaces k" "next_cspace k' = next_cspace k"
    "procs k' = procs k" "next_proc k' = next_proc k" "endpoints k' = endpoints k" "next_ep k' = next_ep k"
    "io_trace k' = io_trace k" "dma k' = dma k" "hhdm_offset k' = hhdm_offset k" "cr3_reg k' = cr3_reg k"
    "map_to k' = map_to k" "mmu_walk k' = mmu_walk k" "phys_addr_ok k' = phys_addr_ok k"
    "virt_addr_ok k' = virt_addr_ok k" "frame_containing k' = frame_containing k"
    "page_containing k' = page_containing k" "page_range_inclusive k' = page_range_inclusive k"
    "next_user_id k' = next_user_id k" "sym_user_trampoline k' = sym_user_trampoline k"
  by (subst assms [unfolded mem_step_def], simp)+

lemma for_loop_mem_step:
  assumes "\<And>k x k'. body k x = Inr k' \<Longrightarrow> mem_step k k'"
  shows "for_loop body k xs = Inr k' \<Longrightarrow> mem_step k k'"
  by (induction xs arbitrary: k) (auto split: sum.splits intro: mem_step_trans assms)

named_theorems mem_only \<open>operations that change only memory and the frame allocator\<close>

lemma take_frame_mem [mem_only]: "take_frame msg k = Inr (f, k') \<Longrightarrow> mem_step k k'"
  by (auto simp: take_frame_def and_then_Inr)

lemma mapper_map_to_mem [mem_only]: "mapper_map_to pt page frame flags k = Inr (r, k') \<Longrightarrow> mem_step k k'"
  by (auto simp: mapper_map_to_def and_then_Inr)

lemma write_user_mem [mem_only]: "write_user v bs k = Inr k' \<Longrightarrow> mem_step k k'"
  by (induction bs arbitrary: v k) (auto split: option.splits intro: mem_step_trans [OF mem_step_upd(1)])

lemma load_page_mem [mem_only]: "load_page pt elf ph k page = Inr k' \<Longrightarrow> mem_step k k'"
  by (auto simp: load_page_def and_then_Inr Let_def split: if_splits
      intro: mem_step_trans [OF take_frame_mem mem_step_trans [OF mapper_map_to_mem mem_step_upd(1)]])

lemma load_segment_mem [mem_only]: "load_segment pt elf phoff k i = Inr k' \<Longrightarrow> mem_step k k'"
  by (auto simp: load_segment_def and_then_Inr split: if_splits intro: for_loop_mem_step load_page_mem)

lemma stack_page_mem [mem_only]: "stack_page pt k i = Inr k' \<Longrightarrow> mem_step k k'"
  by (auto simp: stack_page_def and_then_Inr split: if_splits
      intro: mem_step_trans [OF take_frame_mem mapper_map_to_mem])

lemma user_address_space_mem [mem_only]:
  assumes "user_address_space elf k = Inr (f, k')"
  shows "mem_step k k'"
proof -
  from assms obtain k1 m pt phoff n k3 where
    1: "take_frame ''No frames for user CR3'' k = Inr (f, k1)" and
    2: "for_loop (load_segment pt elf phoff) (k1\<lparr>kmem := m\<rparr>) [0..<n] = Inr k3" and
    3: "for_loop (stack_page pt) k3 [0..<4] = Inr k'"
    by (auto simp: user_address_space_def and_then_Inr Let_def split: if_splits)
  have "mem_step (k1\<lparr>kmem := m\<rparr>) k3" by (rule for_loop_mem_step [OF load_segment_mem 2])
  moreover have "mem_step k3 k'" by (rule for_loop_mem_step [OF stack_page_mem 3])
  ultimately show ?thesis
    using take_frame_mem [OF 1] mem_step_upd(1) [of k1 m] by (metis mem_step_trans)
qed

section \<open>Calls that return\<close>

lemma returning_Returned:
  "returning f m = Inr (Returned v, k') \<longleftrightarrow> (\<exists>r. m = Inr (Returned r, k') \<and> v = f r)"
proof -
  have "map_outcome f r = Returned v \<longleftrightarrow> (\<exists>x. r = Returned x \<and> v = f x)" for r
    by (cases r) auto
  then show ?thesis by (auto simp: returning_def and_then_Inr)
qed

lemma block_not_Returned: "block old_rsp bs call k \<noteq> Inr (Returned r, k')"
  by (auto simp: block_def split: sum.splits prod.splits idle_result.splits)

lemma yield_now_Returned: "yield_now old_rsp k = Inr (Returned r, k') \<Longrightarrow> k' = k"
  by (auto simp: yield_now_def Let_def split: if_splits option.splits list.splits sum.splits saved_thread_state.splits prod.splits)

lemma sys_wait_Returned: "sys_wait h old_rsp bs k = Inr (Returned r, k') \<Longrightarrow> k' = k"
  by (auto simp: sys_wait_def block_not_Returned split: if_splits sum.splits prod.splits option.splits capability.splits)

lemma sys_wait_irq_Returned:
  "sys_wait_irq h old_rsp bs k = Inr (Returned r, k') \<Longrightarrow> k' = k \<or> (\<exists>p. k' = k\<lparr>pending_irqs := p\<rparr>)"
  by (auto simp: sys_wait_irq_def block_not_Returned split: if_splits sum.splits prod.splits option.splits capability.splits)

lemma sys_send_Returned:
  "sys_send h msg old_rsp bs k = Inr (Returned r, k') \<Longrightarrow>
     k' = k \<or> (\<exists>ep receiver ptr q. k' = hand_over ep receiver ptr q msg k)"
  by (auto simp: sys_send_def block_not_Returned
      split: sum.splits prod.splits endpoint_state.splits list.splits)

lemma sys_recv_Returned:
  "sys_recv h caller old_rsp bs k = Inr (Returned r, k') \<Longrightarrow>
     k' = k \<or> (\<exists>ep sender q. k' = collect ep sender q k)"
  by (auto simp: sys_recv_def block_not_Returned Let_def
      split: sum.splits prod.splits endpoint_state.splits list.splits)

section \<open>The capabilities of the caller\<close>

definition holds :: "'a machine_scheme \<Rightarrow> capability \<Rightarrow> bool" where
  "holds k cap \<longleftrightarrow> (\<exists>t c. current_cspace k = Inr (t, c) \<and> cap \<in> caps_of (cspaces k c))"

lemma with_cspace_Inr:
  "with_cspace k f = Inr r \<longleftrightarrow> (\<exists>t c. current_cspace k = Inr (t, c) \<and> f c (cspaces k c) = Inr r)"
  by (auto simp: with_cspace_def and_then_Inr)

lemma current_cspace_cong:
  "current k' = current k \<Longrightarrow> current_cspace k' = current_cspace k"
  by (simp add: current_cspace_def)

lemma insert_cap_Inr:
  "insert_cap cap k = Inr (r, k') \<longleftrightarrow>
     (\<exists>t c h cs. current_cspace k = Inr (t, c) \<and> cspace_insert (cspaces k c) cap = (h, cs) \<and>
        r = Returned (of_nat h) \<and> k' = k\<lparr>cspaces := (cspaces k)(c := cs)\<rparr>)"
  by (cases "current_cspace k") (auto simp: insert_cap_def with_cspace_def Let_def split: prod.splits)

text \<open>The thread that calls refers to an existing capability space, which is part of \<open>refs_ok\<close>.\<close>

definition caller_in_range :: "'a machine_scheme \<Rightarrow> bool" where
  "caller_in_range k \<longleftrightarrow> (case current_cspace k of Inl _ \<Rightarrow> True | Inr (t, c) \<Rightarrow> c < next_cspace k)"

section \<open>Device ports\<close>

text \<open>A port range of a width is covered by a capability of the caller.\<close>

definition covers_ports :: "'a machine_scheme \<Rightarrow> u16 \<Rightarrow> u8 \<Rightarrow> bool" where
  "covers_ports k port width \<longleftrightarrow>
     (\<exists>start len w. holds k (PortIO start len w) \<and> unat start \<le> unat port \<and>
        unat port + unat width \<le> unat start + unat len \<and> (w = 0 \<or> width = w))"

fun authorised :: "'a machine_scheme \<Rightarrow> io_event \<Rightarrow> bool" where
  "authorised k (Port_Read port width) = covers_ports k port width"
| "authorised k (Port_Write port width v) = covers_ports k port width"
| "authorised k _ = False"

lemma unat_add_port:
  "unat (ucast (p :: u16) + ucast (w :: u8) :: u32) = unat p + unat w"
  "unat (ucast (p :: u16) + ucast (l :: u16) :: u32) = unat p + unat l"
proof -
  have "unat p < 65536" "unat w < 256" "unat l < 65536"
    using unsigned_less [of p] unsigned_less [of w] unsigned_less [of l] by simp_all
  then show "unat (ucast p + ucast w :: u32) = unat p + unat w"
    "unat (ucast p + ucast l :: u32) = unat p + unat l"
    by (simp_all add: unat_word_ariths unsigned_ucast_eq take_bit_nat_eq_self)
qed

lemma port_allowed_covers:
  assumes "current_cspace k = Inr (t, c)" and "port_allowed handle port width (cspaces k c)"
  shows "covers_ports k port width"
proof -
  from assms(2) obtain start len w where
    cap: "cspace_get (cspaces k c) (unat handle) = Some (PortIO start len w)"
    and ok: "start \<le> port" "(ucast port + ucast width :: u32) \<le> ucast start + ucast len" "w = 0 \<or> width = w"
    by (auto simp: port_allowed_def split: option.splits capability.splits)
  from cspace_getD [OF cap] assms(1) have "holds k (PortIO start len w)"
    by (auto simp: holds_def)
  with ok show ?thesis
    unfolding covers_ports_def word_le_nat_alt unat_add_port by blast
qed

text \<open>Operations that touch no device.\<close>

named_theorems no_io \<open>operations that keep the trace of device accesses\<close>

lemma io_trace_insert_cap [no_io]: "insert_cap cap k = Inr (r, k') \<Longrightarrow> io_trace k' = io_trace k"
  by (auto simp: insert_cap_Inr)

lemma io_trace_write_user [no_io]: "write_user v bs k = Inr k' \<Longrightarrow> io_trace k' = io_trace k"
  by (drule write_user_mem) (rule mem_step_sel)

lemma io_trace_spawn [no_io]: "spawn_from_elf elf cap sp k = Inr (r, k') \<Longrightarrow> io_trace k' = io_trace k"
  by (auto simp: spawn_from_elf_def and_then_Inr new_cspace_def new_process_state_def new_user_thread_def
      add_thread_def Let_def mem_step_sel(9) dest: user_address_space_mem)

lemma map_phys_page_mem: "map_phys_page pt (k, p) page = Inr (k', p') \<Longrightarrow> mem_step k k'"
  by (auto simp: map_phys_page_def and_then_Inr split: if_splits dest: mapper_map_to_mem)

lemma map_phys_loop_mem: "for_loop (map_phys_page pt) (k, p) pages = Inr (k', p') \<Longrightarrow> mem_step k k'"
proof (induction pages arbitrary: k p)
  case (Cons page pages)
  then show ?case
    by (auto split: sum.splits intro: mem_step_trans [OF map_phys_page_mem])
qed simp

lemma sys_map_phys_cases:
  assumes "sys_map_phys handle phys_addr len k = Inr (r, k')"
  obtains (denied) "r = Returned 0" and "k' = k"
  | (mapped) t c start cap_len actual_phys actual_len root where
      "current_cspace k = Inr (t, c)" and "cr3 t = Some root"
      and "cspace_get (cspaces k c) (unat handle) = Some (MemoryMap start cap_len)"
      and "map_range phys_addr len start cap_len = (actual_phys, actual_len)"
      and "map_allowed actual_phys actual_len start cap_len"
      and "do_map_phys handle actual_phys actual_len root k = Inr (r, k')"
proof -
  from assms obtain t c where tc: "current_cspace k = Inr (t, c)"
    by (auto simp: sys_map_phys_def and_then_Inr)
  show thesis
  proof (cases "\<exists>start cap_len. cspace_get (cspaces k c) (unat handle) = Some (MemoryMap start cap_len)")
    case True
    then obtain start cap_len where cap: "cspace_get (cspaces k c) (unat handle) = Some (MemoryMap start cap_len)"
      by blast
    obtain ap al where r: "map_range phys_addr len start cap_len = (ap, al)" by fastforce
    show thesis
      using assms tc cap r denied mapped [OF tc _ cap r] by (auto simp: sys_map_phys_def split: if_splits option.splits)
  next
    case False
    then show thesis
      using assms tc denied by (auto simp: sys_map_phys_def split: option.splits capability.splits)
  qed
qed

lemma sys_map_phys_mem:
  assumes "sys_map_phys h p l k = Inr (r, k')"
  shows "mem_step k k'"
  using assms
proof (cases rule: sys_map_phys_cases)
  case mapped
  then show ?thesis by (auto simp: do_map_phys_def and_then_Inr Let_def dest: map_phys_loop_mem)
qed simp

lemma deliver_mem: "deliver ptr msg k = Inr (v, k') \<Longrightarrow> mem_step k k'"
  by (auto simp: deliver_def and_then_Inr dest: write_user_mem)

lemma sys_framebuffer_info_mem: "sys_framebuffer_info ptr k = Inr (r, k') \<Longrightarrow> mem_step k k'"
  by (auto simp: sys_framebuffer_info_def and_then_Inr split: if_splits option.splits
      intro: mem_step_trans [OF write_user_mem write_user_mem])

section \<open>Effects of a call that returns\<close>

text \<open>The capabilities that the kernel creates: fresh objects, a free frame, a block of the DMA pool.\<close>

definition new_cap :: "'a machine_scheme \<Rightarrow> capability \<Rightarrow> bool" where
  "new_cap k cap \<longleftrightarrow>
     cap = Endpoint (next_ep k) RIGHTS_ALL \<or> cap = Process (next_proc k) RIGHTS_WAIT \<or>
     (\<exists>p. cap = MemoryMap p 4096 \<and> p \<in> free_addrs (falloc k)) \<or>
     (\<exists>n. cap = MemoryMap (DMA_POOL_PHYS (dma k) + DMA_POOL_USED (dma k)) n)"

definition quiet_call :: "'a machine_scheme \<Rightarrow> 'a machine_scheme \<Rightarrow> bool" where
  "quiet_call k k' \<longleftrightarrow> cspaces k' = cspaces k \<and> next_cspace k' = next_cspace k \<and> io_trace k' = io_trace k"

text \<open>The caller's capability space \<open>c\<close> gets one more capability; \<open>f\<close> are the capability spaces before.\<close>

definition inserts ::
  "(nat \<Rightarrow> cspace) \<Rightarrow> nat \<Rightarrow> capability \<Rightarrow> 'a machine_scheme \<Rightarrow> bool" where
  "inserts f c cap k' \<longleftrightarrow> (\<exists>h cs. cspace_insert (f c) cap = (h, cs) \<and> cspaces k' = f(c := cs))"

lemma insert_cap_inserts:
  assumes "insert_cap cap k1 = Inr (r, k')" and "current_cspace k1 = Inr (t, c)"
  shows "inserts (cspaces k1) c cap k' \<and> next_cspace k' = next_cspace k1 \<and> io_trace k' = io_trace k1"
  using assms by (auto simp: insert_cap_Inr inserts_def)

lemma quiet_mem_step: "mem_step k k' \<Longrightarrow> quiet_call k k'"
  by (simp add: quiet_call_def mem_step_sel)

lemma alloc_scan_free:
  "alloc_scan a is = Inr (Some p, a') \<Longrightarrow> 0 < total_frames a \<Longrightarrow> bitmap a \<noteq> None \<Longrightarrow> p \<in> free_addrs a"
proof (induction "is")
  case (Cons i "is")
  let ?idx = "(last_alloc_idx a + i) mod total_frames a"
  from Cons.prems obtain b where b: "get_bit a ?idx = Inr b"
    by (auto simp: Let_def split: sum.splits)
  show ?case
  proof (cases b)
    case True
    with b Cons show ?thesis by (simp add: Let_def)
  next
    case False
    with b Cons.prems have "p = frame_addr ?idx"
      by (auto simp: Let_def frame_addr_def split: sum.splits)
    moreover have "?idx \<in> free_idx a"
      using b False Cons.prems by (auto simp: get_bit_def free_idx_def split: option.splits if_splits)
    ultimately show ?thesis by (simp add: free_addrs_def)
  qed
qed simp

lemma allocate_frame_free: "allocate_frame a = Inr (Some p, a') \<Longrightarrow> p \<in> free_addrs a"
  by (cases "total_frames a = 0")
    (auto simp: allocate_frame_def split: if_splits intro: alloc_scan_free)

text \<open>What a spawn leaves: one more capability space with the granted capability, and the new thread.\<close>

lemma spawn_from_elf_Inr:
  assumes "spawn_from_elf elf cap sp k = Inr ((ps, cs), k')"
  shows "ps = next_proc k" "cs = next_cspace k" "current k' = current k" "io_trace k' = io_trace k"
    "next_cspace k' = Suc (next_cspace k)"
    "cspaces k' = (cspaces k)(next_cspace k :=
       (case cap of None \<Rightarrow> cspace_new | Some c \<Rightarrow> cspace_insert_at cspace_new 1 c))"
  using assms
  by (auto simp: spawn_from_elf_def and_then_Inr new_cspace_def new_process_state_def new_user_thread_def
      add_thread_def Let_def mem_step_sel dest!: user_address_space_mem)

lemma caps_of_granted:
  "caps_of (case granted_cap (cspace_get cs h) of None \<Rightarrow> cspace_new | Some c \<Rightarrow> cspace_insert_at cspace_new 1 c)
     \<subseteq> caps_of cs"
proof (cases "granted_cap (cspace_get cs h)")
  case (Some c)
  then have "cspace_get cs h = Some c"
    by (auto simp: granted_cap_def split: option.splits capability.splits)
  then have "c \<in> caps_of cs" by (rule cspace_getD)
  with Some caps_of_insert_at [of cspace_new 1 c] show ?thesis by auto
qed simp

lemma caps_of_copy_slots: "caps_of (copy_slots cspace_insert_at 0 (slots cs) cs') \<subseteq> caps_of cs \<union> caps_of cs'"
  unfolding caps_of_def ran_def
  by (auto simp: cs.copy_slots_lookup split: if_splits) (metis cspace_get_def)

definition spawns :: "'a machine_scheme \<Rightarrow> nat \<Rightarrow> 'a machine_scheme \<Rightarrow> bool" where
  "spawns k c k' \<longleftrightarrow>
     (\<exists>child. caps_of child \<subseteq> caps_of (cspaces k c) \<and>
        inserts ((cspaces k)(next_cspace k := child)) c (Process (next_proc k) RIGHTS_WAIT) k' \<and>
        next_cspace k' = Suc (next_cspace k) \<and> io_trace k' = io_trace k)"

definition effect :: "'a machine_scheme \<Rightarrow> 'a machine_scheme \<Rightarrow> bool" where
  "effect k k' \<longleftrightarrow>
     quiet_call k k' \<or>
     (\<exists>e. k' = io e k \<and> authorised k e) \<or>
     (\<exists>t c cap. current_cspace k = Inr (t, c) \<and> new_cap k cap \<and> inserts (cspaces k) c cap k' \<and>
        next_cspace k' = next_cspace k \<and> io_trace k' = io_trace k) \<or>
     (\<exists>t c. current_cspace k = Inr (t, c) \<and> spawns k c k')"

lemma effect_quiet: "quiet_call k k' \<Longrightarrow> effect k k'"
  by (simp add: effect_def)

lemma effect_refl [simp]: "effect k k"
  by (simp add: effect_def quiet_call_def)

lemma effect_port:
  assumes "current_cspace k = Inr (t, c)" and "port_allowed handle port width (cspaces k c)"
  shows "effect k (io (Port_Read port width) k)" and "effect k (io (Port_Write port width v) k)"
  using port_allowed_covers [OF assms] by (auto simp: effect_def)

lemma effect_insert:
  assumes "insert_cap cap k1 = Inr (r, k')" and "new_cap k cap"
    and "current k1 = current k" "cspaces k1 = cspaces k" "next_cspace k1 = next_cspace k" "io_trace k1 = io_trace k"
  shows "effect k k'"
proof -
  from assms(1) obtain t c where tc: "current_cspace k1 = Inr (t, c)" by (auto simp: insert_cap_Inr)
  with assms(3) have "current_cspace k = Inr (t, c)" by (simp add: current_cspace_def)
  with insert_cap_inserts [OF assms(1) tc] assms show ?thesis
    unfolding effect_def by metis
qed

lemma effect_sys_spawn:
  assumes "sys_spawn name_ptr name_len ep_handle i k = Inr (Returned v, k')"
    and fresh: "caller_in_range k"
  shows "effect k k'"
proof (cases "k' = k")
  case True
  then show ?thesis by (simp add: effect_quiet quiet_call_def)
next
  case False
  with assms(1) obtain t c elf ps child k1 k2 where
    tc: "current_cspace k = Inr (t, c)" and
    sp: "spawn_from_elf elf (granted_cap (cspace_get (cspaces k c) (unat ep_handle))) (in_stack_ptr i) k = Inr ((ps, child), k1)" and
    cl: "child_caps ep_handle child k1 = Inr k2" and
    ins: "insert_cap (Process ps RIGHTS_WAIT) k2 = Inr (Returned v, k')"
    by (auto simp: sys_spawn_def and_then_Inr with_cspace_Inr split: if_splits option.splits)
  note s = spawn_from_elf_Inr [OF sp]
  let ?obj = "case granted_cap (cspace_get (cspaces k c) (unat ep_handle)) of
     None \<Rightarrow> cspace_new | Some c \<Rightarrow> cspace_insert_at cspace_new 1 c"
  have c: "c \<noteq> next_cspace k" using fresh tc by (simp add: caller_in_range_def)
  have tc1: "current_cspace k1 = Inr (t, c)" using tc s(3) by (simp add: current_cspace_def)
  from cl s c tc1 obtain obj where k2: "cspaces k2 = (cspaces k)(next_cspace k := obj)"
      "current k2 = current k" "next_cspace k2 = Suc (next_cspace k)" "io_trace k2 = io_trace k"
    and obj: "obj = ?obj \<or> obj = copy_slots cspace_insert_at 0 (slots (cspaces k c)) ?obj"
    by (auto simp: child_caps_def clone_caps_def with_cspace_Inr split: if_splits)
  have caps: "caps_of obj \<subseteq> caps_of (cspaces k c)"
    using obj caps_of_granted [of "cspaces k c" "unat ep_handle"]
      caps_of_copy_slots [of "cspaces k c" ?obj] by auto
  have "current_cspace k2 = Inr (t, c)" using tc k2(2) by (simp add: current_cspace_def)
  with insert_cap_inserts [OF ins] have "spawns k c k'"
    unfolding spawns_def using caps k2 s(1) by auto
  with tc show ?thesis by (auto simp: effect_def)
qed

lemma effect_sys_log: "sys_log ptr len k = Inr (r, k') \<Longrightarrow> effect k k'"
proof (cases "bad_range ptr len")
  case False
  assume "sys_log ptr len k = Inr (r, k')"
  with False obtain s where "k' = k \<or> k' = k\<lparr>user_log := user_log k @ [s]\<rparr>"
    by (auto simp: sys_log_def and_then_Inr split: if_splits)
  then have "quiet_call k k'" by (auto simp: quiet_call_def)
  then show ?thesis by (rule effect_quiet)
qed (simp add: sys_log_def)

lemma effect_ep_create: "sys_ep_create k = Inr (r, k') \<Longrightarrow> effect k k'"
proof -
  assume "sys_ep_create k = Inr (r, k')"
  then obtain h where h: "sys_endpoint_create k = Inr (h, k')" by (auto simp: sys_ep_create_def and_then_Inr)
  then obtain t c where tc: "current_cspace k = Inr (t, c)"
    by (auto simp: sys_endpoint_create_def split: sum.splits)
  obtain h' cs where ins: "cspace_insert (cspaces k c) (Endpoint (next_ep k) RIGHTS_ALL) = (h', cs)" by fastforce
  from h tc ins have "inserts (cspaces k) c (Endpoint (next_ep k) RIGHTS_ALL) k' \<and> next_cspace k' = next_cspace k \<and>
      io_trace k' = io_trace k"
    by (auto simp: sys_endpoint_create_def inserts_def)
  with tc show ?thesis unfolding effect_def by (metis new_cap_def)
qed

lemma effect_send: "syscall_send h p i k = Inr (Returned v, k') \<Longrightarrow> effect k k'"
  by (auto simp: syscall_send_def and_then_Inr returning_Returned quiet_call_def hand_over_def
      split: if_splits dest!: sys_send_Returned intro!: effect_quiet)

lemma effect_recv: "syscall_recv h p i k = Inr (Returned v, k') \<Longrightarrow> effect k k'"
proof -
  assume r: "syscall_recv h p i k = Inr (Returned v, k')"
  show ?thesis
  proof (cases "bad_range p 48")
    case True
    with r show ?thesis by (simp add: syscall_recv_def)
  next
    case False
    with r obtain x k1 where s: "sys_recv (unat h) (From_Syscall p) (in_old_rsp i) (in_batches i) k = Inr (x, k1)"
      by (auto simp: syscall_recv_def and_then_Inr)
    with r False obtain y where y: "x = Returned y" by (cases x) (auto simp: syscall_recv_def)
    have "quiet_call k k1"
      using sys_recv_Returned [OF s [unfolded y]] by (auto simp: quiet_call_def collect_def)
    moreover have "mem_step k1 k'"
      using r False s y by (cases y) (auto simp: syscall_recv_def and_then_Inr dest: deliver_mem)
    ultimately show ?thesis by (auto simp: quiet_call_def mem_step_sel intro!: effect_quiet)
  qed
qed

lemma effect_port_in: "sys_port_in h p w k = Inr (Returned v, k') \<Longrightarrow> effect k k'"
  by (auto simp: sys_port_in_def with_cspace_Inr do_port_in_def Let_def split: if_splits intro: effect_port)

lemma effect_port_out: "sys_port_out h p w x k = Inr (Returned v, k') \<Longrightarrow> effect k k'"
  by (auto simp: sys_port_out_def with_cspace_Inr do_port_out_def Let_def split: if_splits intro: effect_port)

lemma effect_frame_alloc: "sys_frame_alloc n k = Inr (Returned v, k') \<Longrightarrow> effect k k'"
proof -
  assume r: "sys_frame_alloc n k = Inr (Returned v, k')"
  show ?thesis
  proof (cases "n > 4096")
    case True
    with r show ?thesis by (auto simp: sys_frame_alloc_def quiet_call_def intro!: effect_quiet)
  next
    case False
    with r obtain f a where a: "allocate_frame (falloc k) = Inr (f, a)"
      by (auto simp: sys_frame_alloc_def and_then_Inr)
    show ?thesis
    proof (cases f)
      case None
      with r False a show ?thesis by (auto simp: sys_frame_alloc_def quiet_call_def intro!: effect_quiet)
    next
      case (Some p)
      with a have "new_cap k (MemoryMap p 4096)"
        by (auto simp: new_cap_def dest: allocate_frame_free)
      with r False a Some show ?thesis
        by (auto simp: sys_frame_alloc_def intro: effect_insert)
    qed
  qed
qed

lemma effect_dma_alloc: "sys_dma_alloc n k = Inr (Returned v, k') \<Longrightarrow> effect k k'"
proof -
  assume r: "sys_dma_alloc n k = Inr (Returned v, k')"
  obtain f pool m where d: "allocate_dma_frames (hhdm_offset k) n (dma k) (kmem k) = (f, pool, m)"
    by (metis prod_cases3)
  show ?thesis
  proof (cases f)
    case None
    with r d show ?thesis by (auto simp: sys_dma_alloc_def quiet_call_def intro!: effect_quiet)
  next
    case (Some p)
    with d have "new_cap k (MemoryMap p n)"
      by (auto simp: new_cap_def allocate_dma_frames_def Let_def split: if_splits)
    with r d Some show ?thesis by (auto simp: sys_dma_alloc_def intro: effect_insert)
  qed
qed

lemma effect_thread_spawn: "sys_thread_spawn e s i k = Inr (r, k') \<Longrightarrow> effect k k'"
  by (auto simp: sys_thread_spawn_def new_user_thread_def add_thread_def Let_def quiet_call_def
      split: if_splits option.splits intro!: effect_quiet)

lemma effect_cap_info: "sys_cap_info h k = Inr (r, k') \<Longrightarrow> effect k k'"
  by (auto simp: sys_cap_info_def with_cspace_Inr quiet_call_def intro!: effect_quiet)

lemma effect_waits:
  "sys_yield i k = Inr (Returned v, k') \<Longrightarrow> effect k k'"
  "sys_exit i k = Inr (Returned v, k') \<Longrightarrow> effect k k'"
  "syscall_wait h i k = Inr (Returned v, k') \<Longrightarrow> effect k k'"
  "syscall_wait_irq h i k = Inr (Returned v, k') \<Longrightarrow> effect k k'"
  by (auto simp: sys_yield_def sys_exit_def syscall_wait_def syscall_wait_irq_def returning_Returned and_then_Inr
      quiet_call_def dest!: yield_now_Returned sys_wait_Returned sys_wait_irq_Returned intro!: effect_quiet)

lemma syscall_effect:
  assumes "syscall_handler r i k = Inr (Returned v, k')"
    and "caller_in_range k"
  shows "effect k k'"
proof -
  have spawn: "sys_spawn p l h i k = Inr (Returned v, k') \<Longrightarrow> effect k k'" for p l h
    by (rule effect_sys_spawn [OF _ assms(2)])
  have memory: "sys_map_phys h p l k = Inr (Returned v, k') \<Longrightarrow> effect k k'"
    "sys_framebuffer_info q k = Inr (Returned v, k') \<Longrightarrow> effect k k'" for h p l q
    by (erule effect_quiet [OF quiet_mem_step [OF sys_map_phys_mem]]
        effect_quiet [OF quiet_mem_step [OF sys_framebuffer_info_mem]])+
  have unknown: "Inr (Returned ERR_INVALID_ARG, k) = (Inr (Returned v, k') :: panic + _) \<Longrightarrow> effect k k'"
    by auto
  show ?thesis
    using assms(1)
    by (simp only: syscall_handler_def Let_def split: if_split_asm)
      (erule effect_waits effect_sys_log effect_ep_create effect_send effect_recv spawn effect_port_in
        effect_port_out memory effect_frame_alloc effect_dma_alloc effect_cap_info effect_thread_spawn unknown)+
qed

section \<open>Device ports are reached only through capabilities\<close>

text \<open>
  C12: Every port that a returning system call reads or writes is covered, over its whole width,
  by a port capability of the calling thread; no other device access happens.
\<close>

theorem port_io_confined:
  assumes "syscall_handler r i k = Inr (Returned v, k')"
    and "caller_in_range k"
  shows "\<exists>es. io_trace k' = io_trace k @ es \<and> list_all (authorised k) es"
  using syscall_effect [OF assms] unfolding effect_def
  by (auto simp: quiet_call_def io_def spawns_def)

text \<open>The calls of the witnesses: number and arguments, and the value returned.\<close>

definition regs :: "u64 \<Rightarrow> u64 \<Rightarrow> u64 \<Rightarrow> u64 \<Rightarrow> user_regs" where
  "regs n a b c = \<lparr>u_rdi = a, u_rsi = b, u_rdx = c, u_r10 = 0, u_r8 = 0, u_r9 = 0, u_rax = n\<rparr>"

definition sample_call :: call_inputs where
  "sample_call = \<lparr>in_rax = 0, in_old_rsp = 0x11F00, in_batches = [], in_stack_ptr = 0x50000\<rparr>"

definition returned :: "panic + u64 outcome \<times> 'k \<Rightarrow> u64 option" where
  "returned m = (case m of Inr (Returned v, k) \<Rightarrow> Some v | _ \<Rightarrow> None)"

lemma returned_Some: "returned m = Some v \<longleftrightarrow> (\<exists>k. m = Inr (Returned v, k))"
  by (auto simp: returned_def split: sum.splits prod.splits outcome.splits)

lemma sample_in_range: "caller_in_range sample_machine"
  by code_simp

theorem port_io_confined_witness:
  "\<exists>k'. syscall_handler (regs 9 2 0x60 1) sample_call sample_machine = Inr (Returned 0x1C, k') \<and>
     (\<exists>es. io_trace k' = io_trace sample_machine @ es \<and> list_all (authorised sample_machine) es)"
proof -
  have "returned (syscall_handler (regs 9 2 0x60 1) sample_call sample_machine) = Some 0x1C"
    by code_simp
  then obtain k' where k': "syscall_handler (regs 9 2 0x60 1) sample_call sample_machine = Inr (Returned 0x1C, k')"
    by (auto simp: returned_Some)
  with port_io_confined [OF k' sample_in_range] show ?thesis by blast
qed

section \<open>Capabilities grow only by what the kernel creates\<close>

lemma inserts_caps:
  assumes "inserts f c cap k'" and "x \<in> caps_of (cspaces k' d)"
  shows "x \<in> caps_of (f d) \<or> d = c \<and> x = cap"
  using assms by (auto simp: inserts_def caps_of_insert split: if_splits)



end
