(* ===== verification/Memory_Authority.thy ===== *)
theory Memory_Authority
  imports Syscall_Authority
begin

text \<open>
  Physical memory as a resource of user programs: what \<open>SYS_MAP_PHYS\<close>, \<open>SYS_FRAME_ALLOC\<close> and
  \<open>SYS_DMA_ALLOC\<close> let a program reach.
\<close>

section \<open>Mapping stays inside the capability\<close>

text \<open>The frames that a memory capability reaches: the pages that overlap its range.\<close>

definition cap_frames :: "u64 \<Rightarrow> u64 \<Rightarrow> u64 set" where
  "cap_frames start len =
     {f. f AND 0xFFF = 0 \<and> unat start div 4096 * 4096 \<le> unat f \<and> unat f < unat start + unat len}"

lemma and_not_page:
  "unat (a AND NOT 0xFFF) = unat a div 4096 * 4096"
  "(a AND NOT 0xFFF) AND 0xFFF = 0" for a :: u64
proof -
  have m: "(0xFFF :: u64) = mask 12" by (simp add: mask_eq_exp_minus_1)
  show "unat (a AND NOT 0xFFF) = unat a div 4096 * 4096"
    using unat_and_not_mask [of a 12] by (simp add: m)
  show "(a AND NOT 0xFFF) AND 0xFFF = 0"
    by (simp add: and.assoc)
qed

lemma map_allowed_range:
  assumes "map_allowed p l start len" and "unat x < 2 ^ 52"
    and "unat p \<le> unat x" and "unat x < unat p + unat l"
  shows "x AND NOT 0xFFF \<in> cap_frames start len"
proof -
  from assms(1) have s: "unat start \<le> unat p"
    and e: "min (unat p + unat l) (2 ^ 64 - 1) \<le> min (unat start + unat len) (2 ^ 64 - 1)"
    by (simp_all add: map_allowed_def Let_def word_le_nat_alt unat_saturating_add)
  have "unat x < unat start + unat len"
    using e assms(2,4) by (cases "unat p + unat l \<le> 2 ^ 64 - 1") auto
  moreover have "unat start div 4096 * 4096 \<le> unat x div 4096 * 4096"
    using s assms(3) by (simp add: div_le_mono)
  moreover have "unat x div 4096 * 4096 \<le> unat x" by (rule div_times_less_eq_dividend)
  ultimately show ?thesis
    unfolding cap_frames_def mem_Collect_eq and_not_page by (intro conjI refl) linarith+
qed

text \<open>The loop of \<open>do_map_phys\<close> with an arbitrary invariant of memory and allocator.\<close>

lemma map_phys_loop_keeps:
  assumes "crate_ok k" and "Q (kmem k, falloc k)" and "map_to k = mt"
    and step: "\<And>f m a page r m' a'. f \<in> F \<Longrightarrow> Q (m, a) \<Longrightarrow> mt pt page f MAP_FLAGS (m, a) = Inr (r, m', a') \<Longrightarrow> Q (m', a')"
    and "\<And>i x. i < length pages \<Longrightarrow> unat x = unat p + i * 4096 \<Longrightarrow> unat x < 2 ^ 52 \<Longrightarrow> x AND NOT 0xFFF \<in> F"
    and "for_loop (map_phys_page pt) (k, p) pages = Inr (k', p')"
  shows "Q (kmem k', falloc k')"
  using assms(1-3,5-)
proof (induction pages arbitrary: k p)
  case (Cons page pages)
  from Cons.prems(5) obtain s1 where 1: "map_phys_page pt (k, p) page = Inr s1"
    and 2: "for_loop (map_phys_page pt) s1 pages = Inr (k', p')"
    by (auto split: sum.splits)
  from 1 obtain r m a where
    ok: "phys_addr_ok k p" and
    mt: "map_to k pt page (frame_containing k p) MAP_FLAGS (kmem k, falloc k) = Inr (r, m, a)" and
    s1: "s1 = (k\<lparr>kmem := m, falloc := a\<rparr>, p + 4096)"
    by (auto simp: map_phys_page_def mapper_map_to_def and_then_Inr PhysAddr_new_def checked_Inr split: if_splits)
  let ?k = "k\<lparr>kmem := m, falloc := a\<rparr>"
  from ok Cons.prems(1) have p: "unat p < 2 ^ 52" by (simp add: crate_ok_def word_less_nat_alt)
  then have p4: "unat (p + 4096) = unat p + 4096" by (simp add: unat_word_ariths)
  have f: "frame_containing k p = p AND NOT 0xFFF" using Cons.prems(1) by (simp add: crate_ok_def)
  have F: "p AND NOT 0xFFF \<in> F" using Cons.prems(4) [of 0 p] p by simp
  have q: "Q (m, a)" by (rule step [OF F Cons.prems(2) mt [unfolded f Cons.prems(3)]])
  show ?case
  proof (rule Cons.IH [OF _ _ _ _ 2 [unfolded s1]])
    show "crate_ok ?k" using Cons.prems(1) by (simp add: crate_ok_def)
    show "Q (kmem ?k, falloc ?k)" and "map_to ?k = mt" using q Cons.prems(3) by simp_all
    show "x AND NOT 0xFFF \<in> F" if "i < length pages" "unat x = unat (p + 4096) + i * 4096" "unat x < 2 ^ 52" for i x
      using Cons.prems(4) [of "Suc i" x] that p4 by simp
  qed
qed simp

text \<open>The pages of a mapping window: one per started page of the length, none when the addresses wrap around.\<close>

lemma crate_okD:
  assumes "crate_ok k"
  shows "page_containing k x = x AND NOT 0xFFF" and "frame_containing k x = x AND NOT 0xFFF"
    and "x AND 0xFFF = 0 \<Longrightarrow> y AND 0xFFF = 0 \<Longrightarrow> page_range_inclusive k x y =
       (if x \<le> y then pages_from x (unat ((y - x) div 4096) + 1) else [])"
    and "virt_addr_ok k x \<longleftrightarrow> x < 0x800000000000 \<or> 0xFFFF800000000000 \<le> x"
    and "phys_addr_ok k x \<longleftrightarrow> x < 0x10000000000000"
  using assms by (simp_all add: crate_ok_def)

lemma unat_and_page: "unat (a AND 0xFFF) = unat a mod 4096" for a :: u64
proof -
  have "a AND 0xFFF = take_bit 12 a" by (simp add: take_bit_eq_mask mask_eq_exp_minus_1)
  then have "unat (a AND 0xFFF) = take_bit 12 (unat a)" by (simp only: unsigned_take_bit_eq)
  then show ?thesis by (simp add: take_bit_eq_mod)
qed

lemma aligned_page: "v AND 0xFFF = 0 \<Longrightarrow> v AND NOT 0xFFF = v" for v :: u64
proof -
  assume "v AND 0xFFF = 0"
  then have "unat v mod 4096 = 0" using unat_and_page [of v] by (simp only: unsigned_0)
  then have "unat v div 4096 * 4096 = unat v" by (simp add: mod_eq_0_iff_dvd)
  then have "unat (v AND NOT 0xFFF) = unat v" unfolding and_not_page .
  then show ?thesis by (simp only: word_unat_eq_iff)
qed

lemma window_pages:
  assumes ok: "crate_ok k" and v: "v AND 0xFFF = 0" "v \<noteq> 0"
    and i: "i < length (page_range_inclusive k (page_containing k v) (page_containing k (v + len - 1)))"
  shows "i * 4096 < unat len"
proof -
  define e where "e = (v + len - 1) AND NOT 0xFFF"
  have e0: "e AND 0xFFF = 0" unfolding e_def by (rule and_not_page)
  have "page_range_inclusive k (page_containing k v) (page_containing k (v + len - 1)) =
      (if v \<le> e then pages_from v (unat ((e - v) div 4096) + 1) else [])"
    unfolding crate_okD(1) [OF ok] aligned_page [OF v(1)] e_def [symmetric]
    by (rule crate_okD(3) [OF ok v(1) e0])
  with i have le: "v \<le> e" and i: "i < unat ((e - v) div 4096) + 1"
    by (simp_all add: pages_from_def split: if_splits)
  have e: "unat e \<le> unat (v + len - 1)"
    unfolding e_def and_not_page by (rule div_times_less_eq_dividend)
  then have ve: "v \<le> v + len - 1" using le by (simp add: word_le_nat_alt)
  then have "unat (v + len - 1 - v) = unat (v + len - 1) - unat v" by (rule unat_sub)
  then have l: "unat (v + len - 1) - unat v = unat (len - 1)" by (simp add: algebra_simps)
  have "unat ((e - v) div 4096) = (unat e - unat v) div 4096"
    using le by (simp add: unat_div unat_sub)
  with i have "i * 4096 \<le> unat e - unat v" by (simp add: less_eq_div_iff_mult_less_eq)
  with e l have m: "i * 4096 \<le> unat (len - 1)" by linarith
  have "len \<noteq> 0"
  proof
    assume "len = 0"
    then have "unat v \<le> unat (v - 1)" using ve by (simp add: word_le_nat_alt)
    moreover have "0 < unat v" using v(2) by (simp add: unat_gt_0)
    ultimately show False using v(2) by (simp add: unat_minus_one)
  qed
  then have "unat (len - 1) < unat len" by (simp add: unat_minus_one unat_gt_0)
  with m show ?thesis by linarith
qed

text \<open>
  C14: A successful \<open>SYS_MAP_PHYS\<close> maps only frames that the memory capability behind the handle
  reaches, at page granularity: whatever a mapping of such frames keeps (an arbitrary property
  \<open>Q\<close> of memory and frame allocator), the call keeps.
\<close>

theorem map_phys_confined:
  assumes run: "sys_map_phys handle phys_addr len k = Inr (r, k')" and ok: "crate_ok k"
    and h: "unat handle < 2 ^ 32"
    and tc: "current_cspace k = Inr (t, c)"
    and cap: "cspace_get (cspaces k c) (unat handle) = Some (MemoryMap start cap_len)"
    and step: "\<And>pt page frame m a r m' a'. frame \<in> cap_frames start cap_len \<Longrightarrow> Q (m, a) \<Longrightarrow>
      map_to k pt page frame MAP_FLAGS (m, a) = Inr (r, m', a') \<Longrightarrow> Q (m', a')"
    and Q: "Q (kmem k, falloc k)"
  shows "Q (kmem k', falloc k')"
  using run
proof (cases rule: sys_map_phys_cases)
  case (mapped t' c' start' cap_len' p l root)
  with tc cap have al: "map_allowed p l start cap_len" by simp
  from mapped(6) obtain off p' where
    loop: "for_loop (map_phys_page (root + hhdm_offset k, off)) (k, p)
      (page_range_inclusive k (page_containing k (map_window handle))
        (page_containing k (map_window handle + l - 1))) = Inr (k', p')"
    by (auto simp: do_map_phys_def and_then_Inr VirtAddr_new_def checked_Inr Let_def)
  have "unat (map_window handle) = (0x80000 + unat handle * 0x1000) * 4096"
    using h by (simp add: map_window_def unat_word_ariths)
  then have "unat (map_window handle) mod 4096 = 0" and "unat (map_window handle) \<noteq> 0" by simp_all
  then have "unat (map_window handle AND 0xFFF) = 0" and "unat (map_window handle) \<noteq> 0"
    unfolding unat_and_page by simp_all
  then have w: "map_window handle AND 0xFFF = 0" "map_window handle \<noteq> 0" by (simp_all add: unat_eq_0)
  show ?thesis
  proof (rule map_phys_loop_keeps [where Q = Q and F = "cap_frames start cap_len", OF ok Q refl step _ loop])
    fix i and x :: u64
    assume i: "i < length (page_range_inclusive k (page_containing k (map_window handle))
        (page_containing k (map_window handle + l - 1)))"
      and x: "unat x = unat p + i * 4096" "unat x < 2 ^ 52"
    from window_pages [OF ok w i] x show "x AND NOT 0xFFF \<in> cap_frames start cap_len"
      by (intro map_allowed_range [OF al]) simp_all
  qed
qed (use Q in simp)

text \<open>A property that depends on the capability: the frame at \<open>0x2000\<close>, which is not part of it, is mapped nowhere below.\<close>

theorem map_phys_confined_witness:
  "\<exists>k'. sys_map_phys 3 u64_max u64_max sample_machine = Inr (Returned 0x83000000, k') \<and>
     0x2000 \<notin> cap_frames 0x30000 0x2000 \<and>
     falloc k' = falloc sample_machine"
proof -
  have "returned (sys_map_phys 3 u64_max u64_max sample_machine) = Some 0x83000000" by code_simp
  then obtain k' where k': "sys_map_phys 3 u64_max u64_max sample_machine = Inr (Returned 0x83000000, k')"
    by (auto simp: returned_Some)
  define Q :: "mem \<times> bitmap_allocator \<Rightarrow> bool" where "Q s \<longleftrightarrow> snd s = falloc sample_machine" for s
  have h: "unat (3 :: u64) < 2 ^ 32" by simp
  have tc: "current_cspace sample_machine = Inr (sample_task 1 0x10000, 0)"
    by (simp add: current_cspace_def sample_machine_def sample_task_def)
  have cap: "cspace_get (cspaces sample_machine 0) (unat (3 :: u64)) = Some (MemoryMap 0x30000 0x2000)"
    by (simp add: cspace_get_def sample_machine_def sample_slots_def)
  have mt: "map_to sample_machine = toy_map_to" by (simp add: sample_machine_def)
  have "Q (kmem k', falloc k')"
  proof (rule map_phys_confined [where Q = Q, OF k' sample_crate_ok h tc cap])
    show "Q (m', a')" if "Q (m, a)" "map_to sample_machine pt page frame MAP_FLAGS (m, a) = Inr (r, m', a')"
      for pt page frame m a r m' a'
      using that unfolding mt by (auto simp: toy_map_to_def Q_def Let_def split: option.splits if_splits)
    show "Q (kmem sample_machine, falloc sample_machine)" by (simp add: Q_def)
  qed
  with k' show ?thesis by (simp add: Q_def cap_frames_def)
qed

section \<open>The DMA pool gives away all memory above it\<close>

text \<open>
  C37: A program without any capability obtains access to all physical memory above the DMA pool
  with one call: \<open>SYS_DMA_ALLOC\<close> with the size \<open>u64::MAX\<close> succeeds, because the size rounds to
  zero, and inserts a memory capability of that size, with which \<open>SYS_MAP_PHYS\<close> accepts every
  range that starts above the pool.
\<close>

theorem dma_alloc_escalates:
  assumes tc: "current_cspace k = Inr (t, c)" and inv: "dma_inv (dma k)"
    and p: "DMA_POOL_PHYS (dma k) + DMA_POOL_USED (dma k) \<le> phys_addr"
  shows "\<exists>h k'. sys_dma_alloc u64_max k = Inr (Returned (of_nat h), k') \<and>
    (\<exists>start cap_len. cspace_get (cspaces k' c) h = Some (MemoryMap start cap_len) \<and>
       map_allowed phys_addr len start cap_len)"
proof -
  let ?p = "DMA_POOL_PHYS (dma k) + DMA_POOL_USED (dma k)"
  have rounded: "(u64_max + PAGE_SIZE - 1) AND NOT (PAGE_SIZE - 1) = 0" by code_simp
  from inv have "DMA_POOL_USED (dma k) \<le> 65536" by (simp add: dma_inv_def)
  then have "\<exists>pool m. allocate_dma_frames (hhdm_offset k) u64_max (dma k) (kmem k) = (Some ?p, pool, m)"
    unfolding allocate_dma_frames_def Let_def rounded by simp
  then obtain pool m where d: "allocate_dma_frames (hhdm_offset k) u64_max (dma k) (kmem k) = (Some ?p, pool, m)"
    by blast
  obtain h cs where ins: "cspace_insert (cspaces k c) (MemoryMap ?p u64_max) = (h, cs)" by fastforce
  have "unat (saturating_add ?p u64_max) = 2 ^ 64 - 1" by (simp add: unat_saturating_add)
  moreover have "unat phys_addr \<le> unat (saturating_add phys_addr len)" using unat_lt_2p64 [of phys_addr]
    by (simp add: unat_saturating_add del: unat_lt_2p64)
  moreover have "unat (saturating_add phys_addr len) \<le> 2 ^ 64 - 1" by (simp add: unat_saturating_add)
  ultimately have "map_allowed phys_addr len ?p u64_max"
    using p by (simp add: map_allowed_def Let_def word_le_nat_alt)
  moreover have "current_cspace (k\<lparr>dma := pool, kmem := m\<rparr>) = Inr (t, c)"
    using tc by (simp add: current_cspace_def)
  ultimately show ?thesis
    using d ins cspace_get_insert [OF ins]
    by (auto simp: sys_dma_alloc_def insert_cap_def with_cspace_def Let_def)
qed

theorem dma_alloc_escalates_witness:
  "\<exists>h k'. sys_dma_alloc u64_max sample_machine = Inr (Returned (of_nat h), k') \<and>
     (\<exists>start cap_len. cspace_get (cspaces k' 0) h = Some (MemoryMap start cap_len) \<and>
        map_allowed 0xFEE00000 4096 start cap_len)"
proof (rule dma_alloc_escalates)
  show "current_cspace sample_machine = Inr (sample_task 1 0x10000, 0)"
    by (simp add: current_cspace_def sample_machine_def sample_task_def)
qed (simp_all add: sample_machine_def dma_inv_def)

end
