(* ===== verification/Syscall_Behaviour.thy ===== *)
theory Syscall_Behaviour
  imports Memory_Authority
begin

text \<open>
  System calls branch by branch: pointers that are rejected or fault, what a spawned process
  receives, and mapping the same capability twice.
\<close>

section \<open>User pointers\<close>

text \<open>The buffer that a call reads or writes: system calls 2, 4, 5, 6 and 12.\<close>

definition pointer_arg :: "user_regs \<Rightarrow> (u64 \<times> u64) option" where
  "pointer_arg r =
     (let n = u_rax r in
      if n = 2 \<or> n = 6 then Some (u_rdi r, u_rsi r)
      else if n = 4 \<or> n = 5 then Some (u_rsi r, 48)
      else if n = 12 then Some (u_rdi r, 48)
      else None)"

lemma bad_range_iff: "bad_range p l \<longleftrightarrow> 2 ^ 47 \<le> unat p + unat l"
proof (cases "unat p + unat l < 2 ^ 64")
  case True
  then have "unat (p + l) = unat p + unat l" by (rule unat_add_no_wrap)
  with True show ?thesis
    by (simp add: bad_range_def checked_add_def USER_END_def word_le_nat_alt)
next
  case False
  then show ?thesis by (simp add: bad_range_def checked_add_def)
qed

text \<open>
  C25: A call whose buffer overflows the address space or reaches the non-canonical half is
  rejected with \<open>ERR_BAD_ADDRESS\<close> and has no effect, whatever the other arguments are.
\<close>

theorem bad_pointer_rejected:
  assumes "pointer_arg r = Some (p, l)" and "2 ^ 47 \<le> unat p + unat l"
  shows "syscall_handler r i k = Inr (Returned ERR_BAD_ADDRESS, k)"
proof -
  from assms(2) have b: "bad_range p l" by (simp only: bad_range_iff)
  from assms(1) consider "u_rax r = 2" "p = u_rdi r" "l = u_rsi r" | "u_rax r = 6" "p = u_rdi r" "l = u_rsi r"
    | "u_rax r = 4" "p = u_rsi r" "l = 48" | "u_rax r = 5" "p = u_rsi r" "l = 48"
    | "u_rax r = 12" "p = u_rdi r" "l = 48"
    by (auto simp: pointer_arg_def Let_def split: if_splits)
  then show ?thesis
    using b by cases (simp_all add: syscall_handler_def Let_def sys_log_def sys_spawn_def syscall_send_def
        syscall_recv_def sys_framebuffer_info_def)
qed

theorem bad_pointer_rejected_witness:
  "pointer_arg (regs 2 u64_max 16 0) = Some (u64_max, 16) \<and>
   syscall_handler (regs 2 u64_max 16 0) sample_call sample_machine = Inr (Returned (- 2), sample_machine)"
proof -
  have "pointer_arg (regs 2 u64_max 16 0) = Some (u64_max, 16)" by (simp add: pointer_arg_def regs_def)
  moreover have "2 ^ 47 \<le> unat u64_max + unat (16 :: u64)" by simp
  ultimately show ?thesis
    using bad_pointer_rejected [of "regs 2 u64_max 16 0" u64_max 16] by (simp add: ERR_BAD_ADDRESS_def)
qed

lemma read_user_faults:
  assumes "i < n" and "user_phys Read_Access k (v + of_nat i) = None"
  shows "read_user k v n = Inl kernel_page_fault"
  using assms
proof (induction n arbitrary: v i)
  case (Suc n)
  show ?case
  proof (cases i)
    case 0
    with Suc.prems show ?thesis by simp
  next
    case (Suc j)
    with Suc.prems Suc.IH [of j "v + 1"] show ?thesis
      by (auto simp: add.assoc split: option.splits)
  qed
qed simp

text \<open>
  The pointer check looks at the range only. A log call with a buffer in the user range of
  which one byte is not mapped makes the kernel itself fault, and its page fault handler halts
  the whole system.
\<close>

lemma unmapped_pointer_halts:
  assumes "u_rax r = 2" and "unat (u_rdi r) + unat (u_rsi r) < 2 ^ 47"
    and "j < unat (u_rsi r)" and "user_phys Read_Access k (u_rdi r + of_nat j) = None"
  shows "syscall_handler r i k = Inl kernel_page_fault"
proof -
  from assms(2) have "\<not> bad_range (u_rdi r) (u_rsi r)" by (simp only: bad_range_iff not_le)
  with assms(1) read_user_faults [OF assms(3,4)] show ?thesis
    by (simp add: syscall_handler_def Let_def sys_log_def)
qed

lemma unmapped_pointer_halts_witness:
  "user_phys Read_Access sample_machine 0x5000 = None \<and>
   syscall_handler (regs 2 0x5000 1 0) sample_call sample_machine = Inl (Panic ''KERNEL PAGE FAULT'')"
proof -
  have n: "user_phys Read_Access sample_machine 0x5000 = None" by code_simp
  with unmapped_pointer_halts [of "regs 2 0x5000 1 0" 0 sample_machine sample_call] show ?thesis
    by (simp add: regs_def kernel_page_fault_def)
qed

section \<open>Spawning\<close>

lemma sys_spawn_cases:
  assumes "sys_spawn name_ptr name_len ep_handle i k = Inr (Returned v, k')"
  obtains (rejected) "k' = k"
  | (spawned) t c elf ps child k1 k2 where
    "current_cspace k = Inr (t, c)"
    "spawn_from_elf elf (granted_cap (cspace_get (cspaces k c) (unat ep_handle))) (in_stack_ptr i) k = Inr ((ps, child), k1)"
    "child_caps ep_handle child k1 = Inr k2"
    "insert_cap (Process ps RIGHTS_WAIT) k2 = Inr (Returned v, k')"
proof (cases "k' = k")
  case False
  with assms spawned show thesis
    by (auto simp: sys_spawn_def and_then_Inr with_cspace_Inr split: if_splits option.splits)
qed (rule rejected)

text \<open>
  C24: A process spawned with the handle \<open>usize::MAX\<close> starts with exactly the capabilities of its
  parent, at the same handles; the parent gets a process capability at its first free handle,
  which is the value of the call.
\<close>

theorem spawn_clones_caps:
  assumes run: "sys_spawn name_ptr name_len u64_max i k = Inr (Returned v, k')" and new: "next_cspace k' \<noteq> next_cspace k"
    and tc: "current_cspace k = Inr (t, c)" and range: "caller_in_range k"
    and size: "length (slots (cspaces k c)) < 2 ^ 64 - 1"
  shows "cspace_get (cspaces k' (next_cspace k)) = cspace_get (cspaces k c) \<and>
    (\<exists>h. v = of_nat h \<and> cspace_get (cspaces k c) h = None \<and>
       cspace_get (cspaces k' c) = (cspace_get (cspaces k c))(h \<mapsto> Process (next_proc k) RIGHTS_WAIT))"
  using run
proof (cases rule: sys_spawn_cases)
  case (spawned t' c' elf ps child k1 k2)
  note s = spawn_from_elf_Inr [OF spawned(2)]
  have c': "c' = c" using spawned(1) tc by simp
  have c: "c < next_cspace k" using range tc by (simp add: caller_in_range_def)
  have "cspace_get (cspaces k c) (unat u64_max) = None" using size by (simp add: cspace_get_def)
  then have k1: "cspaces k1 = (cspaces k)(next_cspace k := cspace_new)" using s(6) c' by (simp add: granted_cap_def)
  have tc1: "current_cspace k1 = Inr (t, c)" using tc s(3) by (simp add: current_cspace_def)
  let ?child = "copy_slots cspace_insert_at 0 (slots (cspaces k c)) cspace_new"
  from spawned(3) tc1 k1 s(2) c have k2: "cspaces k2 = (cspaces k)(next_cspace k := ?child)" "current k2 = current k1"
    by (auto simp: child_caps_def clone_caps_def with_cspace_Inr)
  have child: "cspace_get ?child = cspace_get (cspaces k c)"
    by (rule ext, simp add: cs.copy_slots_lookup) (simp add: cspace_get_def)
  have "current_cspace k2 = Inr (t, c)" using tc1 k2(2) by (simp add: current_cspace_def)
  with spawned(4) obtain h cs where ins: "cspace_insert (cspaces k2 c) (Process ps RIGHTS_WAIT) = (h, cs)"
    and v: "v = of_nat h" and k': "cspaces k' = (cspaces k2)(c := cs)"
    by (auto simp: insert_cap_Inr)
  have old: "cspaces k2 c = cspaces k c" using k2 c by simp
  show ?thesis
    using k' k2 c child v s(1) cspace_get_insert [OF ins] cspace_insert_free [OF ins] by (auto simp: old)
qed (use new in simp)

text \<open>A machine with one program in its initial file system; the caller has its name in memory.\<close>

definition sample_elf :: bytes where
  "sample_elf =
     ELFMAG @ replicate 20 0 @ word_le 8 (0x2000 :: u64) @ word_le 8 (64 :: u64) @ replicate 16 0 @
     word_le 2 (1 :: u16) @ replicate 6 0 @
     word_le 4 (1 :: u32) @ replicate 4 0 @ word_le 8 (120 :: u64) @ word_le 8 (0x2000 :: u64) @
     replicate 8 0 @ word_le 8 (2 :: u64) @ word_le 8 (16 :: u64) @ replicate 8 0 @ [0x90, 0xF4]"

definition spawn_machine :: machine where
  "spawn_machine = sample_machine\<lparr>
     kmem := (kmem sample_machine)(0xFFFF800000003000 := 0x61),
     initramfs := archive [(sample_header [0x61] (length sample_elf) 0x30, [0x61], sample_elf)]\<rparr>"

definition spawn_entry :: "bytes \<times> bytes \<times> bytes" where
  "spawn_entry = (sample_header [0x61] (length sample_elf) 0x30, [0x61], sample_elf)"

lemma spawn_find_file: "find_file (initramfs spawn_machine) [0x61] = Some sample_elf"
proof -
  have "wf_entries [spawn_entry]" by code_simp
  moreover have "map_of (regular_files [spawn_entry]) [0x61] = Some sample_elf" by code_simp
  ultimately show ?thesis
    using find_from_archive [of "[spawn_entry]" "[]" "[0x61]"]
    by (simp add: find_file_def spawn_machine_def spawn_entry_def)
qed

lemma spawn_loads: "\<exists>f k1. user_address_space sample_elf spawn_machine = Inr (f, k1)"
proof -
  have "case user_address_space sample_elf spawn_machine of Inl _ \<Rightarrow> False | Inr _ \<Rightarrow> True" by code_simp
  then show ?thesis by (auto split: sum.splits)
qed

lemma spawn_caller:
  "current_cspace spawn_machine = Inr (sample_task 1 0x10000, 0)" "caller_in_range spawn_machine"
  "cspaces spawn_machine 0 = \<lparr>slots = sample_slots\<rparr>" "next_cspace spawn_machine = 1"
  by (simp_all add: spawn_machine_def current_cspace_def sample_machine_def sample_task_def caller_in_range_def)

lemma spawn_runs:
  "\<exists>k'. sys_spawn 0x1000 1 u64_max sample_call spawn_machine = Inr (Returned 4, k') \<and> next_cspace k' = 2"
proof -
  obtain r k1 where r: "spawn_from_elf sample_elf None (in_stack_ptr sample_call) spawn_machine = Inr (r, k1)"
    using spawn_loads
    by (force simp: spawn_from_elf_def Let_def new_cspace_def new_process_state_def new_user_thread_def)
  obtain ps child where r': "r = (ps, child)" by (cases r)
  note s = spawn_from_elf_Inr [OF r [unfolded r']]
  have g: "cspace_get \<lparr>slots = sample_slots\<rparr> (unat u64_max) = None" by (simp add: cspace_get_def sample_slots_def)
  have tc: "current_cspace k1 = Inr (sample_task 1 0x10000, 0)"
    using spawn_caller(1) s(3) by (simp add: current_cspace_def)
  have cc: "current_cspace (k1\<lparr>cspaces := x\<rparr>) = current_cspace k1" for x by (simp add: current_cspace_def)
  have c1: "cspaces k1 0 = \<lparr>slots = sample_slots\<rparr>" using s(6) spawn_caller(3,4) by simp
  have ins: "\<exists>cs. cspace_insert \<lparr>slots = sample_slots\<rparr> (Process ps RIGHTS_WAIT) = (4, cs)"
    by (simp add: sample_slots_def cspace_insert_def)
  have name: "read_user spawn_machine 0x1000 (Suc 0) = Inr [0x61]" by code_simp
  have ok: "\<not> bad_range 0x1000 1" "utf8_valid [0x61]" by code_simp+
  show ?thesis
    using ins s(2,5) r'
    by (auto simp: sys_spawn_def ok name with_cspace_def spawn_caller g [simplified] granted_cap_def
        spawn_find_file r child_caps_def clone_caps_def cc tc c1 insert_cap_def simp del: read_user.simps)
qed

theorem spawn_clones_caps_witness:
  "\<exists>k'. sys_spawn 0x1000 1 u64_max sample_call spawn_machine = Inr (Returned 4, k') \<and>
     cspace_get (cspaces k' 1) = cspace_get (cspaces spawn_machine 0)"
proof -
  obtain k' where k': "sys_spawn 0x1000 1 u64_max sample_call spawn_machine = Inr (Returned 4, k')" "next_cspace k' = 2"
    using spawn_runs by blast
  have "next_cspace k' \<noteq> next_cspace spawn_machine" using k' by (simp add: spawn_caller)
  from spawn_clones_caps [OF k'(1) this spawn_caller(1,2)] k'(1) show ?thesis
    by (simp add: spawn_caller sample_slots_def)
qed

section \<open>Mapping twice\<close>

text \<open>The documented behaviour of \<open>map_to\<close>: a page that has just been mapped is not mapped again.\<close>

definition remap_rejected :: "'a machine_scheme \<Rightarrow> bool" where
  "remap_rejected k \<longleftrightarrow>
     (\<forall>pt page f fl s s' f' fl'. map_to k pt page f fl s = Inr (Map_Ok, s') \<longrightarrow>
        map_to k pt page f' fl' s' = Inr (PageAlreadyMapped, s'))"

lemma map_window_aligned:
  assumes "unat handle < 2 ^ 32"
  shows "map_window handle AND 0xFFF = 0" and "map_window handle \<noteq> 0"
    and "unat (map_window handle) < 2 ^ 60"
proof -
  have w: "unat (map_window handle) = (0x80000 + unat handle * 0x1000) * 4096"
    using assms by (simp add: map_window_def unat_word_ariths)
  then have "unat (map_window handle) mod 4096 = 0" and "unat (map_window handle) \<noteq> 0" by simp_all
  then have "unat (map_window handle AND 0xFFF) = 0" and "unat (map_window handle) \<noteq> 0"
    unfolding unat_and_page by simp_all
  then show "map_window handle AND 0xFFF = 0" and "map_window handle \<noteq> 0" by (simp_all add: unat_eq_0)
  show "unat (map_window handle) < 2 ^ 60" using assms w by simp
qed

lemma one_page_window:
  assumes ok: "crate_ok k" and v: "v AND 0xFFF = 0" "unat v < 2 ^ 60" and l: "0 < unat l" "unat l \<le> 4096"
  shows "page_range_inclusive k (page_containing k v) (page_containing k (v + l - 1)) = [v]"
proof -
  have "unat v mod 4096 = 0" using v(1) unat_and_page [of v] by (simp only: unsigned_0)
  then obtain q where q: "unat v = 4096 * q" by auto
  have "unat (v + (l - 1)) = unat v + unat (l - 1)"
    using v l by (intro unat_add_no_wrap) (simp add: unat_minus_one unat_gt_0)
  then have "unat (v + l - 1) = 4096 * q + (unat l - 1)"
    using l q by (simp add: add_diff_eq unat_minus_one unat_gt_0)
  moreover have "(4096 * q + (unat l - 1)) div 4096 = q" using l by simp
  ultimately have "unat (v + l - 1) div 4096 * 4096 = unat v" using q by simp
  then have "unat ((v + l - 1) AND NOT 0xFFF) = unat v" unfolding and_not_page .
  then have e: "(v + l - 1) AND NOT 0xFFF = v" by (simp only: word_unat_eq_iff)
  show ?thesis
    unfolding crate_okD(1) [OF ok] e aligned_page [OF v(1)] crate_okD(3) [OF ok v(1) v(1)]
    by (simp add: pages_from_def)
qed

text \<open>
  Mapping the same one-page memory capability a second time into an address space makes the
  kernel panic: the first call maps the window of the handle, the second finds it mapped and
  \<open>expect\<close>s success.
\<close>

theorem second_map_panics:
  assumes run: "sys_map_phys handle u64_max len k = Inr (r, k')"
    and ok: "crate_ok k" and remap: "remap_rejected k" and h: "unat handle < 2 ^ 32"
    and tc: "current_cspace k = Inr (t, c)"
    and cap: "cspace_get (cspaces k c) (unat handle) = Some (MemoryMap start cap_len)"
    and len: "0 < unat cap_len" "unat cap_len \<le> 4096"
  shows "sys_map_phys handle u64_max len' k' = Inl (Panic ''Failed to map phys_addr'')"
proof -
  have al: "map_allowed start cap_len start cap_len"
    using unat_lt_2p64 [of start] by (simp add: map_allowed_def word_le_nat_alt unat_saturating_add Let_def del: unat_lt_2p64)
  have win: "page_range_inclusive k (page_containing k (map_window handle))
      (page_containing k (map_window handle + cap_len - 1)) = [map_window handle]"
    by (rule one_page_window [OF ok map_window_aligned(1,3) [OF h] len])
  from run tc cap al obtain root where root: "cr3 t = Some root"
    and run: "do_map_phys handle start cap_len root k = Inr (r, k')"
    by (auto simp: sys_map_phys_def map_range_def split: option.splits)
  let ?pt = "(root + hhdm_offset k, hhdm_offset k)"
  from run win obtain m a where
    v: "virt_addr_ok k (map_window handle)" "virt_addr_ok k (map_window handle + cap_len - 1)"
      "virt_addr_ok k (hhdm_offset k)" and p: "phys_addr_ok k start" and
    mt: "map_to k ?pt (map_window handle) (frame_containing k start) MAP_FLAGS (kmem k, falloc k) = Inr (Map_Ok, m, a)"
    and k': "k' = k\<lparr>kmem := m, falloc := a\<rparr>"
    by (auto simp: do_map_phys_def and_then_Inr VirtAddr_new_def PhysAddr_new_def checked_Inr Let_def
        map_phys_page_def mapper_map_to_def split: if_splits sum.splits)
  have again: "map_to k ?pt (map_window handle) (frame_containing k start) MAP_FLAGS (m, a) =
      Inr (PageAlreadyMapped, m, a)"
    using remap mt unfolding remap_rejected_def by blast
  have "current_cspace k' = Inr (t, c)" using tc k' by (simp add: current_cspace_def)
  then show ?thesis
    using cap al root v p win again k'
    by (simp add: sys_map_phys_def map_range_def do_map_phys_def VirtAddr_new_def PhysAddr_new_def checked_def
        map_phys_page_def mapper_map_to_def Let_def)
qed

lemma toy_remap_rejected: "remap_rejected sample_machine"
proof -
  have "map_to sample_machine = toy_map_to" by (simp add: sample_machine_def)
  moreover have "toy_map_to pt page f' fl' s' = Inr (PageAlreadyMapped, s')"
    if "toy_map_to pt page f fl s = Inr (Map_Ok, s')" for pt page f fl s s' f' fl'
  proof -
    from that obtain i where i: "toy_slot page = Some i"
      and s': "s' = (copy_bytes (fst s) (fst pt + of_nat (8 * i)) (word_le 8 (f OR 1)), snd s)"
      by (auto simp: toy_map_to_def Let_def split: option.splits if_splits)
    have "copy_bytes (fst s) p (word_le 8 (f OR 1)) p = ucast (f OR 1)" for p
      by (simp add: eval_nat_numeral word_le_code copy_bytes_code)
    moreover have "bit ((ucast (f OR 1) :: u8) AND 1) 0" by (simp add: bit_simps)
    then have "(ucast (f OR 1) :: u8) AND 1 \<noteq> 0" by (metis bit_0_eq bot_apply bot_bool_def)
    ultimately show ?thesis by (simp add: toy_map_to_def i s' Let_def)
  qed
  ultimately show ?thesis by (simp add: remap_rejected_def)
qed

theorem second_map_panics_witness:
  "let k = sample_machine\<lparr>cspaces := (\<lambda>_. \<lparr>slots = [Some (MemoryMap 0x30000 0x1000)]\<rparr>)\<rparr>
   in \<exists>r k'. sys_map_phys 0 u64_max u64_max k = Inr (r, k') \<and>
      sys_map_phys 0 u64_max u64_max k' = Inl (Panic ''Failed to map phys_addr'')"
proof -
  let ?k = "sample_machine\<lparr>cspaces := (\<lambda>_. \<lparr>slots = [Some (MemoryMap 0x30000 0x1000)]\<rparr>)\<rparr>"
  have "returned (sys_map_phys 0 u64_max u64_max ?k) = Some 0x80000000" by code_simp
  then obtain k' where k': "sys_map_phys 0 u64_max u64_max ?k = Inr (Returned 0x80000000, k')"
    by (auto simp: returned_Some)
  have ok: "crate_ok ?k" using sample_crate_ok by (simp add: crate_ok_def)
  have remap: "remap_rejected ?k" using toy_remap_rejected by (simp add: remap_rejected_def)
  have tc: "current_cspace ?k = Inr (sample_task 1 0x10000, 0)"
    by (simp add: current_cspace_def sample_machine_def sample_task_def)
  have cap: "cspace_get (cspaces ?k 0) (unat (0 :: u64)) = Some (MemoryMap 0x30000 0x1000)"
    by (simp add: cspace_get_def)
  show ?thesis
    unfolding Let_def using k' second_map_panics [OF k' ok remap _ tc cap] by auto
qed

end
