(* ===== verification/Elf_Image.thy ===== *)
theory Elf_Image
  imports Syscall_Behaviour
begin

text \<open>
  The address space that \<open>spawn_from_elf\<close> (\<^verbatim>\<open>kernel/src/elf/mod.rs\<close>) builds, as the processor sees it:
  every byte of a loadable segment is mapped to a frame of its own and holds the byte of the file,
  or zero behind the part that the file has, and the user stack is mapped.

  The page tables are code of the \<open>x86_64\<close> crate and hardware, so the theorem has their laws as
  named hypotheses. \<open>good m root\<close> stands for well-formed tables below the level-4 frame \<open>root\<close> and
  \<open>tf m root\<close> for the frames that they occupy.
\<close>

section \<open>What the loader relies on\<close>

definition agree_on :: "u64 \<Rightarrow> u64 set \<Rightarrow> mem \<Rightarrow> mem \<Rightarrow> bool" where
  "agree_on hhdm F m m' \<longleftrightarrow> (\<forall>f\<in>F. \<forall>i < 4096. m' (hhdm + f + i) = m (hhdm + f + i))"

text \<open>
  The processor reads nothing but the tables; a level-4 table with an empty lower half and the
  upper half of another one uses no further frames than that one.
\<close>

definition walk_laws ::
  "(mem \<Rightarrow> u64 \<Rightarrow> bool) \<Rightarrow> (mem \<Rightarrow> u64 \<Rightarrow> u64 set) \<Rightarrow> 'a machine_scheme \<Rightarrow> bool" where
  "walk_laws good tf k \<longleftrightarrow>
     (\<forall>m root. good m root \<longrightarrow> root \<in> tf m root \<and> (\<forall>f\<in>tf m root. f AND 0xFFF = 0)) \<and>
     (\<forall>m m' root. good m root \<longrightarrow> agree_on (hhdm_offset k) (tf m root) m m' \<longrightarrow>
        good m' root \<and> tf m' root = tf m root \<and>
        mmu_walk k (hhdm_offset k) m' root = mmu_walk k (hhdm_offset k) m root) \<and>
     (\<forall>m root src. good m src \<longrightarrow> root AND 0xFFF = 0 \<longrightarrow> root \<notin> tf m src \<longrightarrow>
        (\<forall>i < 4096. m (hhdm_offset k + root + i) = (if i < 2048 then 0 else m (hhdm_offset k + src + i))) \<longrightarrow>
        good m root \<and> tf m root \<subseteq> insert root (tf m src))"

text \<open>
  A successful \<open>map_to\<close> found the page unmapped, maps it, keeps every other translation, writes only
  to tables and takes the frames for new tables from the allocator.
\<close>

definition map_to_laws ::
  "(mem \<Rightarrow> u64 \<Rightarrow> bool) \<Rightarrow> (mem \<Rightarrow> u64 \<Rightarrow> u64 set) \<Rightarrow> 'a machine_scheme \<Rightarrow> bool" where
  "map_to_laws good tf k \<longleftrightarrow>
     (let hhdm = hhdm_offset k; walk = mmu_walk k hhdm
      in \<forall>m a root page frame m' a'.
        good m root \<longrightarrow> alloc_inv a \<longrightarrow> tf m root \<inter> free_addrs a = {} \<longrightarrow> page AND 0xFFF = 0 \<longrightarrow> frame AND 0xFFF = 0 \<longrightarrow>
        map_to k (hhdm + root, hhdm) page frame USER_FLAGS (m, a) = Inr (Map_Ok, m', a') \<longrightarrow>
        good m' root \<and> alloc_inv a' \<and> free_addrs a' \<subseteq> free_addrs a \<and>
        tf m' root \<subseteq> tf m root \<union> (free_addrs a - free_addrs a') \<and>
        (\<forall>x. (\<forall>f\<in>tf m' root. 4096 \<le> x - (hhdm + f)) \<longrightarrow> m' x = m x) \<and>
        (\<forall>acc v. walk m' root acc v = (if v AND NOT 0xFFF = page then Some (frame + (v AND 0xFFF)) else walk m root acc v)) \<and>
        (\<forall>acc v. v AND NOT 0xFFF = page \<longrightarrow> walk m root acc v = None))"

lemma map_to_lawsD:
  assumes "map_to_laws good tf k" "good m root" "alloc_inv a" "tf m root \<inter> free_addrs a = {}"
    "page AND 0xFFF = 0" "frame AND 0xFFF = 0"
    "map_to k (hhdm_offset k + root, hhdm_offset k) page frame USER_FLAGS (m, a) = Inr (Map_Ok, m', a')"
  shows "good m' root" "alloc_inv a'" "free_addrs a' \<subseteq> free_addrs a"
    "tf m' root \<subseteq> tf m root \<union> (free_addrs a - free_addrs a')"
    "(\<And>f. f \<in> tf m' root \<Longrightarrow> 4096 \<le> x - (hhdm_offset k + f)) \<Longrightarrow> m' x = m x"
    "mmu_walk k (hhdm_offset k) m' root acc v =
       (if v AND NOT 0xFFF = page then Some (frame + (v AND 0xFFF)) else mmu_walk k (hhdm_offset k) m root acc v)"
    "v AND NOT 0xFFF = page \<Longrightarrow> mmu_walk k (hhdm_offset k) m root acc v = None"
  using assms(1) [unfolded map_to_laws_def Let_def, rule_format, OF assms(2-)] by blast+

lemma walk_lawsD:
  assumes "walk_laws good tf k" "good m root"
  shows "root \<in> tf m root" "f \<in> tf m root \<Longrightarrow> f AND 0xFFF = 0"
    "agree_on (hhdm_offset k) (tf m root) m m' \<Longrightarrow> good m' root"
    "agree_on (hhdm_offset k) (tf m root) m m' \<Longrightarrow> tf m' root = tf m root"
    "agree_on (hhdm_offset k) (tf m root) m m' \<Longrightarrow>
       mmu_walk k (hhdm_offset k) m' root = mmu_walk k (hhdm_offset k) m root"
  using assms unfolding walk_laws_def by blast+

lemma walk_laws_root:
  assumes "walk_laws good tf k" "good m src" "root AND 0xFFF = 0" "root \<notin> tf m src"
    and "\<And>i. i < 4096 \<Longrightarrow> m (hhdm_offset k + root + i) = (if i < 2048 then 0 else m (hhdm_offset k + src + i))"
  shows "good m root" "tf m root \<subseteq> insert root (tf m src)"
  using assms unfolding walk_laws_def by blast+

section \<open>Page arithmetic\<close>

lemma aligned_dvd: "x AND 0xFFF = 0 \<longleftrightarrow> 4096 dvd x" for x :: u64
  using take_bit_eq_0_iff [of 12 x] by (simp add: take_bit_eq_mask mask_eq_exp_minus_1)

lemma word_in_range: "a \<le> b \<Longrightarrow> x - a < b - a \<longleftrightarrow> a \<le> x \<and> x < b" for a b x :: u64
proof -
  assume ab: "a \<le> b"
  show ?thesis
  proof (cases "a \<le> x")
    case True
    then show ?thesis using ab by (auto simp: word_less_nat_alt word_le_nat_alt unat_sub)
  next
    case False
    then have "unat (x - a) = 18446744073709551616 + unat x - unat a" by (simp add: unat_sub_if' word_le_nat_alt)
    then have "\<not> unat (x - a) < unat (b - a)"
      unfolding unat_sub [OF ab] using unat_lt_2p64 [of b] by linarith
    with False show ?thesis by (simp add: word_less_nat_alt)
  qed
qed

lemma frames_apart:
  fixes f g h i :: u64
  assumes "f AND 0xFFF = 0" "g AND 0xFFF = 0" "f \<noteq> g" "i < 4096"
  shows "4096 \<le> h + g + i - (h + f)"
proof -
  have "(g - f) AND 0xFFF = 0" using assms(1,2) by (simp add: aligned_dvd)
  then obtain q where q: "unat (g - f) = 4096 * q" using unat_and_page [of "g - f"] by (auto elim: dvdE simp: mod_eq_0_iff_dvd)
  have "unat (g - f) \<noteq> 0" using assms(3) by (simp add: unat_eq_0)
  then have "4096 \<le> unat (g - f)" "unat (g - f) + unat i < 2 ^ 64"
    using assms(4) q unat_lt_2p64 [of "g - f"] by (simp_all only: word_less_nat_alt unsigned_numeral) (linarith | simp)+
  then have "4096 \<le> unat (g - f + i)" by (simp add: unat_add_no_wrap)
  then have "4096 \<le> g - f + i" by (simp add: word_le_nat_alt)
  then show ?thesis by (simp add: algebra_simps)
qed

lemma page_no_wrap:
  fixes p :: u64
  assumes "p AND 0xFFF = 0" "p \<noteq> - 4096"
  shows "p \<le> p + 4096"
proof (rule ccontr)
  assume w: "\<not> p \<le> p + 4096"
  obtain q where q: "unat p = 4096 * q" using unat_and_page [of p] assms(1) by (auto elim: dvdE simp: mod_eq_0_iff_dvd)
  have "\<not> unat p + 4096 < 18446744073709551616" using w unat_add_no_wrap [of p 4096] by (auto simp: word_le_nat_alt)
  then have "unat p = unat (- 4096 :: u64)" using q unat_lt_2p64 [of p] by simp
  then show False using assms(2) by (simp only: word_unat_eq_iff)
qed

lemma free_addrs_aligned: "f \<in> free_addrs a \<Longrightarrow> f AND 0xFFF = 0"
  by (auto simp: free_addrs_def frame_addr_def PAGE_SIZE_def aligned_dvd)

lemma pages_from_cover:
  assumes "a AND 0xFFF = 0" "p AND 0xFFF = 0" "a \<le> p" "p \<le> b"
  shows "p \<in> set (pages_from a (unat ((b - a) div 4096) + 1))"
proof -
  have "4096 dvd p - a" using assms(1,2) by (simp add: aligned_dvd)
  then have "unat (p - a) div 4096 * 4096 = unat (p - a)"
    using unat_and_page [of "p - a"] by (simp add: aligned_dvd [symmetric] mod_eq_0_iff_dvd)
  then have "of_nat (unat (p - a) div 4096 * 4096) = p - a" by simp
  then have "p = a + of_nat (unat (p - a) div 4096) * 4096" by (simp add: algebra_simps)
  moreover have "p - a \<le> b - a" using assms(3,4) by (simp add: word_le_nat_alt unat_sub)
  then have "unat (p - a) div 4096 < unat ((b - a) div 4096) + 1"
    by (simp add: unat_div word_le_nat_alt div_le_mono less_Suc_eq_le)
  ultimately show ?thesis unfolding pages_from_def by (simp only: set_map image_eqI atLeast0LessThan set_upt) blast
qed

lemma pages_from_aligned: "a AND 0xFFF = 0 \<Longrightarrow> p \<in> set (pages_from a n) \<Longrightarrow> p AND 0xFFF = 0"
  by (auto simp: pages_from_def aligned_dvd)

section \<open>The pages built so far\<close>

text \<open>One page of the new address space with the contents of its frame.\<close>

definition page_at ::
  "(mem \<Rightarrow> u64 \<Rightarrow> u64 set) \<Rightarrow> 'a machine_scheme \<Rightarrow> u64 \<Rightarrow> 'a machine_scheme \<Rightarrow> u64 \<times> u64 \<times> (u64 \<Rightarrow> u8) \<Rightarrow> bool" where
  "page_at tf k0 root k = (\<lambda>(page, frame, c).
     page AND 0xFFF = 0 \<and> frame \<in> free_addrs (falloc k0) - free_addrs (falloc k) \<and> frame \<notin> tf (kmem k) root \<and>
     (\<forall>acc v. v AND NOT 0xFFF = page \<longrightarrow> mmu_walk k (hhdm_offset k) (kmem k) root acc v = Some (frame + (v AND 0xFFF))) \<and>
     (\<forall>i < 4096. kmem k (hhdm_offset k + frame + i) = c i))"

definition image_inv ::
  "(mem \<Rightarrow> u64 \<Rightarrow> bool) \<Rightarrow> (mem \<Rightarrow> u64 \<Rightarrow> u64 set) \<Rightarrow> 'a machine_scheme \<Rightarrow> u64 \<Rightarrow>
     (u64 \<times> u64 \<times> (u64 \<Rightarrow> u8)) set \<Rightarrow> 'a machine_scheme \<Rightarrow> bool" where
  "image_inv good tf k0 root E k \<longleftrightarrow>
     mem_step k0 k \<and> alloc_inv (falloc k) \<and> free_addrs (falloc k) \<subseteq> free_addrs (falloc k0) \<and>
     good (kmem k) root \<and> tf (kmem k) root \<inter> free_addrs (falloc k) = {} \<and> (\<forall>e\<in>E. page_at tf k0 root k e)"

text \<open>A fresh frame is mapped at a page and then filled; nothing else changes.\<close>

lemma map_fresh_page:
  assumes laws: "walk_laws good tf k0" "map_to_laws good tf k0" and inv: "image_inv good tf k0 root E k"
    and frame: "take_frame msg k = Inr (f, k1)" and page: "page AND 0xFFF = 0"
    and mapped: "mapper_map_to (hhdm_offset k0 + root, hhdm_offset k0) page f USER_FLAGS k1 = Inr (Map_Ok, k2)"
    and filled: "\<And>x. 4096 \<le> x - (hhdm_offset k0 + f) \<Longrightarrow> m x = kmem k2 x"
  shows "image_inv good tf k0 root (insert (page, f, \<lambda>i. m (hhdm_offset k0 + f + i)) E) (k2\<lparr>kmem := m\<rparr>)"
proof -
  let ?h = "hhdm_offset k0" and ?w = "mmu_walk k0 (hhdm_offset k0)"
  note I = inv [unfolded image_inv_def]
  have sel: "hhdm_offset k = ?h" "map_to k = map_to k0" "mmu_walk k = mmu_walk k0" using I mem_step_sel [of k0 k] by simp_all
  from frame obtain a1 where a1: "allocate_frame (falloc k) = Inr (Some f, a1)" "k1 = k\<lparr>falloc := a1\<rparr>"
    by (auto simp: take_frame_def and_then_Inr expect_Inr)
  have inv1: "alloc_inv a1" using fa.alloc_total [of "falloc k"] I a1(1) by auto
  have f: "f \<in> free_addrs (falloc k)" "free_addrs a1 = free_addrs (falloc k) - {f}"
    using fa.alloc_Some [OF _ a1(1)] I by auto
  from mapped obtain m' a' where mt: "map_to k0 (?h + root, ?h) page f USER_FLAGS (kmem k, a1) = Inr (Map_Ok, m', a')"
    and k2: "k2 = k\<lparr>kmem := m', falloc := a'\<rparr>" unfolding a1(2) by (auto simp: mapper_map_to_def and_then_Inr sel)
  have tf1: "tf (kmem k) root \<inter> free_addrs a1 = {}" using I f by blast
  note L = map_to_lawsD [OF laws(2) _ inv1 tf1 page free_addrs_aligned [OF f(1)] mt]
  have g0: "good (kmem k) root" using I by simp
  note g' = L(1-4) [OF g0]
  note al = walk_lawsD(2) [OF laws(1) g'(1)]
  have ftf: "f \<notin> tf m' root" using g'(4) I f by blast
  have out: "m (?h + g + i) = m' (?h + g + i)" if "g AND 0xFFF = 0" "f \<noteq> g" "i < 4096" for g i
    using filled [OF frames_apart [OF free_addrs_aligned [OF f(1)] that]] by (simp add: k2)
  then have "agree_on ?h (tf m' root) m' m" using al ftf by (metis agree_on_def)
  note m = walk_lawsD(3-) [OF laws(1) g'(1) this]
  have "page_at tf k0 root (k2\<lparr>kmem := m\<rparr>) e" if "e \<in> E" for e
  proof -
    obtain p g c where e: "e = (p, g, c)" by (cases e)
    have P: "page_at tf k0 root k (p, g, c)" using I that e by blast
    then have g: "g AND 0xFFF = 0" "g \<noteq> f" "g \<notin> tf m' root" "g \<notin> free_addrs a'"
      using f g'(3,4) free_addrs_aligned [of g] by (auto simp: page_at_def)
    from P have "p AND 0xFFF = 0" by (simp add: page_at_def)
    then have "p AND NOT 0xFFF = p" by (rule aligned_page)
    moreover have "?w (kmem k) root Read_Access page = None" by (rule L(7) [OF g0 aligned_page [OF page]])
    ultimately have np: "p \<noteq> page" using P by (auto simp: page_at_def sel)
    have "?w m' root acc v = ?w (kmem k) root acc v" if "v AND NOT 0xFFF = p" for acc v
      using L(6) [OF g0, of acc v] np that by simp
    moreover have "m (?h + g + i) = kmem k (?h + g + i)" if i: "i < 4096" for i
    proof -
      have "m' (?h + g + i) = kmem k (?h + g + i)"
        by (rule L(5) [OF g0], rule frames_apart [OF al g(1) _ i]) (use g(3) in auto)
      then show ?thesis using out [OF g(1) _ i] g(2) by simp
    qed
    ultimately show ?thesis using P g by (simp add: e page_at_def k2 m sel)
  qed
  moreover have "page_at tf k0 root (k2\<lparr>kmem := m\<rparr>) (page, f, \<lambda>i. m (?h + f + i))"
  proof -
    have "?w m' root acc v = Some (f + (v AND 0xFFF))" if "v AND NOT 0xFFF = page" for acc v
      using L(6) [OF g0, of acc v] that by simp
    moreover have "f \<in> free_addrs (falloc k0)" "f \<notin> free_addrs a'" using I f g'(3) by blast+
    ultimately show ?thesis using page ftf by (simp add: page_at_def k2 m sel)
  qed
  moreover have "mem_step k0 (k2\<lparr>kmem := m\<rparr>)"
  proof -
    have "mem_step k (k2\<lparr>kmem := m\<rparr>)" by (rule mem_stepI [where m = m and a = a']) (simp add: k2)
    then show ?thesis by (rule mem_step_trans [rotated]) (use I in simp)
  qed
  moreover have "free_addrs a' \<subseteq> free_addrs (falloc k0)" "tf m root \<inter> free_addrs a' = {}"
    using I g' m(2) f by blast+
  ultimately show ?thesis using g'(2) m(1) unfolding image_inv_def by (simp add: k2)
qed

section \<open>Segments\<close>

text \<open>The byte of a segment at a virtual address.\<close>

definition seg_byte :: "bytes \<Rightarrow> elf64_phdr \<Rightarrow> u64 \<Rightarrow> u8" where
  "seg_byte elf ph v =
     (if p_vaddr ph \<le> v \<and> v < p_vaddr ph + p_filesz ph then elf ! unat (p_offset ph + (v - p_vaddr ph)) else 0)"

text \<open>The copy stays inside the page and copies every byte of the file that belongs there.\<close>

lemma copy_segment_part_effect:
  assumes ok: "copy_segment_part elf ph page ptr m = Inr m'" and page: "page AND 0xFFF = 0" and len: "length elf < 2 ^ 63"
  shows "4096 \<le> x - ptr \<Longrightarrow> m' x = m x"
    and "page \<noteq> - 4096 \<Longrightarrow> i < 4096 \<Longrightarrow> m (ptr + i) = 0 \<Longrightarrow> m' (ptr + i) = seg_byte elf ph (page + i)"
proof -
  define cs ce where "cs = max page (p_vaddr ph)" and "ce = min (page + 4096) (p_vaddr ph + p_filesz ph)"
  define src where "src = p_offset ph + (cs - p_vaddr ph)"
  have m': "m' = (if cs < ce then copy_bytes m (ptr + (cs - page)) (slice elf (unat src) (unat (ce - cs))) else m)"
    and fits: "cs < ce \<Longrightarrow> unat src + unat (ce - cs) \<le> length elf"
    using ok by (auto simp: copy_segment_part_def Let_def cs_def ce_def src_def split: if_splits)
  have at: "m' y = (if cs < ce \<and> cs \<le> page + (y - ptr) \<and> page + (y - ptr) < ce
      then elf ! unat (p_offset ph + (page + (y - ptr) - p_vaddr ph)) else m y)" for y
  proof (cases "cs < ce")
    case True
    let ?d = "page + (y - ptr) - cs"
    have d: "y - (ptr + (cs - page)) = ?d" by simp
    have rng: "?d < ce - cs \<longleftrightarrow> cs \<le> page + (y - ptr) \<and> page + (y - ptr) < ce" using True by (intro word_in_range) simp
    have sl: "length (slice elf (unat src) (unat (ce - cs))) = unat (ce - cs)" using fits [OF True] by simp
    have "slice elf (unat src) (unat (ce - cs)) ! unat ?d = elf ! unat (p_offset ph + (page + (y - ptr) - p_vaddr ph))"
      if lt: "unat ?d < unat (ce - cs)"
    proof -
      have "unat (src + ?d) = unat src + unat ?d"
        using fits [OF True] len lt by (intro unat_add_no_wrap) simp
      moreover have "src + ?d = p_offset ph + (page + (y - ptr) - p_vaddr ph)" by (simp add: src_def)
      ultimately show ?thesis using fits [OF True] lt by simp
    qed
    then have "m' y = (if unat ?d < unat (ce - cs) then elf ! unat (p_offset ph + (page + (y - ptr) - p_vaddr ph)) else m y)"
      using True by (simp add: m' copy_bytes_def sl d del: length_slice)
    then show ?thesis unfolding word_less_nat_alt [symmetric] rng using True by simp
  qed (simp add: m')
  have bounds: "page \<le> cs" "ce \<le> page + 4096" by (simp_all add: cs_def ce_def)
  show "m' x = m x" if x: "4096 \<le> x - ptr"
  proof (cases "cs < ce \<and> cs \<le> page + (x - ptr) \<and> page + (x - ptr) < ce")
    case True
    then have "page \<le> page + (x - ptr)" "page + (x - ptr) < page + 4096"
      using bounds by (meson order_trans less_le_trans)+
    then have "page \<le> page + (x - ptr)" "page + (x - ptr) < page + 4096" "page \<le> page + 4096" by simp_all
    then have False using word_in_range [of page "page + 4096" "page + (x - ptr)"] x by simp
    then show ?thesis ..
  qed (simp only: at if_False)
  show "m' (ptr + i) = seg_byte elf ph (page + i)" if "page \<noteq> - 4096" "i < 4096" "m (ptr + i) = 0"
  proof -
    have "page \<le> page + 4096" by (rule page_no_wrap [OF page that(1)])
    then have "page \<le> page + i \<and> page + i < page + 4096" using word_in_range [of page "page + 4096" "page + i"] that(2) by simp
    then have "cs < ce \<and> cs \<le> page + i \<and> page + i < ce \<longleftrightarrow> p_vaddr ph \<le> page + i \<and> page + i < p_vaddr ph + p_filesz ph"
      by (auto simp: cs_def ce_def)
    then show ?thesis using that(3) at [of "ptr + i"] by (simp add: seg_byte_def)
  qed
qed

lemma load_page_image:
  assumes laws: "walk_laws good tf k0" "map_to_laws good tf k0" and inv: "image_inv good tf k0 root E k"
    and load: "load_page (hhdm_offset k0 + root, hhdm_offset k0) elf ph k page = Inr k'"
    and page: "page AND 0xFFF = 0" and len: "length elf < 2 ^ 63"
  shows "\<exists>f c. image_inv good tf k0 root (insert (page, f, c) E) k' \<and>
    (page \<noteq> - 4096 \<longrightarrow> (\<forall>i < 4096. c i = seg_byte elf ph (page + i)))"
proof -
  let ?h = "hhdm_offset k0"
  from load obtain f k1 k2 m where frame: "take_frame ''No frames for ELF segment'' k = Inr (f, k1)"
    and mapped: "mapper_map_to (?h + root, ?h) page f USER_FLAGS k1 = Inr (Map_Ok, k2)"
    and copy: "copy_segment_part elf ph page (hhdm_offset k2 + f) (write_bytes (kmem k2) (hhdm_offset k2 + f) 0 4096) = Inr m"
    and k': "k' = k2\<lparr>kmem := m\<rparr>"
    by (auto simp: load_page_def and_then_Inr Let_def split: if_splits)
  have h: "hhdm_offset k2 = ?h"
    using inv mem_step_sel(11) [OF take_frame_mem [OF frame]] mem_step_sel(11) [OF mapper_map_to_mem [OF mapped]]
      mem_step_sel(11) [of k0 k] by (simp add: image_inv_def)
  note c = copy_segment_part_effect [OF copy [unfolded h] page len]
  have "m x = kmem k2 x" if "4096 \<le> x - (?h + f)" for x
    using c(1) [OF that] that [folded not_less] by (simp add: write_bytes_def)
  then have "image_inv good tf k0 root (insert (page, f, \<lambda>i. m (?h + f + i)) E) k'"
    unfolding k' by (rule map_fresh_page [OF laws inv frame page mapped])
  moreover have "m (?h + f + i) = seg_byte elf ph (page + i)" if "page \<noteq> - 4096" "i < 4096" for i
    using c(2) [OF that] that(2) by (simp add: write_bytes_def)
  ultimately show ?thesis by blast
qed

lemma stack_page_image:
  assumes laws: "walk_laws good tf k0" "map_to_laws good tf k0" "crate_ok k0" and inv: "image_inv good tf k0 root E k"
    and load: "stack_page (hhdm_offset k0 + root, hhdm_offset k0) k i = Inr k'"
  shows "\<exists>f c. image_inv good tf k0 root (insert ((STACK_TOP - (of_nat i + 1) * 4096) AND NOT 0xFFF, f, c) E) k'"
proof -
  let ?h = "hhdm_offset k0" and ?p = "(STACK_TOP - (of_nat i + 1) * 4096) AND NOT 0xFFF"
  have p: "page_containing k v = v AND NOT 0xFFF" for v
    using inv mem_step_sel(18) [of k0 k] crate_okD(1) [OF laws(3)] by (simp add: image_inv_def)
  from load obtain f k1 where frame: "take_frame ''No frames for user stack'' k = Inr (f, k1)"
    and mapped: "mapper_map_to (?h + root, ?h) ?p f USER_FLAGS k1 = Inr (Map_Ok, k')"
    by (auto simp: stack_page_def and_then_Inr VirtAddr_new_def checked_Inr p split: if_splits)
  have "image_inv good tf k0 root (insert (?p, f, \<lambda>i. kmem k' (?h + f + i)) E) (k'\<lparr>kmem := kmem k'\<rparr>)"
    by (rule map_fresh_page [OF laws(1,2) inv frame _ mapped]) (rule and_not_page, rule refl)
  then show ?thesis by auto
qed

text \<open>A loop whose steps only add pages keeps what each step added.\<close>

lemma for_loop_collect:
  assumes step: "\<And>E s x s'. x \<in> set xs \<Longrightarrow> I E s \<Longrightarrow> body s x = Inr s' \<Longrightarrow> \<exists>E'. E \<subseteq> E' \<and> I E' s' \<and> Q x E'"
    and mono: "\<And>x E E'. Q x E \<Longrightarrow> E \<subseteq> E' \<Longrightarrow> Q x E'"
    and "I E s" "for_loop body s xs = Inr s'"
  shows "\<exists>E'. E \<subseteq> E' \<and> I E' s' \<and> (\<forall>x\<in>set xs. Q x E')"
  using step assms(3,4)
proof (induction xs arbitrary: E s)
  case (Cons x xs)
  from Cons.prems(3) obtain s1 where s1: "body s x = Inr s1" "for_loop body s1 xs = Inr s'" by (auto split: sum.splits)
  from Cons.prems(1) [OF _ Cons.prems(2) s1(1)] obtain E1 where E1: "E \<subseteq> E1" "I E1 s1" "Q x E1" by auto
  from Cons.IH [OF _ E1(2) s1(2)] Cons.prems(1) obtain E' where "E1 \<subseteq> E'" "I E' s'" "\<forall>x\<in>set xs. Q x E'" by auto
  then show ?case using E1 mono by (intro exI [of _ E']) auto
qed auto

text \<open>A segment in the user half, with no more bytes in the file than in memory.\<close>

definition user_segment :: "elf64_phdr \<Rightarrow> bool" where
  "user_segment ph \<longleftrightarrow> p_type ph = PT_LOAD \<and> unat (p_vaddr ph) + unat (p_memsz ph) \<le> 2 ^ 47 \<and> p_filesz ph \<le> p_memsz ph"

definition phdr_of :: "bytes \<Rightarrow> nat \<Rightarrow> elf64_phdr" where
  "phdr_of elf i = phdr_at elf (unat (e_phoff (read_ehdr elf) + of_nat (i * PHDR_SIZE)))"

text \<open>All pages of a segment are among the pages built.\<close>

definition segment_in :: "bytes \<Rightarrow> elf64_phdr \<Rightarrow> (u64 \<times> u64 \<times> (u64 \<Rightarrow> u8)) set \<Rightarrow> bool" where
  "segment_in elf ph E \<longleftrightarrow>
     (\<forall>j < p_memsz ph. \<exists>f c. ((p_vaddr ph + j) AND NOT 0xFFF, f, c) \<in> E \<and>
        (\<forall>i < 4096. c i = seg_byte elf ph (((p_vaddr ph + j) AND NOT 0xFFF) + i)))"

lemma page_mono: "x \<le> y \<Longrightarrow> x AND NOT 0xFFF \<le> y AND NOT 0xFFF" for x y :: u64
  unfolding word_le_nat_alt and_not_page by (simp add: div_le_mono)

lemma crate_ok_mem_step:
  assumes "mem_step k k'" and "crate_ok k"
  shows "crate_ok k'"
  using assms(2) unfolding crate_ok_def mem_step_sel [OF assms(1)] .

lemma segment_addresses:
  assumes "user_segment ph" and "j < p_memsz ph"
  shows "p_vaddr ph \<le> p_vaddr ph + j" "p_vaddr ph + j \<le> p_vaddr ph + p_memsz ph - 1" "unat (p_vaddr ph + j) < 2 ^ 47"
proof -
  have j: "unat j < unat (p_memsz ph)" using assms(2) by (simp add: word_less_nat_alt)
  then have b: "unat (p_vaddr ph) + unat (p_memsz ph) \<le> 2 ^ 47" "p_memsz ph \<noteq> 0" using assms(1) by (auto simp: user_segment_def)
  then have m: "unat (p_memsz ph - 1) = unat (p_memsz ph) - 1" by (simp add: unat_minus_one)
  have v: "unat (p_vaddr ph + j) = unat (p_vaddr ph) + unat j" using b(1) j by (intro unat_add_no_wrap) simp
  moreover have "unat (p_vaddr ph + (p_memsz ph - 1)) = unat (p_vaddr ph) + unat (p_memsz ph - 1)"
    using b(1) m by (intro unat_add_no_wrap) simp
  then have e: "unat (p_vaddr ph + p_memsz ph - 1) = unat (p_vaddr ph) + (unat (p_memsz ph) - 1)" using m by (simp add: algebra_simps)
  show "p_vaddr ph \<le> p_vaddr ph + j" "p_vaddr ph + j \<le> p_vaddr ph + p_memsz ph - 1"
    unfolding word_le_nat_alt v e using j by linarith+
  show "unat (p_vaddr ph + j) < 2 ^ 47" unfolding v using b(1) j by linarith
qed

lemma load_segment_image:
  assumes laws: "walk_laws good tf k0" "map_to_laws good tf k0" "crate_ok k0" and inv: "image_inv good tf k0 root E k"
    and load: "load_segment (hhdm_offset k0 + root, hhdm_offset k0) elf (e_phoff (read_ehdr elf)) k i = Inr k'"
    and len: "length elf < 2 ^ 63"
  shows "\<exists>E'. E \<subseteq> E' \<and> image_inv good tf k0 root E' k' \<and> (user_segment (phdr_of elf i) \<longrightarrow> segment_in elf (phdr_of elf i) E')"
proof -
  let ?ph = "phdr_of elf i" and ?pt = "(hhdm_offset k0 + root, hhdm_offset k0)"
  define a b where "a = p_vaddr ?ph AND NOT 0xFFF" and "b = (p_vaddr ?ph + p_memsz ?ph - 1) AND NOT 0xFFF"
  have ab: "a AND 0xFFF = 0" "b AND 0xFFF = 0" unfolding a_def b_def by (rule and_not_page)+
  have cr: "crate_ok k" using laws(3) inv by (auto simp: image_inv_def intro: crate_ok_mem_step)
  from load consider (other) "p_type ?ph \<noteq> PT_LOAD" "k' = k"
    | (loaded) "for_loop (load_page ?pt elf ?ph) k (page_range_inclusive k a b) = Inr k'"
  proof (cases "p_type ?ph = PT_LOAD")
    case True
    with load have "for_loop (load_page ?pt elf ?ph) k (page_range_inclusive k a b) = Inr k'"
      unfolding load_segment_def read_phdr_def phdr_of_def [symmetric] a_def b_def crate_okD(1) [OF cr, symmetric]
      by (simp add: and_then_Inr VirtAddr_new_def checked_Inr split: if_splits)
    then show ?thesis by (rule that(2))
  next
    case False
    with load have "k' = k"
      unfolding load_segment_def read_phdr_def phdr_of_def [symmetric] by (simp split: if_splits)
    then show ?thesis using that(1) False by simp
  qed
  then show ?thesis
  proof cases
    case other
    then show ?thesis using inv by (intro exI [of _ E]) (simp add: user_segment_def)
  next
    case loaded
    let ?Q = "\<lambda>page E. \<exists>f c. (page, f, c) \<in> E \<and> (page \<noteq> - 4096 \<longrightarrow> (\<forall>i < 4096. c i = seg_byte elf ?ph (page + i)))"
    let ?ps = "page_range_inclusive k a b"
    have ps: "?ps = (if a \<le> b then pages_from a (unat ((b - a) div 4096) + 1) else [])" by (rule crate_okD(3) [OF cr ab])
    have "\<exists>E'. E \<subseteq> E' \<and> image_inv good tf k0 root E' k' \<and> (\<forall>p\<in>set ?ps. ?Q p E')"
    proof (rule for_loop_collect [where I = "image_inv good tf k0 root" and Q = ?Q, OF _ _ inv loaded])
      fix E s x s' assume "x \<in> set ?ps" and I: "image_inv good tf k0 root E s" and l: "load_page ?pt elf ?ph s x = Inr s'"
      then have "x \<in> set (pages_from a (unat ((b - a) div 4096) + 1))" unfolding ps by (simp split: if_splits)
      then have x: "x AND 0xFFF = 0" by (rule pages_from_aligned [OF ab(1)])
      obtain f c where "image_inv good tf k0 root (insert (x, f, c) E) s'" "x \<noteq> - 4096 \<longrightarrow> (\<forall>i < 4096. c i = seg_byte elf ?ph (x + i))"
        using load_page_image [OF laws(1,2) I l x len] by (elim exE conjE)
      then show "\<exists>E'. E \<subseteq> E' \<and> image_inv good tf k0 root E' s' \<and> ?Q x E'"
        by (intro exI [of _ "insert (x, f, c) E"] conjI) auto
    qed blast
    then obtain E' where E': "E \<subseteq> E'" "image_inv good tf k0 root E' k'" "\<forall>p\<in>set ?ps. ?Q p E'" by blast
    have "segment_in elf ?ph E'" if seg: "user_segment ?ph"
      unfolding segment_in_def
    proof (intro allI impI)
      fix j assume j: "j < p_memsz ?ph"
      let ?p = "(p_vaddr ?ph + j) AND NOT 0xFFF"
      note addr = segment_addresses [OF seg j]
      have "a \<le> ?p" "?p \<le> b" unfolding a_def b_def by (rule page_mono [OF addr(1)], rule page_mono [OF addr(2)])
      moreover have "unat ?p < 2 ^ 47"
        unfolding and_not_page by (rule le_less_trans [OF div_times_less_eq_dividend addr(3)])
      moreover have "?p AND 0xFFF = 0" by (rule and_not_page)
      ultimately have "?p \<in> set ?ps" unfolding ps using pages_from_cover [OF ab(1), of ?p b] order_trans [of a ?p b] by presburger
      moreover have "?p \<noteq> - 4096" using \<open>unat ?p < 2 ^ 47\<close> by (intro notI) (simp only:, simp)
      ultimately show "\<exists>f c. (?p, f, c) \<in> E' \<and> (\<forall>i < 4096. c i = seg_byte elf ?ph (?p + i))" using E'(3) by blast
    qed
    then show ?thesis using E' by blast
  qed
qed

section \<open>The new address space\<close>

text \<open>The new level-4 table: empty below, a copy of the kernel's entries above.\<close>

lemma new_root_image:
  assumes laws: "walk_laws good tf k0" and inv: "alloc_inv (falloc k0)" "good (kmem k0) (cr3_reg k0)"
      "tf (kmem k0) (cr3_reg k0) \<inter> free_addrs (falloc k0) = {}"
    and frame: "take_frame msg k0 = Inr (root, k1)"
    and m: "m = copy_upper_half (hhdm_offset k1 + root) (hhdm_offset k1 + cr3_reg k1)
      (write_bytes (kmem k1) (hhdm_offset k1 + root) 0 4096)"
  shows "image_inv good tf k0 root {} (k1\<lparr>kmem := m\<rparr>)" and "hhdm_offset k1 = hhdm_offset k0"
proof -
  let ?h = "hhdm_offset k0" and ?src = "cr3_reg k0"
  from frame obtain a1 where a1: "allocate_frame (falloc k0) = Inr (Some root, a1)" "k1 = k0\<lparr>falloc := a1\<rparr>"
    by (auto simp: take_frame_def and_then_Inr expect_Inr)
  then show "hhdm_offset k1 = ?h" by simp
  have inv1: "alloc_inv a1" using fa.alloc_total [OF inv(1)] a1(1) by auto
  have f: "root \<in> free_addrs (falloc k0)" "free_addrs a1 = free_addrs (falloc k0) - {root}"
    using fa.alloc_Some [OF inv(1) a1(1)] by auto
  note al = free_addrs_aligned [OF f(1)]
  have src: "?src \<in> tf (kmem k0) ?src" "?src AND 0xFFF = 0" "root \<noteq> ?src"
    using walk_lawsD(1,2) [OF laws inv(2)] inv(3) f(1) by blast+
  have half: "2048 \<le> x" if "4096 \<le> x" for x :: u64 by (rule order_trans [OF _ that]) simp
  have "4096 \<le> ?h + ?src - (?h + root)" "4096 \<le> ?h + root - (?h + ?src)"
    using frames_apart [OF al src(2) src(3), of 0 ?h] frames_apart [OF src(2) al src(3) [symmetric], of 0 ?h] by simp_all
  note ap = this [THEN half]
  have m0: "m = copy_upper_half (?h + root) (?h + ?src) (write_bytes (kmem k0) (?h + root) 0 4096)" using m a1(2) by simp
  define d s W where "d = ?h + root" and "s = ?h + ?src" and "W = write_bytes (kmem k0) d 0 4096"
  have m_at: "m x = (if 2048 \<le> x - d \<and> x - d < 4096 then W (s + (x - d)) else W x)" for x
    unfolding m0 d_def s_def W_def by (rule copy_upper_half_apply [OF ap])
  have W: "W x = (if x - d < 4096 then 0 else kmem k0 x)" for x by (simp add: W_def write_bytes_def)
  have out: "m (?h + g + i) = kmem k0 (?h + g + i)" if "g AND 0xFFF = 0" "root \<noteq> g" "i < 4096" for g i
  proof -
    have "\<not> ?h + g + i - d < 4096" unfolding d_def not_less by (rule frames_apart [OF al that])
    then show ?thesis by (simp only: m_at W if_False simp_thms)
  qed
  have inside: "m (d + i) = (if i < 2048 then 0 else kmem k0 (s + i))" if i: "i < 4096" for i
  proof -
    have "\<not> s + i - d < 4096" unfolding d_def s_def not_less by (rule frames_apart [OF al src(2,3) i])
    then have "W (s + i) = kmem k0 (s + i)" "W (d + i) = 0" using i by (simp_all only: W if_False) simp
    then show ?thesis using i by (auto simp: m_at)
  qed
  have "agree_on ?h (tf (kmem k0) ?src) (kmem k0) m"
    unfolding agree_on_def
  proof (intro ballI allI impI)
    fix g i :: u64 assume g: "g \<in> tf (kmem k0) ?src" "i < 4096"
    then have "root \<noteq> g" using inv(3) f(1) by blast
    then show "m (?h + g + i) = kmem k0 (?h + g + i)" by (rule out [OF walk_lawsD(2) [OF laws inv(2) g(1)] _ g(2)])
  qed
  note ms = walk_lawsD(3,4) [OF laws inv(2) this]
  have fresh: "m (?h + root + i) = (if i < 2048 then 0 else m (?h + ?src + i))" if i: "i < 4096" for i
    using out [OF src(2,3) i] inside [OF i] by (simp add: d_def s_def)
  have "root \<notin> tf m ?src" using ms(2) inv(3) f(1) by blast
  note root = walk_laws_root [OF laws ms(1) al this fresh]
  have own: "tf m root \<inter> free_addrs a1 = {}" using root(2) ms(2) f inv(3) by blast
  show "image_inv good tf k0 root {} (k1\<lparr>kmem := m\<rparr>)"
  proof -
    have "mem_step k0 (k1\<lparr>kmem := m\<rparr>)" by (rule mem_stepI [where m = m and a = a1]) (simp add: a1(2))
    then show ?thesis using inv1 f(2) root(1) own unfolding image_inv_def
      by (simp add: a1(2))
  qed
qed

text \<open>The pages that the loader has built at the end.\<close>

lemma user_address_space_image:
  assumes laws: "walk_laws good tf k" "map_to_laws good tf k" "crate_ok k" and len: "length elf < 2 ^ 63"
    and inv: "alloc_inv (falloc k)" "good (kmem k) (cr3_reg k)" "tf (kmem k) (cr3_reg k) \<inter> free_addrs (falloc k) = {}"
    and loaded: "user_address_space elf k = Inr (root, k')"
  shows "\<exists>E. image_inv good tf k root E k' \<and>
    (\<forall>i < unat (e_phnum (read_ehdr elf)). user_segment (phdr_of elf i) \<longrightarrow> segment_in elf (phdr_of elf i) E) \<and>
    (\<forall>i < 4. \<exists>f c. ((STACK_TOP - (of_nat i + 1) * 4096) AND NOT 0xFFF, f, c) \<in> E)"
proof -
  let ?pt = "(hhdm_offset k + root, hhdm_offset k)" and ?I = "image_inv good tf k root"
  from loaded obtain k1 m k3 where frame: "take_frame ''No frames for user CR3'' k = Inr (root, k1)"
    and m: "m = copy_upper_half (hhdm_offset k1 + root) (hhdm_offset k1 + cr3_reg k1) (write_bytes (kmem k1) (hhdm_offset k1 + root) 0 4096)"
    and segs: "for_loop (load_segment (hhdm_offset k1 + root, hhdm_offset k1) elf (e_phoff (read_ehdr elf))) (k1\<lparr>kmem := m\<rparr>)
      [0..<unat (e_phnum (read_ehdr elf))] = Inr k3"
    and stack: "for_loop (stack_page (hhdm_offset k1 + root, hhdm_offset k1)) k3 [0..<4] = Inr k'"
    by (auto simp: user_address_space_def and_then_Inr Let_def VirtAddr_new_def checked_Inr split: if_splits)
  note new = new_root_image [OF laws(1) inv frame m]
  note segs = segs [unfolded new(2)] and stack = stack [unfolded new(2)]
  let ?Q = "\<lambda>i E. user_segment (phdr_of elf i) \<longrightarrow> segment_in elf (phdr_of elf i) E"
  obtain E1 where E1: "?I E1 k3" "\<forall>i\<in>set [0..<unat (e_phnum (read_ehdr elf))]. ?Q i E1"
    using for_loop_collect [where I = ?I and Q = ?Q, OF load_segment_image [OF laws _ _ len] _ new(1) segs]
    by (force simp: segment_in_def)
  let ?S = "\<lambda>i E. \<exists>f c. ((STACK_TOP - (of_nat i + 1) * 4096) AND NOT 0xFFF, f, c) \<in> E"
  have "\<exists>E'. E1 \<subseteq> E' \<and> ?I E' k' \<and> (\<forall>i\<in>set [0..<4]. ?S i E')"
  proof (rule for_loop_collect [where I = ?I and Q = ?S, OF _ _ E1(1) stack])
    fix E s i s' assume I: "?I E s" and l: "stack_page ?pt s i = Inr s'"
    obtain f c where "?I (insert ((STACK_TOP - (of_nat i + 1) * 4096) AND NOT 0xFFF, f, c) E) s'"
      using stack_page_image [OF laws I l] by (elim exE)
    then show "\<exists>E'. E \<subseteq> E' \<and> ?I E' s' \<and> ?S i E'"
      by (intro exI [of _ "insert ((STACK_TOP - (of_nat i + 1) * 4096) AND NOT 0xFFF, f, c) E"] conjI) auto
  qed blast
  then obtain E where E: "E1 \<subseteq> E" "?I E k'" "\<forall>i\<in>set [0..<4]. ?S i E" by (elim exE conjE)
  have "?Q i E" if "i < unat (e_phnum (read_ehdr elf))" for i
    using E1(2) E(1) that by (force simp: segment_in_def)
  then show ?thesis using E(2,3) by (intro exI [of _ E]) simp
qed

lemma page_split:
  fixes v f :: u64
  shows "v AND 0xFFF < 4096" "(v AND NOT 0xFFF) + (v AND 0xFFF) = v"
    and "f AND 0xFFF = 0 \<Longrightarrow> (f + (v AND 0xFFF)) AND NOT 0xFFF = f"
proof -
  have r: "unat (v AND 0xFFF) < 4096" unfolding unat_and_page by simp
  then show "v AND 0xFFF < 4096" by (simp add: word_less_nat_alt)
  have "unat (v AND NOT 0xFFF) + unat (v AND 0xFFF) = unat v" unfolding and_not_page unat_and_page by simp
  moreover from this have "unat ((v AND NOT 0xFFF) + (v AND 0xFFF)) = unat (v AND NOT 0xFFF) + unat (v AND 0xFFF)"
    by (intro unat_add_no_wrap) simp
  ultimately show "(v AND NOT 0xFFF) + (v AND 0xFFF) = v" unfolding word_unat_eq_iff by linarith
  assume "f AND 0xFFF = 0"
  then obtain q where q: "unat f = 4096 * q" using unat_and_page [of f] by (auto elim: dvdE simp: mod_eq_0_iff_dvd)
  then have "unat f + unat (v AND 0xFFF) < 2 ^ 64" using r unat_lt_2p64 [of f] by simp
  then have "unat (f + (v AND 0xFFF)) = 4096 * q + unat (v AND 0xFFF)" using q by (simp only: unat_add_no_wrap)
  then have "unat ((f + (v AND 0xFFF)) AND NOT 0xFFF) = unat f" unfolding and_not_page q using r by simp
  then show "(f + (v AND 0xFFF)) AND NOT 0xFFF = f" by (simp only: word_unat_eq_iff)
qed

text \<open>What the program sees at an address of a page that was built.\<close>

lemma page_at_byte:
  assumes inv: "image_inv good tf k0 root E k" and e: "(v AND NOT 0xFFF, f, c) \<in> E"
  shows "\<exists>p. user_phys acc (k\<lparr>cr3_reg := root\<rparr>) v = Some p \<and> p AND NOT 0xFFF \<in> free_addrs (falloc k0) \<and>
    kmem k (p + hhdm_offset k) = c (v AND 0xFFF)"
proof -
  let ?p = "f + (v AND 0xFFF)"
  have P: "page_at tf k0 root k (v AND NOT 0xFFF, f, c)" using inv e unfolding image_inv_def by blast
  then have f: "f \<in> free_addrs (falloc k0)" and w: "mmu_walk k (hhdm_offset k) (kmem k) root acc v = Some ?p"
    and c: "kmem k (hhdm_offset k + f + (v AND 0xFFF)) = c (v AND 0xFFF)"
    using page_split(1) [of v] unfolding page_at_def by blast+
  have "?p AND NOT 0xFFF = f" by (rule page_split(3) [OF free_addrs_aligned [OF f]])
  then show ?thesis using f w c by (intro exI [of _ ?p]) (simp add: user_phys_def ac_simps)
qed

lemma seg_byte_at:
  assumes "user_segment ph"
  shows "seg_byte elf ph (p_vaddr ph + j) = (if j < p_filesz ph then elf ! unat (p_offset ph + j) else 0)"
proof -
  have "unat (p_vaddr ph) + unat (p_filesz ph) < 2 ^ 64" using assms by (auto simp: user_segment_def word_le_nat_alt)
  then have "p_vaddr ph \<le> p_vaddr ph + p_filesz ph" by (simp add: word_le_nat_alt unat_add_no_wrap)
  then show ?thesis using word_in_range [of "p_vaddr ph" "p_vaddr ph + p_filesz ph" "p_vaddr ph + j"] by (simp add: seg_byte_def)
qed

lemma stack_pages:
  assumes "STACK_TOP - 0x4000 \<le> v" "v < STACK_TOP"
  shows "\<exists>i < 4. v AND NOT 0xFFF = (STACK_TOP - (of_nat i + 1) * 4096) AND NOT 0xFFF"
proof -
  have b: "0x6FFFFFFFC * 4096 \<le> unat v" "unat v < 0x700000000 * 4096"
    using assms by (simp_all add: STACK_TOP_def word_le_nat_alt word_less_nat_alt)
  then have "0x6FFFFFFFC \<le> unat v div 4096" "unat v div 4096 < 0x700000000"
    by (simp_all only: less_eq_div_iff_mult_less_eq zero_less_numeral div_less_iff_less_mult)
  then consider "unat v div 4096 = 0x6FFFFFFFF" | "unat v div 4096 = 0x6FFFFFFFE" | "unat v div 4096 = 0x6FFFFFFFD"
    | "unat v div 4096 = 0x6FFFFFFFC" by linarith
  then show ?thesis
    unfolding word_unat_eq_iff and_not_page STACK_TOP_def
  proof cases
    case 1 then show "\<exists>i < 4. unat v div 4096 * 4096 = unat (0x700000000000 - (of_nat i + 1) * 4096 :: u64) div 4096 * 4096"
      by (intro exI [of _ 0]) simp
  next
    case 2 then show "\<exists>i < 4. unat v div 4096 * 4096 = unat (0x700000000000 - (of_nat i + 1) * 4096 :: u64) div 4096 * 4096"
      by (intro exI [of _ 1]) simp
  next
    case 3 then show "\<exists>i < 4. unat v div 4096 * 4096 = unat (0x700000000000 - (of_nat i + 1) * 4096 :: u64) div 4096 * 4096"
      by (intro exI [of _ 2]) simp
  next
    case 4 then show "\<exists>i < 4. unat v div 4096 * 4096 = unat (0x700000000000 - (of_nat i + 1) * 4096 :: u64) div 4096 * 4096"
      by (intro exI [of _ 3]) simp
  qed
qed

text \<open>
  C8: A program that the loader accepts is in memory as its file says. In the new address space every
  byte of every loadable segment in the user half is mapped to a frame that was free before; it
  holds the byte of the file, or zero behind the part that the file has. The 16 KiB of the user
  stack are mapped to such frames, too.
\<close>

theorem elf_image_loaded:
  assumes "walk_laws good tf k" and "map_to_laws good tf k" and "crate_ok k" and "length elf < 2 ^ 63"
    and "alloc_inv (falloc k)" and "good (kmem k) (cr3_reg k)" and "tf (kmem k) (cr3_reg k) \<inter> free_addrs (falloc k) = {}"
    and "user_address_space elf k = Inr (root, k')"
  shows "(\<forall>i < unat (e_phnum (read_ehdr elf)). let ph = phdr_of elf i in user_segment ph \<longrightarrow>
      (\<forall>j < p_memsz ph. \<exists>p. user_phys acc (k'\<lparr>cr3_reg := root\<rparr>) (p_vaddr ph + j) = Some p \<and>
         p AND NOT 0xFFF \<in> free_addrs (falloc k) \<and>
         kmem k' (p + hhdm_offset k') = (if j < p_filesz ph then elf ! unat (p_offset ph + j) else 0))) \<and>
    (\<forall>v. STACK_TOP - 0x4000 \<le> v \<and> v < STACK_TOP \<longrightarrow>
      (\<exists>p. user_phys acc (k'\<lparr>cr3_reg := root\<rparr>) v = Some p \<and> p AND NOT 0xFFF \<in> free_addrs (falloc k)))"
proof -
  obtain E where inv: "image_inv good tf k root E k'"
    and segs: "\<And>i. i < unat (e_phnum (read_ehdr elf)) \<Longrightarrow> user_segment (phdr_of elf i) \<Longrightarrow> segment_in elf (phdr_of elf i) E"
    and stack: "\<And>i. i < 4 \<Longrightarrow> \<exists>f c. ((STACK_TOP - (of_nat i + 1) * 4096) AND NOT 0xFFF, f, c) \<in> E"
    using user_address_space_image [OF assms(1-3,4-)] by metis
  note byte = page_at_byte [OF inv, where acc = acc]
  have "\<exists>p. user_phys acc (k'\<lparr>cr3_reg := root\<rparr>) (p_vaddr ph + j) = Some p \<and> p AND NOT 0xFFF \<in> free_addrs (falloc k) \<and>
      kmem k' (p + hhdm_offset k') = (if j < p_filesz ph then elf ! unat (p_offset ph + j) else 0)"
    if "segment_in elf ph E" "user_segment ph" "j < p_memsz ph" for ph j
  proof -
    let ?v = "p_vaddr ph + j"
    from that(1,3) obtain f c where e: "(?v AND NOT 0xFFF, f, c) \<in> E"
      and c: "\<And>i. i < 4096 \<Longrightarrow> c i = seg_byte elf ph ((?v AND NOT 0xFFF) + i)"
      unfolding segment_in_def by blast
    show ?thesis
      using byte [OF e] unfolding c [OF page_split(1)] page_split(2) seg_byte_at [OF that(2)] .
  qed
  moreover have "\<exists>p. user_phys acc (k'\<lparr>cr3_reg := root\<rparr>) v = Some p \<and> p AND NOT 0xFFF \<in> free_addrs (falloc k)"
    if v: "STACK_TOP - 0x4000 \<le> v" "v < STACK_TOP" for v
    using stack_pages [OF v] stack byte [of v] by metis
  ultimately show ?thesis using segs unfolding Let_def by blast
qed

section \<open>An instance\<close>

text \<open>The page tables of the sample machine satisfy the laws. A slot determines its page.\<close>

definition toy_page :: "nat \<Rightarrow> u64" where
  "toy_page i =
     (if i < 64 then of_nat i
      else if i < 128 then 0x80000 + (of_nat ((i - 64) div 4) * 4096 + of_nat ((i - 64) mod 4))
      else 0x6FFFFFFC0 + of_nat (i - 128))"

lemma toy_slot_page:
  assumes "toy_slot p = Some i"
  shows "i < 192" "drop_bit 12 p = toy_page i"
proof -
  define n d e where "n = drop_bit 12 p" and "d = n - 0x80000" and "e = n - 0x6FFFFFFC0"
  consider (low) "n < 64" "i = unat n"
    | (window) "d < 0x10000" "d AND 0xFFF < 4" "i = 64 + (unat (drop_bit 12 d) * 4 + unat (d AND 0xFFF))"
    | (stack) "e < 64" "i = 128 + unat e"
    using assms unfolding toy_slot_def Let_def n_def [symmetric] d_def [symmetric] e_def [symmetric]
    by (simp only: split: if_splits) simp_all
  then have "i < 192 \<and> n = toy_page i"
  proof cases
    case low
    then show ?thesis by (simp add: toy_page_def word_less_nat_alt)
  next
    case window
    define x y where "x = unat (drop_bit 12 d)" and "y = unat (d AND 0xFFF)"
    have "x < 16" using window(1) by (simp add: x_def word_less_nat_alt drop_bit_eq_div unat_div)
    moreover have "y < 4" using window(2) by (simp add: y_def word_less_nat_alt)
    moreover have "d = of_nat x * 4096 + of_nat y"
      using bits_ident [of 12 d] by (simp add: x_def y_def take_bit_eq_mask mask_eq_exp_minus_1 push_bit_eq_mult)
    moreover have "i = 64 + (x * 4 + y)" by (simp add: window(3) x_def y_def)
    ultimately show ?thesis by (simp add: toy_page_def d_def algebra_simps)
  next
    case stack
    then show ?thesis by (simp add: toy_page_def word_less_nat_alt e_def)
  qed
  then show "i < 192" "drop_bit 12 p = toy_page i" by (simp_all add: n_def)
qed

lemma aligned_drop_inj:
  fixes p q :: u64
  assumes "p AND 0xFFF = 0" "q AND 0xFFF = 0" "drop_bit 12 p = drop_bit 12 q"
  shows "p = q"
  using bits_ident [of 12 p] bits_ident [of 12 q] assms by (simp add: take_bit_eq_mask mask_eq_exp_minus_1)

text \<open>The eight bytes of an entry.\<close>

lemma entry_offset: "i < 512 \<Longrightarrow> t < 8 \<Longrightarrow> unat (of_nat (8 * i) + of_nat t :: u64) = 8 * i + t"
  unfolding of_nat_add [symmetric] unat_of_nat by simp

lemma entry_read_cong:
  assumes "i < 512" and "\<And>d. d < 4096 \<Longrightarrow> m' (b + d) = m (b + d)"
  shows "read_bytes m' (b + of_nat (8 * i)) 8 = read_bytes m (b + of_nat (8 * i)) 8"
proof (rule nth_equalityI)
  fix t assume "t < length (read_bytes m' (b + of_nat (8 * i)) 8)"
  then have t: "t < 8" by simp
  then have "of_nat (8 * i) + of_nat t < (4096 :: u64)" using assms(1)
    unfolding word_less_nat_alt entry_offset [OF assms(1) t] by simp
  from assms(2) [OF this] t show "read_bytes m' (b + of_nat (8 * i)) 8 ! t = read_bytes m (b + of_nat (8 * i)) 8 ! t"
    by (simp add: add.assoc)
qed simp

lemma entry_read_other:
  assumes "i < 512" "j < 512" "i \<noteq> j" "length bs = 8"
  shows "read_bytes (copy_bytes m (b + of_nat (8 * i)) bs) (b + of_nat (8 * j)) 8 = read_bytes m (b + of_nat (8 * j)) 8"
proof (rule nth_equalityI)
  fix t assume "t < length (read_bytes (copy_bytes m (b + of_nat (8 * i)) bs) (b + of_nat (8 * j)) 8)"
  then have t: "t < 8" by simp
  let ?a = "b + of_nat (8 * j) + of_nat t"
  have "unat (?a - b) = 8 * j + t" using entry_offset [OF assms(2) t] by (simp add: add.assoc)
  then have "\<not> unat (?a - (b + of_nat (8 * i))) < 8" unfolding entry_index [OF assms(1)] using assms(3) t by auto
  then show "read_bytes (copy_bytes m (b + of_nat (8 * i)) bs) (b + of_nat (8 * j)) 8 ! t = read_bytes m (b + of_nat (8 * j)) 8 ! t"
    using t assms(4) by (simp add: copy_bytes_def)
qed simp

lemma entry_present: "(le_word (read_bytes m p 8) :: u64) AND 1 = 0 \<longleftrightarrow> m p AND 1 = 0"
proof -
  have "read_bytes m p 8 = m p # map (\<lambda>i. m (p + of_nat i)) [1..<8]" by (simp add: read_bytes_def upt_rec)
  then have "(le_word (read_bytes m p 8) :: u64) = ucast (m p) + 256 * le_word (map (\<lambda>i. m (p + of_nat i)) [1..<8])"
    by (simp add: le_word_code)
  then have "even (le_word (read_bytes m p 8) :: u64) \<longleftrightarrow> even (ucast (m p) :: u64)" by simp
  moreover have "even (ucast (m p) :: u64) \<longleftrightarrow> even (m p)" using bit_ucast_iff [of "m p" 0] by (simp add: bit_0)
  ultimately show ?thesis by (simp add: and_one_eq even_iff_mod_2_eq_zero)
qed

lemma entry_frame: "f AND 0xFFF = 0 \<Longrightarrow> (f OR 1) AND NOT 0xFFF = f" "(f OR 1) AND 1 \<noteq> 0" for f :: u64
proof -
  show "f AND 0xFFF = 0 \<Longrightarrow> (f OR 1) AND NOT 0xFFF = f" using aligned_page [of f] by (simp add: bit.conj_disj_distrib2)
  show "(f OR 1) AND 1 \<noteq> 0" by (simp add: bit.conj_disj_distrib2)
qed

definition toy_good :: "mem \<Rightarrow> u64 \<Rightarrow> bool" where
  "toy_good m root \<longleftrightarrow> root AND 0xFFF = 0"

definition toy_frames :: "mem \<Rightarrow> u64 \<Rightarrow> u64 set" where
  "toy_frames m root = {root}"

lemma toy_walk_cong:
  assumes "agree_on h {root} m m'"
  shows "toy_walk h m' root = toy_walk h m root"
proof (intro ext)
  fix acc v
  have "read_bytes m' (h + root + of_nat (8 * i)) 8 = read_bytes m (h + root + of_nat (8 * i)) 8"
    if "toy_slot (v AND NOT 0xFFF) = Some i" for i
    using toy_slot_page(1) [OF that] assms by (intro entry_read_cong) (auto simp: agree_on_def)
  then show "toy_walk h m' root acc v = toy_walk h m root acc v"
    unfolding toy_walk_def by (simp split: option.split)
qed

lemma toy_walk_laws: "mmu_walk k = toy_walk \<Longrightarrow> walk_laws toy_good toy_frames k"
  unfolding walk_laws_def toy_good_def toy_frames_def using toy_walk_cong by (intro conjI allI impI) auto

lemma toy_map_walk:
  assumes "toy_map_to (h + root, h) page frame USER_FLAGS (m, a) = Inr (Map_Ok, m', a')"
    and page: "page AND 0xFFF = 0" and frame: "frame AND 0xFFF = 0"
  shows "a' = a" "4096 \<le> x - (h + root) \<Longrightarrow> m' x = m x"
    "toy_walk h m' root acc v = (if v AND NOT 0xFFF = page then Some (frame + (v AND 0xFFF)) else toy_walk h m root acc v)"
    "v AND NOT 0xFFF = page \<Longrightarrow> toy_walk h m root acc v = None"
proof -
  from assms(1) obtain i where i: "toy_slot page = Some i"
    and free: "m (h + root + of_nat (8 * i)) AND 1 = 0"
    and m': "m' = copy_bytes m (h + root + of_nat (8 * i)) (word_le 8 (frame OR 1))" and a: "a' = a"
    by (auto simp: toy_map_to_def Let_def split: option.splits if_splits)
  show "a' = a" by (rule a)
  have i192: "i < 192" by (rule toy_slot_page(1) [OF i])
  show "m' x = m x" if x: "4096 \<le> x - (h + root)"
  proof -
    have "4096 \<le> unat (x - (h + root))" using x by (simp add: word_le_nat_alt)
    then have "\<not> unat (x - (h + root + of_nat (8 * i))) < 8" using entry_index [of i x "h + root"] i192 by simp
    then show ?thesis by (simp add: m' copy_bytes_def)
  qed
  have "read_bytes m' (h + root + of_nat (8 * i)) 8 = word_le 8 (frame OR 1)"
    using read_copy_bytes [of "word_le 8 (frame OR 1)" m "h + root + of_nat (8 * i)"] by (simp add: m')
  then have e: "(le_word (read_bytes m' (h + root + of_nat (8 * i)) 8) :: u64) = frame OR 1" by (simp add: le_word_word_le)
  show "toy_walk h m' root acc v = (if v AND NOT 0xFFF = page then Some (frame + (v AND 0xFFF)) else toy_walk h m root acc v)"
  proof (cases "v AND NOT 0xFFF = page")
    case True
    then show ?thesis unfolding toy_walk_def True i option.case e Let_def entry_frame(1) [OF frame] using entry_frame(2) [of frame] by simp
  next
    case False
    have "read_bytes m' (h + root + of_nat (8 * j)) 8 = read_bytes m (h + root + of_nat (8 * j)) 8"
      if j: "toy_slot (v AND NOT 0xFFF) = Some j" for j
    proof -
      have "i \<noteq> j"
        using False aligned_drop_inj [OF and_not_page(2) page, of v] toy_slot_page(2) [OF i] toy_slot_page(2) [OF j] by metis
      then show ?thesis unfolding m' using i192 toy_slot_page(1) [OF j] by (intro entry_read_other) simp_all
    qed
    then show ?thesis unfolding toy_walk_def if_not_P [OF False] by (simp split: option.split)
  qed
  show "toy_walk h m root acc v = None" if v: "v AND NOT 0xFFF = page"
    unfolding toy_walk_def v i option.case Let_def entry_present using free by (simp only: if_True simp_thms)
qed

lemma toy_map_to_laws:
  assumes "mmu_walk k = toy_walk" and "map_to k = toy_map_to"
  shows "map_to_laws toy_good toy_frames k"
  unfolding map_to_laws_def Let_def toy_good_def toy_frames_def assms
proof (intro allI impI)
  fix m a root page frame m' a'
  assume al: "root AND 0xFFF = 0" "alloc_inv a" "page AND 0xFFF = 0" "frame AND 0xFFF = 0"
    and mt: "toy_map_to (hhdm_offset k + root, hhdm_offset k) page frame USER_FLAGS (m, a) = Inr (Map_Ok, m', a')"
  note t = toy_map_walk [OF mt al(3,4)]
  show "root AND 0xFFF = 0 \<and> alloc_inv a' \<and> free_addrs a' \<subseteq> free_addrs a \<and> {root} \<subseteq> {root} \<union> (free_addrs a - free_addrs a') \<and>
      (\<forall>x. (\<forall>f\<in>{root}. 4096 \<le> x - (hhdm_offset k + f)) \<longrightarrow> m' x = m x) \<and>
      (\<forall>acc v. toy_walk (hhdm_offset k) m' root acc v =
        (if v AND NOT 0xFFF = page then Some (frame + (v AND 0xFFF)) else toy_walk (hhdm_offset k) m root acc v)) \<and>
      (\<forall>acc v. v AND NOT 0xFFF = page \<longrightarrow> toy_walk (hhdm_offset k) m root acc v = None)"
    using al(1,2) t(1) by (intro conjI allI impI t(3,4) t(2)) blast+
qed

lemma spawn_machine_free:
  "alloc_inv (falloc spawn_machine)" "toy_frames (kmem spawn_machine) (cr3_reg spawn_machine) \<inter> free_addrs (falloc spawn_machine) = {}"
proof -
  let ?bm = "[0xFF, 0xFF, 0, 0, 0, 0, 0, 0] :: bytes"
  have "free_idx (falloc spawn_machine) = set (filter (\<lambda>j. \<not> bitmap_test ?bm j) [0..<64])"
    by (auto simp: free_idx_def spawn_machine_def sample_machine_def)
  also have "filter (\<lambda>j. \<not> bitmap_test ?bm j) [0..<64] = [16..<64]" by code_simp
  finally have f: "free_idx (falloc spawn_machine) = {16..<64}" by (simp only: set_upt)
  then show "alloc_inv (falloc spawn_machine)" unfolding alloc_inv_def by (simp add: spawn_machine_def sample_machine_def)
  have "frame_addr j \<noteq> 0x2000" if "j \<in> {16..<64}" for j
    using frame_addr_inj [of j 2] that by (auto simp: frame_addr_def PAGE_SIZE_def)
  then show "toy_frames (kmem spawn_machine) (cr3_reg spawn_machine) \<inter> free_addrs (falloc spawn_machine) = {}"
    unfolding free_addrs_def f by (auto simp: toy_frames_def spawn_machine_def sample_machine_def)
qed

lemma sample_elf_facts:
  "e_phnum (read_ehdr sample_elf) = 1" "p_type (phdr_of sample_elf 0) = 1" "p_vaddr (phdr_of sample_elf 0) = 0x2000"
  "p_memsz (phdr_of sample_elf 0) = 16" "p_filesz (phdr_of sample_elf 0) = 2" "p_offset (phdr_of sample_elf 0) = 120"
  "sample_elf ! 121 = 0xF4" "length sample_elf = 122"
  by code_simp+

theorem elf_image_loaded_witness:
  "\<exists>root k'. user_address_space sample_elf spawn_machine = Inr (root, k') \<and>
     (\<exists>p. user_phys Read_Access (k'\<lparr>cr3_reg := root\<rparr>) 0x2001 = Some p \<and> kmem k' (p + hhdm_offset k') = 0xF4) \<and>
     (\<exists>p. user_phys Read_Access (k'\<lparr>cr3_reg := root\<rparr>) 0x200F = Some p \<and> kmem k' (p + hhdm_offset k') = 0) \<and>
     (\<exists>p. user_phys Read_Access (k'\<lparr>cr3_reg := root\<rparr>) 0x6FFFFFFFFFF8 = Some p)"
proof -
  obtain root k' where r: "user_address_space sample_elf spawn_machine = Inr (root, k')" using spawn_loads by blast
  have toy: "mmu_walk spawn_machine = toy_walk" "map_to spawn_machine = toy_map_to" "crate_ok spawn_machine"
    "toy_good (kmem spawn_machine) (cr3_reg spawn_machine)"
    using sample_crate_ok by (simp_all add: spawn_machine_def sample_machine_def crate_ok_def toy_good_def)
  have seg: "user_segment (phdr_of sample_elf 0)" by (simp add: user_segment_def sample_elf_facts PT_LOAD_def)
  have len: "length sample_elf < 2 ^ 63" by (simp add: sample_elf_facts)
  note image = elf_image_loaded [OF toy_walk_laws [OF toy(1)] toy_map_to_laws [OF toy(1,2)] toy(3) len spawn_machine_free(1)
    toy(4) spawn_machine_free(2) r, where acc = Read_Access]
  note bytes = image [THEN conjunct1, rule_format, of 0, unfolded Let_def sample_elf_facts, simplified seg]
  show ?thesis
    using r image [THEN conjunct2, rule_format, of "0x6FFFFFFFFFF8"] bytes [rule_format, of 1] bytes [rule_format, of 15]
    by (intro exI [of _ root] exI [of _ k']) (auto simp: STACK_TOP_def sample_elf_facts)
qed

end
