(* ===== verification/Userspace.thy ===== *)
theory Userspace
  imports Syscall_Authority
begin

text \<open>
  The library that every service links (\<^verbatim>\<open>userspace/src/lib.rs\<close>): one wrapper per system call,
  given as the registers it hands to the kernel, the decimal printer \<open>sys_log_num\<close> and the
  encoding of key events as messages. The lemmas show that the two sides of the system-call
  interface agree and that the printer writes decimal numbers.
\<close>

section \<open>System calls\<close>

definition user_syscall :: "u64 \<Rightarrow> u64 \<Rightarrow> u64 \<Rightarrow> u64 \<Rightarrow> u64 \<Rightarrow> u64 \<Rightarrow> u64 \<Rightarrow> user_regs" where
  "user_syscall sys_num arg1 arg2 arg3 arg4 arg5 arg6 =
     \<lparr>u_rdi = arg1, u_rsi = arg2, u_rdx = arg3, u_r10 = arg4, u_r8 = arg5, u_r9 = arg6, u_rax = sys_num\<rparr>"

definition call_yield :: user_regs where "call_yield = user_syscall 0 0 0 0 0 0 0"
definition call_exit :: user_regs where "call_exit = user_syscall 1 0 0 0 0 0 0"
definition call_log :: "u64 \<Rightarrow> u64 \<Rightarrow> user_regs" where "call_log ptr len = user_syscall 2 ptr len 0 0 0 0"
definition call_ep_create :: user_regs where "call_ep_create = user_syscall 3 0 0 0 0 0 0"
definition call_send :: "u64 \<Rightarrow> u64 \<Rightarrow> user_regs" where "call_send handle msg = user_syscall 4 handle msg 0 0 0 0"
definition call_recv :: "u64 \<Rightarrow> u64 \<Rightarrow> user_regs" where "call_recv handle msg = user_syscall 5 handle msg 0 0 0 0"
definition call_spawn :: "u64 \<Rightarrow> u64 \<Rightarrow> u64 \<Rightarrow> user_regs" where
  "call_spawn name_ptr name_len ep_handle = user_syscall 6 name_ptr name_len ep_handle 0 0 0"
definition call_wait :: "u64 \<Rightarrow> user_regs" where "call_wait process_handle = user_syscall 7 process_handle 0 0 0 0 0"
definition call_wait_irq :: "u64 \<Rightarrow> user_regs" where "call_wait_irq handle = user_syscall 8 handle 0 0 0 0 0"
definition call_port_in :: "u64 \<Rightarrow> u16 \<Rightarrow> u8 \<Rightarrow> user_regs" where
  "call_port_in handle port sz = user_syscall 9 handle (ucast port) (ucast sz) 0 0 0"
definition call_port_out :: "u64 \<Rightarrow> u16 \<Rightarrow> u8 \<Rightarrow> u32 \<Rightarrow> user_regs" where
  "call_port_out handle port sz val = user_syscall 10 handle (ucast port) (ucast sz) (ucast val) 0 0"
definition call_map_phys :: "u64 \<Rightarrow> u64 \<Rightarrow> u64 \<Rightarrow> user_regs" where
  "call_map_phys handle phys_addr len = user_syscall 11 handle phys_addr len 0 0 0"
definition call_framebuffer_info :: "u64 \<Rightarrow> user_regs" where
  "call_framebuffer_info info = user_syscall 12 info 0 0 0 0 0"
definition call_frame_alloc :: "u64 \<Rightarrow> user_regs" where "call_frame_alloc sz = user_syscall 13 sz 0 0 0 0 0"
definition call_dma_alloc :: "u64 \<Rightarrow> user_regs" where "call_dma_alloc sz = user_syscall 14 sz 0 0 0 0 0"
definition call_cap_info :: "u64 \<Rightarrow> user_regs" where "call_cap_info handle = user_syscall 15 handle 0 0 0 0 0"
definition call_thread_spawn :: "u64 \<Rightarrow> u64 \<Rightarrow> user_regs" where
  "call_thread_spawn entry_point user_stack = user_syscall 16 entry_point user_stack 0 0 0 0"

lemmas user_calls = user_syscall_def call_yield_def call_exit_def call_log_def call_ep_create_def call_send_def
  call_recv_def call_spawn_def call_wait_def call_wait_irq_def call_port_in_def call_port_out_def
  call_map_phys_def call_framebuffer_info_def call_frame_alloc_def call_dma_alloc_def call_cap_info_def
  call_thread_spawn_def

text \<open>
  C35: The wrappers of the user library and the dispatcher of the kernel agree on every call number
  and on the register of every argument: each wrapper runs the handler of the call it is named
  after, on the arguments it was given.
\<close>

theorem abi_agreement:
  "syscall_handler call_yield i k = sys_yield i k \<and>
   syscall_handler call_exit i k = sys_exit i k \<and>
   syscall_handler (call_log p l) i k = sys_log p l k \<and>
   syscall_handler call_ep_create i k = sys_ep_create k \<and>
   syscall_handler (call_send h p) i k = syscall_send h p i k \<and>
   syscall_handler (call_recv h p) i k = syscall_recv h p i k \<and>
   syscall_handler (call_spawn p l h) i k = sys_spawn p l h i k \<and>
   syscall_handler (call_wait h) i k = syscall_wait h i k \<and>
   syscall_handler (call_wait_irq h) i k = syscall_wait_irq h i k \<and>
   syscall_handler (call_port_in h port sz) i k = sys_port_in h (ucast port) (ucast sz) k \<and>
   syscall_handler (call_port_out h port sz val) i k = sys_port_out h (ucast port) (ucast sz) (ucast val) k \<and>
   syscall_handler (call_map_phys h a l) i k = sys_map_phys h a l k \<and>
   syscall_handler (call_framebuffer_info p) i k = sys_framebuffer_info p k \<and>
   syscall_handler (call_frame_alloc n) i k = sys_frame_alloc n k \<and>
   syscall_handler (call_dma_alloc n) i k = sys_dma_alloc n k \<and>
   syscall_handler (call_cap_info h) i k = sys_cap_info h k \<and>
   syscall_handler (call_thread_spawn e s) i k = sys_thread_spawn e s i k"
  by (simp add: user_calls syscall_handler_def)

section \<open>Printing numbers\<close>

text \<open>The loop of \<open>sys_log_num\<close> fills its buffer from the end; \<open>log_num\<close> is the text that is logged.\<close>

function num_loop :: "u64 \<Rightarrow> nat \<Rightarrow> bytes \<Rightarrow> panic + nat \<times> bytes" where
  "num_loop num i buf =
     (if 0 < num
      then (if i = 0 \<or> length buf < i then Inl Index_Out_Of_Bounds
            else num_loop (num div 10) (i - 1) (buf[i - 1 := ucast (num mod 10) + 0x30]))
      else Inr (i, buf))"
  by pat_completeness auto
termination
  by (relation "measure (\<lambda>(num, i, buf). unat num)") (simp_all add: unat_div word_less_nat_alt)

definition log_num :: "u64 \<Rightarrow> panic + bytes" where
  "log_num num =
     (if num = 0 then Inr [0x30]
      else and_then (num_loop num 32 (replicate 32 0)) (\<lambda>(i, buf). Inr (drop i buf)))"

text \<open>The reference: the decimal digits of a number, and the number that digits denote.\<close>

fun decimal :: "nat \<Rightarrow> bytes" where
  "decimal n = (if n < 10 then [of_nat n + 0x30] else decimal (n div 10) @ [of_nat (n mod 10) + 0x30])"

declare decimal.simps [simp del] num_loop.simps [simp del]

definition decimal_value :: "bytes \<Rightarrow> nat" where
  "decimal_value = foldl (\<lambda>n d. 10 * n + unat (d - 0x30)) 0"

lemma decimal_value_decimal: "decimal_value (decimal n) = n"
proof (induction n rule: decimal.induct)
  case (1 n)
  then show ?case
    by (subst decimal.simps) (simp add: decimal_value_def unat_of_nat)
qed

lemma length_decimal_le: "n < 10 ^ Suc m \<Longrightarrow> length (decimal n) \<le> Suc m"
proof (induction m arbitrary: n)
  case 0
  then show ?case by (simp add: decimal.simps)
next
  case (Suc m)
  have "n div 10 < 10 ^ Suc m" using Suc.prems by (simp add: div_less_iff_less_mult mult.commute)
  from Suc.IH [OF this] show ?case by (subst decimal.simps) simp
qed

lemma length_decimal_u64: "length (decimal (unat (num :: u64))) \<le> 20"
proof -
  have "unat num < 10 ^ Suc 19" by (rule less_trans [OF unat_lt_2p64]) simp
  from length_decimal_le [OF this] show ?thesis by simp
qed

lemma num_loop_decimal:
  assumes "0 < num" and "length (decimal (unat num)) \<le> i" and "i \<le> length buf"
  shows "num_loop num i buf =
    Inr (i - length (decimal (unat num)),
         take (i - length (decimal (unat num))) buf @ decimal (unat num) @ drop i buf)"
  using assms
proof (induction num i buf rule: num_loop.induct)
  case (1 num i buf)
  let ?d = "ucast (num mod 10) + 0x30 :: u8"
  have i: "0 < i" using "1.prems"(2) by (subst (asm) decimal.simps) (auto split: if_splits)
  have d: "?d = of_nat (unat num mod 10) + 0x30" 
  proof -
    have "unat num mod 10 = unat (num mod 10)" by (simp add: unat_mod)
    then show ?thesis by (simp only: of_nat_unat)
  qed
  have drop: "drop (i - 1) (buf[i - 1 := x]) = x # drop i buf" for x
    using i "1.prems"(3) by (subst drop_update_swap) (simp_all add: Cons_nth_drop_Suc [symmetric])
  have step: "num_loop num i buf = num_loop (num div 10) (i - 1) (buf[i - 1 := ?d])"
    using i "1.prems" by (subst num_loop.simps) simp
  show ?case
  proof (cases "unat num < 10")
    case True
    then have "num div 10 = 0" by (simp add: word_arith_nat_div)
    then show ?thesis
      using True i "1.prems" d drop
      by (subst step, subst num_loop.simps, subst (1 2 3) decimal.simps)
        (simp add: id_take_nth_drop [of "i - 1" "buf[i - 1 := ?d]"] upd_conv_take_nth_drop)
  next
    case False
    have pos: "0 < num div 10" using False by (simp add: word_less_nat_alt unat_div)
    have len: "decimal (unat num) = decimal (unat (num div 10)) @ [of_nat (unat num mod 10) + 0x30]"
      using False by (subst decimal.simps) (simp add: unat_div)
    have "num_loop (num div 10) (i - 1) (buf[i - 1 := ?d]) =
        Inr (i - 1 - length (decimal (unat (num div 10))),
             take (i - 1 - length (decimal (unat (num div 10)))) (buf[i - 1 := ?d]) @
             decimal (unat (num div 10)) @ drop (i - 1) (buf[i - 1 := ?d]))"
      using "1.prems" i len by (intro "1.IH" pos) simp_all
    then show ?thesis by (simp add: step len d drop [simplified])
  qed
qed

text \<open>
  C34: \<open>sys_log_num\<close> never panics and logs exactly the decimal digits of its argument.
\<close>

theorem sys_log_num_decimal:
  "log_num num = Inr (decimal (unat num)) \<and> decimal_value (decimal (unat num)) = unat num"
proof (cases "num = 0")
  case True
  then show ?thesis by (simp add: log_num_def decimal.simps decimal_value_def)
next
  case False
  then have "0 < num" by (simp add: word_gt_0)
  with length_decimal_u64 [of num] show ?thesis
    by (simp add: log_num_def num_loop_decimal decimal_value_decimal False)
qed

section \<open>Key events\<close>

definition MSG_KEY_EVENT :: u64 where "MSG_KEY_EVENT = 1"

record key_event =
  ev_key :: u64
  ev_pressed :: u64
  ev_modifiers :: u64

definition to_message :: "key_event \<Rightarrow> u64 \<Rightarrow> message" where
  "to_message ev tsc =
     \<lparr>msg_rdi = MSG_KEY_EVENT, msg_rsi = ev_key ev, msg_rdx = ev_pressed ev, msg_r10 = ev_modifiers ev,
      msg_r8 = tsc, msg_r9 = 0\<rparr>"

definition from_message :: "message \<Rightarrow> (key_event \<times> u64) option" where
  "from_message msg =
     (if msg_rdi msg = MSG_KEY_EVENT
      then Some (\<lparr>ev_key = msg_rsi msg, ev_pressed = msg_rdx msg, ev_modifiers = msg_r10 msg\<rparr>, msg_r8 msg)
      else None)"

lemma from_to_message [simp]: "from_message (to_message ev tsc) = Some (ev, tsc)"
  by (simp add: from_message_def to_message_def)

section \<open>Devices\<close>

text \<open>
  A driver sees its device through \<open>sys_port_in\<close>, \<open>sys_port_out\<close> and \<open>sys_wait_irq\<close>. The device is
  hardware: a parameter with an unknown state \<^typ>\<open>'d\<close>.
\<close>

record 'd bus =
  bus_in :: "u16 \<Rightarrow> u8 \<Rightarrow> 'd \<Rightarrow> u64 \<times> 'd"
  bus_out :: "u16 \<Rightarrow> u8 \<Rightarrow> u32 \<Rightarrow> 'd \<Rightarrow> 'd"
  bus_wait_irq :: "'d \<Rightarrow> 'd"

end
