(* ===== verification/Console.thy ===== *)
theory Console
  imports Userspace
begin

text \<open>
  The keyboard service (\<^verbatim>\<open>bin/keyboard_service.rs\<close>) and the terminal service
  (\<^verbatim>\<open>bin/terminal_service.rs\<close>): decoding of scan codes, key events, the cursor and the drawing
  of characters into the framebuffer.
\<close>

section \<open>The keyboard service\<close>

text \<open>The start of \<open>main\<close>: read the data port until the controller has no byte left.\<close>

partial_function (option) kbd_flush :: "'d bus \<Rightarrow> 'd \<Rightarrow> 'd option" where
  "kbd_flush b d =
     (let (status, d1) = bus_in b 0x64 1 d
      in if ucast status AND (1 :: u8) = 0 then Some d1
         else kbd_flush b (snd (bus_in b 0x60 1 d1)))"

text \<open>Letter keys: the scan code, the key with and without shift.\<close>

definition letter_keys :: "(u8 \<times> u8 \<times> u8) list" where
  "letter_keys =
     [(0x10, 0x51, 0x71), (0x11, 0x57, 0x77), (0x12, 0x45, 0x65), (0x13, 0x52, 0x72), (0x14, 0x54, 0x74),
      (0x15, 0x59, 0x79), (0x16, 0x55, 0x75), (0x17, 0x49, 0x69), (0x18, 0x4F, 0x6F), (0x19, 0x50, 0x70),
      (0x1E, 0x41, 0x61), (0x1F, 0x53, 0x73), (0x20, 0x44, 0x64), (0x21, 0x46, 0x66), (0x22, 0x47, 0x67),
      (0x23, 0x48, 0x68), (0x24, 0x4A, 0x6A), (0x25, 0x4B, 0x6B), (0x26, 0x4C, 0x6C), (0x2C, 0x5A, 0x7A),
      (0x2D, 0x58, 0x78), (0x2E, 0x43, 0x63), (0x2F, 0x56, 0x76), (0x30, 0x42, 0x62), (0x31, 0x4E, 0x6E),
      (0x32, 0x4D, 0x6D)]"

definition key_of_code :: "bool \<Rightarrow> u8 \<Rightarrow> u64" where
  "key_of_code shift_pressed code =
     (if 0x02 \<le> code \<and> code \<le> 0x0A then ucast (0x31 + code - 0x02)
      else if code = 0x0B then 0x30
      else if code = 0x0E then 0x08
      else if code = 0x0F then 0x09
      else if code = 0x1C then 0x0A
      else if code = 0x39 then 0x20
      else case map_of letter_keys code of
             Some (upper, lower) \<Rightarrow> ucast (if shift_pressed then upper else lower)
           | None \<Rightarrow> 0)"

text \<open>One round of the main loop: the shift state and the message that is sent, if any.\<close>

definition keyboard_step :: "bool \<Rightarrow> u64 \<Rightarrow> u8 \<Rightarrow> bool \<times> message option" where
  "keyboard_step shift_pressed tsc scancode =
     (if scancode = 0xE0 then (shift_pressed, None)
      else
        let released = scancode AND 0x80 \<noteq> 0; code = scancode AND 0x7F
        in if code = 0x2A \<or> code = 0x36 then (\<not> released, None)
           else if \<not> released
                then (let key = key_of_code shift_pressed code
                      in if key \<noteq> 0
                         then (shift_pressed,
                               Some (to_message \<lparr>ev_key = key, ev_pressed = 1,
                                  ev_modifiers = (if shift_pressed then 1 else 0)\<rparr> tsc))
                         else (shift_pressed, None))
                else (shift_pressed, None))"

fun keyboard_run :: "bool \<Rightarrow> (u64 \<times> u8) list \<Rightarrow> bool \<times> message list" where
  "keyboard_run shift [] = (shift, [])"
| "keyboard_run shift ((tsc, scancode) # rest) =
     (let (shift1, m) = keyboard_step shift tsc scancode; (shift2, ms) = keyboard_run shift1 rest
      in (shift2, opt_list m @ ms))"

section \<open>The terminal service\<close>

definition FONT_A :: bytes where "FONT_A = [0x3c, 0x66, 0x66, 0x7e, 0x66, 0x66, 0x66, 0x00]"
definition FONT_0 :: bytes where "FONT_0 = [0x3c, 0x66, 0x66, 0x66, 0x66, 0x66, 0x3c, 0x00]"
definition FONT_SPACE :: bytes where "FONT_SPACE = replicate 8 0"
definition FONT_UNKNOWN :: bytes where "FONT_UNKNOWN = replicate 8 0xFF"

definition get_glyph :: "u8 \<Rightarrow> bytes" where
  "get_glyph c =
     (if 0x61 \<le> c \<and> c \<le> 0x7A \<or> 0x41 \<le> c \<and> c \<le> 0x5A then FONT_A
      else if 0x30 \<le> c \<and> c \<le> 0x39 then FONT_0
      else if c = 0x20 then FONT_SPACE
      else FONT_UNKNOWN)"

definition bytes_per_pixel :: "framebuffer_info \<Rightarrow> u64" where
  "bytes_per_pixel info = ucast (fb_bpp info div 8)"

definition pixel_offset :: "framebuffer_info \<Rightarrow> u64 \<Rightarrow> u64 \<Rightarrow> nat \<Rightarrow> nat \<Rightarrow> u64" where
  "pixel_offset info x y row col =
     (y + of_nat row) * fb_pitch info + (x + of_nat col) * bytes_per_pixel info"

definition draw_pixel :: "u64 \<Rightarrow> framebuffer_info \<Rightarrow> u64 \<Rightarrow> u64 \<Rightarrow> bytes \<Rightarrow> mem \<Rightarrow> nat \<times> nat \<Rightarrow> mem" where
  "draw_pixel fb_ptr info x y glyph m = (\<lambda>(row, col).
     let offset = pixel_offset info x y row col;
         colour = (if bit (glyph ! row) (7 - col) then 0x00FFFFFF else 0 :: u32)
     in if offset + bytes_per_pixel info \<le> fb_size info
        then copy_bytes m (fb_ptr + offset) (word_le 4 colour)
        else m)"

definition draw_char :: "u64 \<Rightarrow> framebuffer_info \<Rightarrow> u64 \<Rightarrow> u64 \<Rightarrow> u8 \<Rightarrow> mem \<Rightarrow> mem" where
  "draw_char fb_ptr info x y c m =
     foldl (draw_pixel fb_ptr info x y (get_glyph c)) m (List.product [0..<8] [0..<8])"

text \<open>The latency report: the loop writes at most 19 digits, from the end of a buffer of 20.\<close>

function latency_loop :: "u64 \<Rightarrow> nat \<Rightarrow> bytes \<Rightarrow> nat \<times> bytes" where
  "latency_loop temp i buf =
     (if 0 < temp \<and> 0 < i
      then latency_loop (temp div 10) (i - 1) (buf[i := 0x30 + ucast (temp mod 10)])
      else (i, buf))"
  by pat_completeness auto
termination
  by (relation "measure (\<lambda>(temp, i, buf). i)") simp_all

declare latency_loop.simps [simp del]

definition latency_text :: "u64 \<Rightarrow> bytes" where
  "latency_text diff =
     (let buf = replicate 20 0x30;
          (i, buf) = (if diff = 0 then (19, buf[19 := 0x30]) else latency_loop diff 19 buf)
      in [0x4C, 0x61, 0x74, 0x65, 0x6E, 0x63, 0x79, 0x3A, 0x20] @ drop (i + 1) buf)"

record terminal =
  cursor_x :: u64
  cursor_y :: u64
  fb_mem :: mem

definition terminal_init :: "u64 \<Rightarrow> framebuffer_info \<Rightarrow> mem \<Rightarrow> terminal" where
  "terminal_init fb_ptr info m =
     \<lparr>cursor_x = 10, cursor_y = 10, fb_mem = write_bytes m fb_ptr 0 (fb_size info)\<rparr>"

definition terminal_key :: "u64 \<Rightarrow> framebuffer_info \<Rightarrow> u64 \<Rightarrow> terminal \<Rightarrow> terminal" where
  "terminal_key fb_ptr info key t =
     (if key = 0x0A then t\<lparr>cursor_x := 10, cursor_y := cursor_y t + 10\<rparr>
      else if key = 0x08
      then (if 10 < cursor_x t
            then let x = cursor_x t - 8
                 in t\<lparr>cursor_x := x, fb_mem := draw_char fb_ptr info x (cursor_y t) 0x20 (fb_mem t)\<rparr>
            else t)
      else if 32 \<le> key \<and> key \<le> 126
      then let m = draw_char fb_ptr info (cursor_x t) (cursor_y t) (ucast key) (fb_mem t); x = cursor_x t + 8
           in if fb_width info < x + 8
              then t\<lparr>cursor_x := 10, cursor_y := cursor_y t + 10, fb_mem := m\<rparr>
              else t\<lparr>cursor_x := x, fb_mem := m\<rparr>
      else t)"

text \<open>One round of the main loop: the result of \<open>sys_recv\<close>, the message, the time; the report that is logged.\<close>

definition terminal_step ::
  "u64 \<Rightarrow> framebuffer_info \<Rightarrow> u64 \<Rightarrow> message \<Rightarrow> u64 \<Rightarrow> terminal \<Rightarrow> bytes option \<times> terminal" where
  "terminal_step fb_ptr info rc msg tsc_recv t =
     (if rc = 0
      then case from_message msg of
             Some (event, tsc_send) \<Rightarrow>
               if ev_pressed event = 1
               then (Some (latency_text (saturating_sub tsc_recv tsc_send)), terminal_key fb_ptr info (ev_key event) t)
               else (None, t)
           | None \<Rightarrow> (None, t)
      else (None, t))"

definition terminal_run :: "u64 \<Rightarrow> framebuffer_info \<Rightarrow> (u64 \<times> message \<times> u64) list \<Rightarrow> terminal \<Rightarrow> terminal" where
  "terminal_run fb_ptr info evs t =
     foldl (\<lambda>t (rc, msg, tsc). snd (terminal_step fb_ptr info rc msg tsc t)) t evs"

section \<open>Draining the controller\<close>

text \<open>The loop returns once the controller reports an empty buffer, however many bytes were pending.\<close>

fun pending :: "'d bus \<Rightarrow> nat \<Rightarrow> 'd \<Rightarrow> bool" where
  "pending b 0 d \<longleftrightarrow> ucast (fst (bus_in b 0x64 1 d)) AND (1 :: u8) = 0"
| "pending b (Suc n) d \<longleftrightarrow>
     ucast (fst (bus_in b 0x64 1 d)) AND (1 :: u8) \<noteq> 0 \<and> pending b n (snd (bus_in b 0x60 1 (snd (bus_in b 0x64 1 d))))"

lemma kbd_flush_returns: "pending b n d \<Longrightarrow> \<exists>d'. kbd_flush b d = Some d'"
  by (induction n arbitrary: d) (subst kbd_flush.simps; simp add: split_def Let_def)+

section \<open>Latency reports\<close>

lemma latency_loop_num_loop:
  assumes "0 < temp" and "length (decimal (unat temp)) \<le> i" and "Suc i \<le> length buf"
  shows "num_loop temp (Suc i) buf = Inr (Suc (fst (latency_loop temp i buf)), snd (latency_loop temp i buf))"
  using assms
proof (induction temp i buf rule: latency_loop.induct)
  case (1 temp i buf)
  have i: "0 < i" using "1.prems"(2) by (subst (asm) decimal.simps) (auto split: if_splits)
  show ?case
  proof (cases "unat temp < 10")
    case True
    then have "temp div 10 = 0" by (simp add: word_arith_nat_div)
    then show ?thesis
      using i "1.prems" by (simp add: num_loop.simps latency_loop.simps add.commute)
  next
    case False
    have "length (decimal (unat (temp div 10))) \<le> i - 1"
      using "1.prems"(2) False by (subst (asm) decimal.simps) (simp add: unat_div)
    moreover have "0 < temp div 10" using False by (simp add: word_less_nat_alt unat_div)
    ultimately have "num_loop (temp div 10) (Suc (i - 1)) (buf[i := 0x30 + ucast (temp mod 10)]) =
        Inr (Suc (fst (latency_loop (temp div 10) (i - 1) (buf[i := 0x30 + ucast (temp mod 10)]))),
             snd (latency_loop (temp div 10) (i - 1) (buf[i := 0x30 + ucast (temp mod 10)])))"
      using "1.IH" "1.prems" i by simp
    then show ?thesis
      using i "1.prems" by (subst num_loop.simps, subst (1 2) latency_loop.simps) (simp add: add.commute)
  qed
qed

lemma latency_text_decimal:
  assumes "0 < diff" and "unat diff < 10 ^ 19"
  shows "latency_text diff = [0x4C, 0x61, 0x74, 0x65, 0x6E, 0x63, 0x79, 0x3A, 0x20] @ decimal (unat diff)"
proof -
  have len: "length (decimal (unat diff)) \<le> 19" using length_decimal_le [of "unat diff" 18] assms(2) by simp
  obtain i buf where l: "latency_loop diff 19 (replicate 20 0x30) = (i, buf)" by fastforce
  have "num_loop diff 20 (replicate 20 0x30) = Inr (Suc i, buf)"
    using latency_loop_num_loop [OF assms(1) len, of "replicate 20 0x30"] l by simp
  with num_loop_decimal [OF assms(1), of 20 "replicate 20 0x30"] len
  have "Suc i = 20 - length (decimal (unat diff))"
    "buf = take (20 - length (decimal (unat diff))) (replicate 20 0x30) @ decimal (unat diff)" by simp_all
  with assms(1) show ?thesis by (auto simp: latency_text_def Let_def l)
qed

text \<open>A report of latency zero has no digit at all.\<close>

lemma latency_text_zero: "latency_text 0 = [0x4C, 0x61, 0x74, 0x65, 0x6E, 0x63, 0x79, 0x3A, 0x20]"
  by (simp add: latency_text_def)

section \<open>Drawing\<close>

definition in_view :: "framebuffer_info \<Rightarrow> nat \<Rightarrow> bool" where
  "in_view info y \<longleftrightarrow>
     0 < unat (fb_pitch info) \<and> 4 \<le> unat (bytes_per_pixel info) \<and>
     (y + 8) * unat (fb_pitch info) + unat (fb_width info) * unat (bytes_per_pixel info) < 2 ^ 64"

lemma in_view_mono:
  assumes "in_view info Y" and "y \<le> Y"
  shows "in_view info y"
proof -
  have "(y + 8) * unat (fb_pitch info) \<le> (Y + 8) * unat (fb_pitch info)"
    using assms(2) by (intro mult_le_mono1) simp
  moreover have "(Y + 8) * unat (fb_pitch info) + unat (fb_width info) * unat (bytes_per_pixel info) < 2 ^ 64"
    using assms(1) unfolding in_view_def by blast
  ultimately have "(y + 8) * unat (fb_pitch info) + unat (fb_width info) * unat (bytes_per_pixel info) < 2 ^ 64"
    by (rule le_less_trans [OF add_le_mono1])
  with assms(1) show ?thesis unfolding in_view_def by blast
qed

lemma unat_mult_no_wrap: "unat (a :: u64) * unat b < 2 ^ 64 \<Longrightarrow> unat (a * b) = unat a * unat b"
  by (simp add: unat_word_ariths)

lemma unat_pixel_offset:
  assumes v: "in_view info (unat y)" and x: "unat x + 8 \<le> unat (fb_width info)" and rc: "row < 8" "col < 8"
  shows "unat (pixel_offset info x y row col) + unat (bytes_per_pixel info) < 2 ^ 64"
    and "unat (pixel_offset info x y row col) =
      (unat y + row) * unat (fb_pitch info) + (unat x + col) * unat (bytes_per_pixel info)"
proof -
  let ?p = "unat (fb_pitch info)" and ?b = "unat (bytes_per_pixel info)"
  have p: "0 < ?p" and b: "4 \<le> ?b" and lim: "(unat y + 8) * ?p + unat (fb_width info) * ?b < 2 ^ 64"
    using v by (simp_all add: in_view_def)
  have yp: "(unat y + row) * ?p \<le> (unat y + 8) * ?p" using rc by (intro mult_le_mono1) simp
  have xb: "(unat x + Suc col) * ?b \<le> unat (fb_width info) * ?b" using rc x by (intro mult_le_mono1) simp
  have "unat y + 8 \<le> (unat y + 8) * ?p" using p by simp
  then have "unat y + row < 2 ^ 64" using lim rc by linarith
  then have y: "unat (y + of_nat row) = unat y + row"
    using rc by (subst unat_add_no_wrap) (simp_all add: unat_of_nat)
  have "unat x + Suc col \<le> (unat x + Suc col) * ?b"
    using mult_le_mono2 [of 1 ?b "unat x + Suc col"] b by (simp only: mult_1_right)
  then have "unat x + col < 2 ^ 64" using lim xb by linarith
  then have x': "unat (x + of_nat col) = unat x + col"
    using rc by (subst unat_add_no_wrap) (simp_all add: unat_of_nat)
  have sum: "(unat y + row) * ?p + ((unat x + col) * ?b + ?b) < 2 ^ 64"
  proof -
    have "(unat x + Suc col) * ?b = (unat x + col) * ?b + ?b" by (simp add: add_mult_distrib)
    with yp xb lim show ?thesis by linarith
  qed
  have m1: "unat ((y + of_nat row) * fb_pitch info) = (unat y + row) * ?p"
    using le_less_trans [OF le_add1 sum] by (subst unat_mult_no_wrap) (simp_all only: y)
  have m2: "unat ((x + of_nat col) * bytes_per_pixel info) = (unat x + col) * ?b"
    using le_less_trans [OF le_add1 le_less_trans [OF le_add2 sum]] by (subst unat_mult_no_wrap) (simp_all only: x')
  show eq: "unat (pixel_offset info x y row col) = (unat y + row) * ?p + (unat x + col) * ?b"
    using le_less_trans [OF le_add1 sum [folded add.assoc]] unfolding pixel_offset_def
    by (subst unat_add_no_wrap) (simp_all only: m1 m2)
  show "unat (pixel_offset info x y row col) + ?b < 2 ^ 64"
    using sum by (simp only: eq add.assoc)
qed

lemma draw_pixel_confined:
  assumes "in_view info (unat y)" and "unat x + 8 \<le> unat (fb_width info)" and "row < 8" "col < 8"
    and out: "fb_size info \<le> a - fb_ptr"
  shows "draw_pixel fb_ptr info x y g m (row, col) a = m a"
proof (cases "pixel_offset info x y row col + bytes_per_pixel info \<le> fb_size info")
  case True
  let ?o = "pixel_offset info x y row col"
  have "unat ?o + unat (bytes_per_pixel info) \<le> unat (fb_size info)"
    using True unat_add_no_wrap [OF unat_pixel_offset(1) [OF assms(1-4)]] by (simp add: word_le_nat_alt)
  moreover have "4 \<le> unat (bytes_per_pixel info)" using assms(1) by (simp add: in_view_def)
  ultimately have "unat ?o + 4 \<le> unat (a - fb_ptr)" using out by (simp add: word_le_nat_alt)
  then have "4 \<le> unat (a - fb_ptr - ?o)" by (simp add: unat_sub word_le_nat_alt)
  then show ?thesis
    by (simp add: draw_pixel_def Let_def copy_bytes_def diff_diff_eq)
qed (simp add: draw_pixel_def)

lemma draw_char_confined:
  assumes "in_view info (unat y)" and "unat x + 8 \<le> unat (fb_width info)" and "fb_size info \<le> a - fb_ptr"
  shows "draw_char fb_ptr info x y c m a = m a"
proof -
  have all: "foldl (draw_pixel fb_ptr info x y (get_glyph c)) m ps a = m a"
    if "\<forall>p\<in>set ps. fst p < 8 \<and> snd p < 8" for ps
    using that
    by (induction ps arbitrary: m) (auto simp: draw_pixel_confined [OF assms(1,2) _ _ assms(3)])
  show ?thesis unfolding draw_char_def by (rule all) auto
qed

section \<open>The cursor\<close>

definition cursor_ok :: "framebuffer_info \<Rightarrow> terminal \<Rightarrow> bool" where
  "cursor_ok info t \<longleftrightarrow>
     10 \<le> unat (cursor_x t) \<and> unat (cursor_x t) mod 8 = 2 \<and> unat (cursor_x t) + 8 \<le> unat (fb_width info)"

lemma terminal_key_ok:
  assumes ok: "cursor_ok info t" and w: "18 \<le> unat (fb_width info)" "unat (fb_width info) < 2 ^ 60"
    and y: "unat (cursor_y t) \<le> Y" and v: "in_view info (Y + 10)"
  shows "cursor_ok info (terminal_key fb_ptr info key t)"
    and "unat (cursor_y (terminal_key fb_ptr info key t)) \<le> Y + 10"
    and "fb_size info \<le> a - fb_ptr \<Longrightarrow> fb_mem (terminal_key fb_ptr info key t) a = fb_mem t a"
proof -
  let ?x = "cursor_x t"
  have x: "10 \<le> unat ?x" "unat ?x mod 8 = 2" "unat ?x + 8 \<le> unat (fb_width info)"
    using ok by (simp_all add: cursor_ok_def)
  have "Y + 18 \<le> (Y + 18) * unat (fb_pitch info)" using v by (simp add: in_view_def)
  moreover have "(Y + 18) * unat (fb_pitch info) < 2 ^ 64" using v by (simp add: in_view_def add.commute)
  ultimately have Y: "Y + 18 < 2 ^ 64" by (rule le_less_trans)
  have y10: "unat (cursor_y t + 10) = unat (cursor_y t) + 10"
    using Y y by (subst unat_add_no_wrap) simp_all
  have x8: "unat (?x + 8) = unat ?x + 8" using x w by (subst unat_add_no_wrap) simp_all
  have x16: "unat (16 + ?x) = unat ?x + 16" using x w by (subst unat_add_no_wrap) simp_all
  have m8: "unat (?x - 8) = unat ?x - 8" if "10 < ?x" using that x by (simp add: unat_sub word_le_nat_alt)
  have m: "(unat ?x - 8) mod 8 = 2" using x le_mod_geq [of 8 "unat ?x"] by simp
  have left: "18 \<le> unat ?x" if "10 < ?x" using that x by (simp add: word_less_nat_alt) presburger
  have vy: "in_view info (unat (cursor_y t))" by (rule in_view_mono [OF v]) (use y in simp)
  show "cursor_ok info (terminal_key fb_ptr info key t)"
    using x w left unfolding terminal_key_def cursor_ok_def Let_def
    by (auto simp: m m8 x8 x16 word_less_nat_alt not_less mod_simps)
  show "unat (cursor_y (terminal_key fb_ptr info key t)) \<le> Y + 10"
    using y by (simp add: terminal_key_def Let_def y10)
  show "fb_mem (terminal_key fb_ptr info key t) a = fb_mem t a" if "fb_size info \<le> a - fb_ptr"
    using x m8 by (simp add: terminal_key_def Let_def draw_char_confined [OF vy _ that])
qed

lemma terminal_run_ok:
  assumes "cursor_ok info t" and w: "18 \<le> unat (fb_width info)" "unat (fb_width info) < 2 ^ 60"
    and "unat (cursor_y t) \<le> Y" and "in_view info (Y + 10 * length evs)"
  shows "cursor_ok info (terminal_run fb_ptr info evs t) \<and>
    (\<forall>a. fb_size info \<le> a - fb_ptr \<longrightarrow> fb_mem (terminal_run fb_ptr info evs t) a = fb_mem t a)"
  using assms(1,4,5)
proof (induction evs arbitrary: t Y)
  case (Cons e evs)
  obtain rc msg tsc where e: "e = (rc, msg, tsc)" by (cases e)
  let ?t = "snd (terminal_step fb_ptr info rc msg tsc t)"
  have v: "in_view info (Y + 10)" by (rule in_view_mono [OF Cons.prems(3)]) simp
  have "?t = t \<or> (\<exists>key. ?t = terminal_key fb_ptr info key t)"
    by (auto simp: terminal_step_def split: option.splits)
  then have ok: "cursor_ok info ?t" and y: "unat (cursor_y ?t) \<le> Y + 10"
    and m: "\<forall>a. fb_size info \<le> a - fb_ptr \<longrightarrow> fb_mem ?t a = fb_mem t a"
    using Cons.prems(1,2) terminal_key_ok [OF Cons.prems(1) w Cons.prems(2) v] by auto
  have run: "terminal_run fb_ptr info (e # evs) t = terminal_run fb_ptr info evs ?t"
    by (simp add: terminal_run_def e)
  have "in_view info (Y + 10 + 10 * length evs)" using Cons.prems(3) by (simp add: ac_simps)
  from Cons.IH [OF ok y this] m show ?case unfolding run by simp
qed (simp add: terminal_run_def)

text \<open>
  C32: Whatever messages the terminal service receives, its cursor stays inside the text columns
  of the screen, and on a framebuffer of at least 32 bits per pixel no byte outside the mapped
  framebuffer is ever written, as long as the cursor row has not run past the end of the
  address space.
\<close>

theorem terminal_confined:
  assumes "18 \<le> unat (fb_width info)" and "unat (fb_width info) < 2 ^ 60"
    and "in_view info (10 + 10 * length evs)"
  shows "cursor_ok info (terminal_run fb_ptr info evs (terminal_init fb_ptr info m)) \<and>
    (\<forall>a. fb_size info \<le> a - fb_ptr \<longrightarrow>
       fb_mem (terminal_run fb_ptr info evs (terminal_init fb_ptr info m)) a = m a)"
proof -
  have "cursor_ok info (terminal_init fb_ptr info m)"
    using assms(1) by (simp add: cursor_ok_def terminal_init_def)
  moreover have "unat (cursor_y (terminal_init fb_ptr info m)) \<le> 10" by (simp add: terminal_init_def)
  moreover have "fb_mem (terminal_init fb_ptr info m) a = m a" if "fb_size info \<le> a - fb_ptr" for a
    using that by (simp add: terminal_init_def write_bytes_def not_less [symmetric])
  ultimately show ?thesis using terminal_run_ok [OF _ assms(1,2) _ assms(3)] by simp
qed

definition vga :: framebuffer_info where
  "vga = \<lparr>physical_address = 0xFD000000, fb_width = 640, fb_height = 480, fb_pitch = 2560, fb_bpp = 32,
     fb_size = 0x12C000\<rparr>"

definition press :: "u64 \<Rightarrow> u64 \<times> message \<times> u64" where
  "press key = (0, to_message \<lparr>ev_key = key, ev_pressed = 1, ev_modifiers = 0\<rparr> 5, 9)"

theorem terminal_confined_witness:
  "cursor_ok vga (terminal_run 0x83000000 vga [press 0x41, press 8, press 10] (terminal_init 0x83000000 vga (\<lambda>_. 7))) \<and>
   fb_mem (terminal_run 0x83000000 vga [press 0x41, press 8, press 10] (terminal_init 0x83000000 vga (\<lambda>_. 7)))
     0x8312C000 = 7"
proof -
  have "in_view vga (10 + 10 * length [press 0x41, press 8, press 10])"
    by (simp add: in_view_def bytes_per_pixel_def vga_def)
  moreover have "18 \<le> unat (fb_width vga)" "unat (fb_width vga) < 2 ^ 60" by (simp_all add: vga_def)
  moreover have "fb_size vga \<le> 0x8312C000 - 0x83000000" by (simp add: vga_def)
  ultimately show ?thesis using terminal_confined by blast
qed

text \<open>
  The bounds check counts \<open>bpp / 8\<close> bytes but the store is always four bytes wide: with 24 bits per
  pixel the last pixel overwrites the byte behind the framebuffer.
\<close>

lemma draw_char_overruns:
  "draw_char 0x1000 \<lparr>physical_address = 0, fb_width = 8, fb_height = 8, fb_pitch = 24, fb_bpp = 24, fb_size = 192\<rparr>
     0 0 0x41 (\<lambda>_. 7) (0x1000 + 192) = 0"
  by code_simp

section \<open>From the keyboard to the screen\<close>

text \<open>The scan codes of a key: make and break code, with the left shift key around a capital letter.\<close>

definition code_of :: "u8 \<Rightarrow> u8" where
  "code_of c =
     (if c = 0x20 then 0x39 else if c = 0x30 then 0x0B
      else if 0x31 \<le> c \<and> c \<le> 0x39 then c - 0x2F
      else case find (\<lambda>(code, upper, lower). c = upper \<or> c = lower) letter_keys of
             Some (code, _) \<Rightarrow> code
           | None \<Rightarrow> 0)"

definition is_upper :: "u8 \<Rightarrow> bool" where
  "is_upper c \<longleftrightarrow> 0x41 \<le> c \<and> c \<le> 0x5A"

definition type_char :: "u8 \<Rightarrow> u8 list" where
  "type_char c =
     (if is_upper c then [0x2A, code_of c, code_of c OR 0x80, 0xAA] else [code_of c, code_of c OR 0x80])"

definition text_chars :: "u8 list" where
  "text_chars = 0x20 # map (\<lambda>n. 0x30 + of_nat n) [0..<10] @ map (\<lambda>n. 0x41 + of_nat n) [0..<26] @
     map (\<lambda>n. 0x61 + of_nat n) [0..<26]"

definition is_make :: "u8 \<Rightarrow> bool" where
  "is_make code \<longleftrightarrow> code AND 0x80 = 0 \<and> code AND 0x7F = code \<and> code \<noteq> 0x2A \<and> code \<noteq> 0x36 \<and>
     code OR 0x80 \<noteq> 0xE0 \<and> code \<noteq> 0xE0 \<and> (code OR 0x80) AND 0x80 \<noteq> 0 \<and> (code OR 0x80) AND 0x7F = code"

lemma text_chars_codes:
  "\<forall>c\<in>set text_chars. is_make (code_of c) \<and> key_of_code (is_upper c) (code_of c) = ucast c \<and> (ucast c :: u64) \<noteq> 0"
  by code_simp

definition key_message :: "u8 \<Rightarrow> u64 \<Rightarrow> message" where
  "key_message c tsc = to_message \<lparr>ev_key = ucast c, ev_pressed = 1, ev_modifiers = (if is_upper c then 1 else 0)\<rparr> tsc"

lemma keyboard_run_char:
  assumes "c \<in> set text_chars" and "map snd scans = type_char c"
  shows "\<exists>tsc. keyboard_run False (scans @ rest) =
    (fst (keyboard_run False rest), key_message c tsc # snd (keyboard_run False rest))"
proof -
  have c: "is_make (code_of c)" "key_of_code (is_upper c) (code_of c) = ucast c" "(ucast c :: u64) \<noteq> 0"
    using assms(1) text_chars_codes by auto
  have make: "keyboard_step (is_upper c) tsc (code_of c) = (is_upper c, Some (key_message c tsc))" for tsc
    using c unfolding keyboard_step_def key_message_def by (simp add: is_make_def Let_def)
  have break: "keyboard_step b tsc (code_of c OR 0x80) = (b, None)" for b tsc
    using c(1) unfolding keyboard_step_def by (simp add: is_make_def Let_def)
  have shift: "keyboard_step b tsc 0x2A = (True, None)" "keyboard_step b tsc 0xAA = (False, None)" for b tsc
    by (simp_all add: keyboard_step_def Let_def)
  show ?thesis
  proof (cases "is_upper c")
    case True
    with assms(2) obtain t1 t2 t3 t4 where "scans = [(t1, 0x2A), (t2, code_of c), (t3, code_of c OR 0x80), (t4, 0xAA)]"
      by (auto simp: type_char_def map_eq_Cons_conv)
    then show ?thesis using make break True by (auto simp: shift split_def Let_def)
  next
    case False
    with assms(2) obtain t1 t2 where "scans = [(t1, code_of c), (t2, code_of c OR 0x80)]"
      by (auto simp: type_char_def map_eq_Cons_conv)
    then show ?thesis using make break False by (auto simp: split_def Let_def)
  qed
qed

lemma terminal_run_key_message:
  "terminal_run fb_ptr info ((0, key_message c tsc, now) # evs) t =
     terminal_run fb_ptr info evs (terminal_key fb_ptr info (ucast c) t)"
  by (simp add: terminal_run_def terminal_step_def key_message_def)



end
