(* ===== verification/Storage.thy ===== *)
theory Storage
  imports Userspace
begin

text \<open>
  The storage stack: the ATA driver (\<^verbatim>\<open>bin/ata_service.rs\<close>), the file service on top of it
  (\<^verbatim>\<open>bin/fat16_service.rs\<close>) and its client (\<^verbatim>\<open>bin/storage_test.rs\<close>). The three share one page of
  memory and call each other by sending a message and receiving the reply on the same endpoint;
  \<open>call_server\<close> is such an exchange in the order in which the client waits before the server replies.
  The drive is hardware: it is the parameter \<open>bus\<close>, constrained by the register protocol of the ATA
  standard. The driver polls the drive, so its functions return \<open>None\<close> when the drive never
  becomes ready.
\<close>

section \<open>The ATA driver\<close>

partial_function (option) ata_wait_ready :: "'d bus \<Rightarrow> 'd \<Rightarrow> 'd option" where
  "ata_wait_ready b d =
     (let (s, d1) = bus_in b 0x1F7 1 d; status = ucast s :: u8
      in if status AND 0x80 = 0 \<and> status AND 0x40 \<noteq> 0 then Some d1 else ata_wait_ready b d1)"

definition ata_command :: "'d bus \<Rightarrow> u32 \<Rightarrow> u32 \<Rightarrow> 'd \<Rightarrow> 'd" where
  "ata_command b lba cmd d =
     (let d = bus_out b 0x1F6 1 (0xE0 OR (drop_bit 24 lba AND 0x0F)) d;
          d = bus_out b 0x1F2 1 1 d;
          d = bus_out b 0x1F3 1 (lba AND 0xFF) d;
          d = bus_out b 0x1F4 1 (drop_bit 8 lba AND 0xFF) d;
          d = bus_out b 0x1F5 1 (drop_bit 16 lba AND 0xFF) d
      in bus_out b 0x1F7 1 cmd d)"

fun read_words :: "'d bus \<Rightarrow> nat \<Rightarrow> 'd \<Rightarrow> bytes \<times> 'd" where
  "read_words b 0 d = ([], d)"
| "read_words b (Suc n) d =
     (let (v, d1) = bus_in b 0x1F0 2 d; word = ucast v :: u16; (rest, d2) = read_words b n d1
      in (ucast (word AND 0xFF) # ucast (drop_bit 8 word) # rest, d2))"

fun write_words :: "'d bus \<Rightarrow> bytes \<Rightarrow> 'd \<Rightarrow> 'd" where
  "write_words b (x # y # rest) d =
     (let word = ucast x OR push_bit 8 (ucast y) :: u16
      in write_words b rest (bus_out b 0x1F0 2 (ucast word) d))"
| "write_words b _ d = d"

definition ata_read_sector :: "'d bus \<Rightarrow> u32 \<Rightarrow> 'd \<Rightarrow> (bytes \<times> 'd) option" where
  "ata_read_sector b lba d =
     (case ata_wait_ready b d of
        None \<Rightarrow> None
      | Some d1 \<Rightarrow> Some (read_words b 256 (bus_wait_irq b (ata_command b lba 0x20 d1))))"

definition ata_write_sector :: "'d bus \<Rightarrow> u32 \<Rightarrow> bytes \<Rightarrow> 'd \<Rightarrow> 'd option" where
  "ata_write_sector b lba buf d =
     (case ata_wait_ready b d of
        None \<Rightarrow> None
      | Some d1 \<Rightarrow>
          (case ata_wait_ready b (ata_command b lba 0x30 d1) of
             None \<Rightarrow> None
           | Some d2 \<Rightarrow> Some (bus_wait_irq b (write_words b buf d2))))"

definition ata_flush :: "'d bus \<Rightarrow> 'd \<Rightarrow> 'd option" where
  "ata_flush b d =
     (case ata_wait_ready b d of
        None \<Rightarrow> None
      | Some d1 \<Rightarrow> Some (bus_wait_irq b (bus_out b 0x1F7 1 0xE7 d1)))"

text \<open>
  One round of the service: the request, the shared page and the drive before; the reply, the page
  and the drive after. \<open>None\<close> is a drive that never answers, \<open>Inl\<close> a panic of the service.
\<close>

type_synonym 's server = "message \<Rightarrow> 's \<Rightarrow> (panic + message \<times> 's) option"

definition MSG_BLOCK_READ :: u64 where "MSG_BLOCK_READ = 1"
definition MSG_BLOCK_WRITE :: u64 where "MSG_BLOCK_WRITE = 2"
definition MSG_BLOCK_FLUSH :: u64 where "MSG_BLOCK_FLUSH = 3"

definition ata_serve :: "'d bus \<Rightarrow> (bytes \<times> 'd) server" where
  "ata_serve b msg = (\<lambda>(shm, d).
     let cmd = msg_rdi msg; lba = ucast (msg_rsi msg) :: u32; offset = msg_rdx msg; off = unat offset
     in if 4096 < offset + 512 then Some (Inr (msg\<lparr>msg_rdi := 1\<rparr>, shm, d))
        else if 20480 \<le> lba then Some (Inr (msg\<lparr>msg_rdi := 1\<rparr>, shm, d))
        else if cmd = MSG_BLOCK_READ
        then (if offset + 512 < offset then Some (Inl Index_Out_Of_Bounds)
              else case ata_read_sector b lba d of
                     None \<Rightarrow> None
                   | Some (bs, d1) \<Rightarrow> Some (Inr (msg\<lparr>msg_rdi := 0\<rparr>, put_at shm off bs, d1)))
        else if cmd = MSG_BLOCK_WRITE
        then (if offset + 512 < offset then Some (Inl Index_Out_Of_Bounds)
              else case ata_write_sector b lba (slice shm off 512) d of
                     None \<Rightarrow> None
                   | Some d1 \<Rightarrow> Some (Inr (msg\<lparr>msg_rdi := 0\<rparr>, shm, d1)))
        else if cmd = MSG_BLOCK_FLUSH
        then (case ata_flush b d of None \<Rightarrow> None | Some d1 \<Rightarrow> Some (Inr (msg\<lparr>msg_rdi := 0\<rparr>, shm, d1)))
        else Some (Inr (msg\<lparr>msg_rdi := 1\<rparr>, shm, d)))"

section \<open>The file service\<close>

definition VFS_READ :: u64 where "VFS_READ = 11"
definition VFS_WRITE :: u64 where "VFS_WRITE = 12"

definition call_server :: "'s server \<Rightarrow> message \<Rightarrow> 's \<Rightarrow> (message \<Rightarrow> 's \<Rightarrow> (panic + 'r) option) \<Rightarrow> (panic + 'r) option" where
  "call_server serve msg s k =
     (case serve msg s of
        None \<Rightarrow> None
      | Some (Inl p) \<Rightarrow> Some (Inl p)
      | Some (Inr (reply, s1)) \<Rightarrow> k reply s1)"

definition block_message :: "u64 \<Rightarrow> u32 \<Rightarrow> u64 \<Rightarrow> message" where
  "block_message cmd lba offset =
     \<lparr>msg_rdi = cmd, msg_rsi = ucast lba, msg_rdx = offset, msg_r10 = 0, msg_r8 = 0, msg_r9 = 0\<rparr>"

definition read_sector :: "'s server \<Rightarrow> u32 \<Rightarrow> u64 \<Rightarrow> 's \<Rightarrow> (panic + bool \<times> 's) option" where
  "read_sector serve lba offset s =
     call_server serve (block_message MSG_BLOCK_READ lba offset) s (\<lambda>reply s1. Some (Inr (msg_rdi reply = 0, s1)))"

definition write_sector :: "'s server \<Rightarrow> u32 \<Rightarrow> u64 \<Rightarrow> 's \<Rightarrow> (panic + bool \<times> 's) option" where
  "write_sector serve lba offset s =
     call_server serve (block_message MSG_BLOCK_WRITE lba offset) s (\<lambda>reply s1. Some (Inr (msg_rdi reply = 0, s1)))"

definition fat16_serve :: "'s server \<Rightarrow> 's server" where
  "fat16_serve ata msg s =
     (let cmd = msg_rdi msg
      in if cmd = VFS_WRITE
         then (case write_sector ata 2000 0 s of
                 None \<Rightarrow> None
               | Some (Inl p) \<Rightarrow> Some (Inl p)
               | Some (Inr (_, s1)) \<Rightarrow> Some (Inr (msg\<lparr>msg_rdi := 0\<rparr>, s1)))
         else if cmd = VFS_READ
         then (case read_sector ata 2000 0 s of
                 None \<Rightarrow> None
               | Some (Inl p) \<Rightarrow> Some (Inl p)
               | Some (Inr (_, s1)) \<Rightarrow> Some (Inr (msg\<lparr>msg_rdi := 0\<rparr>, s1)))
         else Some (Inr (msg\<lparr>msg_rdi := 1\<rparr>, s)))"

section \<open>The client\<close>

definition signature :: bytes where
  "signature =
     [0x45, 0x4C, 0x53, 0x45, 0x5F, 0x50, 0x45, 0x52, 0x53, 0x49, 0x53, 0x54, 0x45, 0x4E, 0x43, 0x45,
      0x5F, 0x54, 0x45, 0x53, 0x54, 0x5F, 0x76, 0x31]"

datatype test_result = Write_Failed | Read_Failed | Signature_Mismatch | Persistence_Verified

definition storage_test :: "(bytes \<times> 'd) server \<Rightarrow> bytes \<times> 'd \<Rightarrow> (panic + test_result \<times> bytes \<times> 'd) option" where
  "storage_test vfs = (\<lambda>(shm, d).
     let msg = \<lparr>msg_rdi = VFS_WRITE, msg_rsi = 0, msg_rdx = 0, msg_r10 = 0, msg_r8 = 0, msg_r9 = 0\<rparr>
     in call_server vfs msg (put_at shm 0 signature, d) (\<lambda>msg s.
          if msg_rdi msg \<noteq> 0 then Some (Inr (Write_Failed, s))
          else
            case s of (shm, d) \<Rightarrow>
            call_server vfs (msg\<lparr>msg_rdi := VFS_READ\<rparr>) (put_at shm 0 (replicate 512 0), d) (\<lambda>msg s.
              if msg_rdi msg \<noteq> 0 then Some (Inr (Read_Failed, s))
              else if slice (fst s) 0 (length signature) = signature then Some (Inr (Persistence_Verified, s))
              else Some (Inr (Signature_Mismatch, s)))))"

section \<open>The drive\<close>

text \<open>
  What the driver relies on: the task-file registers, and a transfer of one sector in either
  direction. \<open>view\<close> reads this much of the unknown state of the drive.
\<close>

datatype ata_transfer = No_Data | Data_In bytes | Data_Out bytes

record ata_regs =
  r_drive :: u8
  r_count :: u8
  r_low :: u8
  r_mid :: u8
  r_high :: u8
  transfer :: ata_transfer
  disk :: "u32 \<Rightarrow> bytes"

definition lba28 :: "ata_regs \<Rightarrow> u32" where
  "lba28 r = ucast (r_low r) OR push_bit 8 (ucast (r_mid r)) OR push_bit 16 (ucast (r_high r)) OR
     push_bit 24 (ucast (r_drive r AND 0x0F))"

definition accept_word :: "u32 \<Rightarrow> bytes \<Rightarrow> ata_regs \<Rightarrow> ata_regs" where
  "accept_word v bs r =
     (let bs' = bs @ [ucast v, ucast (drop_bit 8 v)]
      in if length bs' < 512 then r\<lparr>transfer := Data_Out bs'\<rparr>
         else r\<lparr>transfer := No_Data, disk := (disk r)(lba28 r := bs')\<rparr>)"

fun becomes_ready :: "'d bus \<Rightarrow> nat \<Rightarrow> 'd \<Rightarrow> bool" where
  "becomes_ready b n d \<longleftrightarrow>
     (let (s, d1) = bus_in b 0x1F7 1 d
      in (ucast s :: u8) AND 0x80 = 0 \<and> (ucast s :: u8) AND 0x40 \<noteq> 0 \<or>
         (case n of 0 \<Rightarrow> False | Suc m \<Rightarrow> becomes_ready b m d1))"

declare becomes_ready.simps [simp del]

definition ata_protocol :: "'d bus \<Rightarrow> ('d \<Rightarrow> ata_regs) \<Rightarrow> bool" where
  "ata_protocol b view \<longleftrightarrow>
     (\<forall>d. (\<exists>n. becomes_ready b n d) \<and> view (snd (bus_in b 0x1F7 1 d)) = view d \<and> view (bus_wait_irq b d) = view d \<and>
        view (bus_out b 0x1F7 1 0xE7 d) = view d) \<and>
     (\<forall>d v. view (bus_out b 0x1F6 1 v d) = (view d)\<lparr>r_drive := ucast v\<rparr> \<and>
        view (bus_out b 0x1F2 1 v d) = (view d)\<lparr>r_count := ucast v\<rparr> \<and>
        view (bus_out b 0x1F3 1 v d) = (view d)\<lparr>r_low := ucast v\<rparr> \<and>
        view (bus_out b 0x1F4 1 v d) = (view d)\<lparr>r_mid := ucast v\<rparr> \<and>
        view (bus_out b 0x1F5 1 v d) = (view d)\<lparr>r_high := ucast v\<rparr>) \<and>
     (\<forall>d. r_count (view d) = 1 \<longrightarrow>
        view (bus_out b 0x1F7 1 0x20 d) = (view d)\<lparr>transfer := Data_In (disk (view d) (lba28 (view d)))\<rparr> \<and>
        view (bus_out b 0x1F7 1 0x30 d) = (view d)\<lparr>transfer := Data_Out []\<rparr>) \<and>
     (\<forall>d x y bs. transfer (view d) = Data_In (x # y # bs) \<longrightarrow>
        ucast (fst (bus_in b 0x1F0 2 d)) = (ucast x OR push_bit 8 (ucast y) :: u16) \<and>
        view (snd (bus_in b 0x1F0 2 d)) = (view d)\<lparr>transfer := Data_In bs\<rparr>) \<and>
     (\<forall>d v bs. transfer (view d) = Data_Out bs \<longrightarrow> view (bus_out b 0x1F0 2 v d) = accept_word v bs (view d))"

section \<open>The transfers\<close>

lemma ata_protocolD:
  assumes "ata_protocol b view"
  shows "\<exists>n. becomes_ready b n d" and "view (snd (bus_in b 0x1F7 1 d)) = view d"
    and "view (bus_wait_irq b d) = view d" and "view (bus_out b 0x1F7 1 0xE7 d) = view d"
    and "view (bus_out b 0x1F6 1 v d) = (view d)\<lparr>r_drive := ucast v\<rparr>"
    and "view (bus_out b 0x1F2 1 v d) = (view d)\<lparr>r_count := ucast v\<rparr>"
    and "view (bus_out b 0x1F3 1 v d) = (view d)\<lparr>r_low := ucast v\<rparr>"
    and "view (bus_out b 0x1F4 1 v d) = (view d)\<lparr>r_mid := ucast v\<rparr>"
    and "view (bus_out b 0x1F5 1 v d) = (view d)\<lparr>r_high := ucast v\<rparr>"
    and "r_count (view d) = 1 \<Longrightarrow>
      view (bus_out b 0x1F7 1 0x20 d) = (view d)\<lparr>transfer := Data_In (disk (view d) (lba28 (view d)))\<rparr>"
    and "r_count (view d) = 1 \<Longrightarrow> view (bus_out b 0x1F7 1 0x30 d) = (view d)\<lparr>transfer := Data_Out []\<rparr>"
    and "transfer (view d) = Data_In (x # y # bs) \<Longrightarrow>
      ucast (fst (bus_in b 0x1F0 2 d)) = (ucast x OR push_bit 8 (ucast y) :: u16)"
    and "transfer (view d) = Data_In (x # y # bs) \<Longrightarrow>
      view (snd (bus_in b 0x1F0 2 d)) = (view d)\<lparr>transfer := Data_In bs\<rparr>"
    and "transfer (view d) = Data_Out bs \<Longrightarrow> view (bus_out b 0x1F0 2 v d) = accept_word v bs (view d)"
  using assms unfolding ata_protocol_def by blast+

lemma ata_wait_ready_returns:
  assumes p: "ata_protocol b view"
  obtains d' where "ata_wait_ready b d = Some d'" "view d' = view d"
proof -
  from ata_protocolD(1) [OF p] obtain n where "becomes_ready b n d" by blast
  then have "\<exists>d'. ata_wait_ready b d = Some d' \<and> view d' = view d"
  proof (induction n arbitrary: d)
    case 0
    then show ?case using ata_protocolD(2) [OF p]
      by (subst ata_wait_ready.simps) (auto simp: becomes_ready.simps split_def Let_def)
  next
    case (Suc n)
    let ?d1 = "snd (bus_in b 0x1F7 1 d)"
    have v: "view ?d1 = view d" by (rule ata_protocolD(2) [OF p])
    show ?case
    proof (cases "becomes_ready b n ?d1")
      case True
      from Suc.IH [OF this] v show ?thesis by (subst ata_wait_ready.simps) (auto simp: split_def Let_def)
    next
      case False
      then show ?thesis using Suc.prems v
        by (subst ata_wait_ready.simps) (simp add: becomes_ready.simps [of b "Suc n"] split_def Let_def)
    qed
  qed
  with that show thesis by blast
qed

lemma split_word:
  "ucast ((ucast x OR push_bit 8 (ucast y) :: u16) AND 0xFF) = (x :: u8)"
  "ucast (drop_bit 8 (ucast x OR push_bit 8 (ucast y) :: u16)) = (y :: u8)"
proof -
  have m: "(0xFF :: u16) = mask 8" by (simp add: mask_eq_exp_minus_1)
  show "ucast ((ucast x OR push_bit 8 (ucast y) :: u16) AND 0xFF) = x" unfolding m
    by (rule bit_word_eqI) (auto simp: bit_simps)
  show "ucast (drop_bit 8 (ucast x OR push_bit 8 (ucast y) :: u16)) = y"
    by (rule bit_word_eqI) (auto simp: bit_simps dest: bit_imp_le_length)
qed

lemma join_word:
  "ucast (ucast (ucast x OR push_bit 8 (ucast y) :: u16) :: u32) = (x :: u8)"
  "ucast (drop_bit 8 (ucast (ucast x OR push_bit 8 (ucast y) :: u16) :: u32)) = (y :: u8)"
  by (rule bit_word_eqI, auto simp: bit_simps dest: bit_imp_le_length)+

lemma read_words_all:
  assumes p: "ata_protocol b view" and "transfer (view d) = Data_In bs" and "length bs = 2 * n"
  shows "fst (read_words b n d) = bs \<and> disk (view (snd (read_words b n d))) = disk (view d)"
  using assms(2,3)
proof (induction n arbitrary: d bs)
  case (Suc n)
  then obtain x y rest where bs: "bs = x # y # rest" "length rest = 2 * n"
    by (cases bs rule: remdups_adj.cases) auto
  let ?d1 = "snd (bus_in b 0x1F0 2 d)"
  define w where "w = (ucast (fst (bus_in b 0x1F0 2 d)) :: u16)"
  have "w = ucast x OR push_bit 8 (ucast y)" unfolding w_def
    by (rule ata_protocolD(12) [OF p]) (simp add: Suc.prems(1) bs(1))
  then have w: "ucast (w AND 0xFF) = x" "ucast (drop_bit 8 w) = y" by (simp_all only: split_word)
  have v: "view ?d1 = (view d)\<lparr>transfer := Data_In rest\<rparr>"
    by (rule ata_protocolD(13) [OF p]) (simp add: Suc.prems(1) bs(1))
  then have "transfer (view ?d1) = Data_In rest" by simp
  from Suc.IH [OF this bs(2)] v w show ?case
    by (simp add: Let_def split_def w_def [symmetric] bs(1))
qed simp

lemma write_words_all:
  assumes p: "ata_protocol b view" and "transfer (view d) = Data_Out acc" and "bs \<noteq> []" and "even (length bs)"
    and "length acc + length bs = 512"
  shows "disk (view (write_words b bs d)) = (disk (view d))(lba28 (view d) := acc @ bs)"
  using assms(2-)
proof (induction bs arbitrary: acc d rule: induct_list012)
  case (3 x y rest)
  define w where "w = (ucast (ucast x OR push_bit 8 (ucast y) :: u16) :: u32)"
  let ?d1 = "bus_out b 0x1F0 2 w d"
  have "ucast w = x" "ucast (drop_bit 8 w) = y" by (simp_all only: w_def join_word)
  then have v: "view ?d1 = (if length acc + 2 < 512 then (view d)\<lparr>transfer := Data_Out (acc @ [x, y])\<rparr>
      else (view d)\<lparr>transfer := No_Data, disk := (disk (view d))(lba28 (view d) := acc @ [x, y])\<rparr>)"
    using ata_protocolD(14) [OF p "3.prems"(1), of w] by (simp add: accept_word_def Let_def)
  have run: "write_words b (x # y # rest) d = write_words b rest ?d1"
    by (simp add: w_def)
  show ?case
  proof (cases "rest = []")
    case True
    then show ?thesis using v "3.prems" unfolding run by simp
  next
    case False
    then have r: "transfer (view ?d1) = Data_Out (acc @ [x, y])" "lba28 (view ?d1) = lba28 (view d)"
      "disk (view ?d1) = disk (view d)"
      using v "3.prems" by (auto simp: lba28_def neq_Nil_conv)
    from "3.IH"(1) [OF r(1) False] r(2,3) "3.prems" show ?thesis unfolding run by simp
  qed
qed auto

text \<open>The five register writes select exactly the requested sector.\<close>

lemma lba28_select:
  assumes "lba < 2 ^ 28"
  shows "lba28 \<lparr>r_drive = ucast (0xE0 OR (drop_bit 24 lba AND 0x0F)), r_count = c, r_low = ucast (lba AND 0xFF),
    r_mid = ucast (drop_bit 8 lba AND 0xFF), r_high = ucast (drop_bit 16 lba AND 0xFF), transfer = t, disk = f\<rparr> = lba"
proof -
  have m: "(0xFF :: u32) = mask 8" "(0x0F :: u32) = mask 4" "(0x0F :: u8) = mask 4"
    by (simp_all add: mask_eq_exp_minus_1)
  have "take_bit 28 lba = lba" 
    using assms by (simp add: take_bit_eq_mod word_unat_eq_iff unat_mod word_less_nat_alt)
  then have hi: "\<not> bit lba n" if "28 \<le> n" for n using that by (metis bit_take_bit_iff not_le)
  have "\<forall>n\<in>set [0..<4]. \<not> bit (0xE0 :: int) n" by code_simp
  then have e: "bit (0xE0 :: int) n \<Longrightarrow> \<not> n < 4" for n by auto
  show ?thesis
    unfolding lba28_def ata_regs.simps
  proof (rule bit_word_eqI)
    fix n assume "n < LENGTH(32)"
    then consider "n < 8" | "8 \<le> n" "n < 16" | "16 \<le> n" "n < 24" | "24 \<le> n" "n < 28" | "28 \<le> n" "n < 32" by force
    then show "bit (ucast (ucast (lba AND 0xFF) :: u8) OR push_bit 8 (ucast (ucast (drop_bit 8 lba AND 0xFF) :: u8)) OR
        push_bit 16 (ucast (ucast (drop_bit 16 lba AND 0xFF) :: u8)) OR
        push_bit 24 (ucast (ucast (0xE0 OR (drop_bit 24 lba AND 0x0F)) AND 0x0F :: u8)) :: u32) n = bit lba n"
      by cases (auto simp: bit_simps hi m(1-3) dest: e)
  qed
qed

lemma ata_command_regs:
  assumes p: "ata_protocol b view" and lba: "lba < 2 ^ 28"
  shows "transfer (view (ata_command b lba 0x20 d)) = Data_In (disk (view d) lba)"
    and "disk (view (ata_command b lba 0x20 d)) = disk (view d)"
    and "transfer (view (ata_command b lba 0x30 d)) = Data_Out []"
    and "lba28 (view (ata_command b lba 0x30 d)) = lba"
    and "disk (view (ata_command b lba 0x30 d)) = disk (view d)"
proof -
  note D = ata_protocolD [OF p]
  define R where "R = (view d)\<lparr>r_drive := ucast (0xE0 OR (drop_bit 24 lba AND 0x0F)), r_count := 1,
      r_low := ucast (lba AND 0xFF), r_mid := ucast (drop_bit 8 lba AND 0xFF),
      r_high := ucast (drop_bit 16 lba AND 0xFF)\<rparr>"
  define d5 where "d5 = bus_out b 0x1F5 1 (drop_bit 16 lba AND 0xFF) (bus_out b 0x1F4 1 (drop_bit 8 lba AND 0xFF)
      (bus_out b 0x1F3 1 (lba AND 0xFF) (bus_out b 0x1F2 1 1
      (bus_out b 0x1F6 1 (0xE0 OR (drop_bit 24 lba AND 0x0F)) d))))"
  have sel: "lba28 R = lba"
    using lba28_select [OF lba, of 1 "transfer (view d)" "disk (view d)"] unfolding R_def
    by (cases "view d") (simp only: lba28_def ata_regs.select_convs ata_regs.update_convs)
  have R: "r_count R = 1" "disk R = disk (view d)" by (simp_all add: R_def)
  have v: "view d5 = R" unfolding d5_def R_def by (simp only: D(5-9)) simp
  have cmd: "ata_command b lba c d = bus_out b 0x1F7 1 c d5" for c by (simp add: ata_command_def d5_def)
  have "view (ata_command b lba 0x20 d) = R\<lparr>transfer := Data_In (disk R (lba28 R))\<rparr>"
    "view (ata_command b lba 0x30 d) = R\<lparr>transfer := Data_Out []\<rparr>"
    using D(10,11) [of d5] R(1) unfolding cmd v by blast+
  then show "transfer (view (ata_command b lba 0x20 d)) = Data_In (disk (view d) lba)"
    "disk (view (ata_command b lba 0x20 d)) = disk (view d)"
    "transfer (view (ata_command b lba 0x30 d)) = Data_Out []" "lba28 (view (ata_command b lba 0x30 d)) = lba"
    "disk (view (ata_command b lba 0x30 d)) = disk (view d)"
    using sel R(2) by (simp_all add: lba28_def)
qed

lemma ata_read_sector_reads:
  assumes p: "ata_protocol b view" and lba: "lba < 2 ^ 28" and len: "length (disk (view d) lba) = 512"
  obtains d' where "ata_read_sector b lba d = Some (disk (view d) lba, d')" "disk (view d') = disk (view d)"
proof -
  obtain d1 where d1: "ata_wait_ready b d = Some d1" "view d1 = view d" by (rule ata_wait_ready_returns [OF p])
  let ?d2 = "bus_wait_irq b (ata_command b lba 0x20 d1)"
  have v: "transfer (view ?d2) = Data_In (disk (view d) lba)" "disk (view ?d2) = disk (view d)"
    by (simp_all add: ata_protocolD(3) [OF p] ata_command_regs(1,2) [OF p lba] d1(2))
  from read_words_all [OF p v(1), of 256] len v(2) have
    "fst (read_words b 256 ?d2) = disk (view d) lba" "disk (view (snd (read_words b 256 ?d2))) = disk (view d)" by simp_all
  with d1(1) that [of "snd (read_words b 256 ?d2)"] show thesis
    by (simp add: ata_read_sector_def prod_eq_iff)
qed

lemma ata_write_sector_writes:
  assumes p: "ata_protocol b view" and lba: "lba < 2 ^ 28" and len: "length buf = 512"
  obtains d' where "ata_write_sector b lba buf d = Some d'" "disk (view d') = (disk (view d))(lba := buf)"
proof -
  obtain d1 where d1: "ata_wait_ready b d = Some d1" "view d1 = view d" by (rule ata_wait_ready_returns [OF p])
  obtain d2 where d2: "ata_wait_ready b (ata_command b lba 0x30 d1) = Some d2"
    "view d2 = view (ata_command b lba 0x30 d1)" by (rule ata_wait_ready_returns [OF p])
  have t: "transfer (view d2) = Data_Out []" by (simp only: d2(2) ata_command_regs(3) [OF p lba])
  have b: "buf \<noteq> []" "even (length buf)" "length ([] :: bytes) + length buf = 512" using len by auto
  have "disk (view (write_words b buf d2)) = (disk (view d))(lba := buf)"
    using write_words_all [OF p t b] by (simp add: d2(2) ata_command_regs(4,5) [OF p lba] d1(2))
  with d1(1) d2(1) that [of "bus_wait_irq b (write_words b buf d2)"] show thesis
    by (simp add: ata_write_sector_def ata_protocolD(3) [OF p])
qed

section \<open>The driver refines a block store\<close>

text \<open>The contract of the driver, on an array of sectors.\<close>

definition block_spec :: "message \<Rightarrow> bytes \<Rightarrow> (u32 \<Rightarrow> bytes) \<Rightarrow> message \<times> bytes \<times> (u32 \<Rightarrow> bytes)" where
  "block_spec msg shm sectors =
     (let lba = ucast (msg_rsi msg) :: u32; off = unat (msg_rdx msg)
      in if 4096 < off + 512 \<or> 20480 \<le> lba then (msg\<lparr>msg_rdi := 1\<rparr>, shm, sectors)
         else if msg_rdi msg = MSG_BLOCK_READ then (msg\<lparr>msg_rdi := 0\<rparr>, put_at shm off (sectors lba), sectors)
         else if msg_rdi msg = MSG_BLOCK_WRITE then (msg\<lparr>msg_rdi := 0\<rparr>, shm, sectors(lba := slice shm off 512))
         else if msg_rdi msg = MSG_BLOCK_FLUSH then (msg\<lparr>msg_rdi := 0\<rparr>, shm, sectors)
         else (msg\<lparr>msg_rdi := 1\<rparr>, shm, sectors))"

lemma ata_serve_refines:
  assumes p: "ata_protocol b view" and shm: "length shm = 4096" and sec: "\<forall>lba. length (disk (view d) lba) = 512"
    and off: "unat (msg_rdx msg) + 512 < 2 ^ 64" and spec: "block_spec msg shm (disk (view d)) = (reply, shm', sectors')"
  obtains d' where "ata_serve b msg (shm, d) = Some (Inr (reply, shm', d'))" "disk (view d') = sectors'"
proof -
  let ?lba = "ucast (msg_rsi msg) :: u32" and ?off = "unat (msg_rdx msg)"
  have o: "unat (msg_rdx msg + 512) = ?off + 512" using off by (subst unat_add_no_wrap) simp_all
  then have o': "4096 < msg_rdx msg + 512 \<longleftrightarrow> 4096 < ?off + 512" "\<not> msg_rdx msg + 512 < msg_rdx msg"
    by (simp_all add: word_less_nat_alt)
  note cmds = ata_serve_def block_spec_def Let_def MSG_BLOCK_READ_def MSG_BLOCK_WRITE_def MSG_BLOCK_FLUSH_def
  show thesis
  proof (cases "4096 < ?off + 512 \<or> 20480 \<le> ?lba")
    case True
    with spec o' that [of d] show thesis by (auto simp: ata_serve_def block_spec_def Let_def)
  next
    case False
    then have "?lba < 20480" by (simp add: not_le)
    then have lba: "?lba < 2 ^ 28" by (rule less_trans) simp
    obtain dr where r: "ata_read_sector b ?lba d = Some (disk (view d) ?lba, dr)" "disk (view dr) = disk (view d)"
      by (rule ata_read_sector_reads [OF p lba]) (use sec in blast)
    have sl: "length (slice shm ?off 512) = 512" using False shm by auto
    obtain dw where w: "ata_write_sector b ?lba (slice shm ?off 512) d = Some dw"
      "disk (view dw) = (disk (view d))(?lba := slice shm ?off 512)"
      using ata_write_sector_writes [OF p lba sl] by blast
    obtain df where f: "ata_wait_ready b d = Some df" "view df = view d" by (rule ata_wait_ready_returns [OF p])
    have in_range: "\<not> 4096 < msg_rdx msg + 512" "\<not> 3584 < ?off" "\<not> 20480 \<le> ?lba" using False o' by simp_all
    consider "msg_rdi msg = 1" | "msg_rdi msg = 2" | "msg_rdi msg = 3" | "msg_rdi msg \<notin> {1, 2, 3}" by blast
    then show thesis
    proof cases
      case 1
      show thesis by (rule that [of dr]) (use 1 spec r in \<open>auto simp: cmds in_range o'(2)\<close>)
    next
      case 2
      show thesis by (rule that [of dw]) (use 2 spec w in \<open>auto simp: cmds in_range o'(2)\<close>)
    next
      case 3
      show thesis
        by (rule that [of "bus_wait_irq b (bus_out b 0x1F7 1 0xE7 df)"])
          (use 3 spec f in \<open>auto simp: cmds in_range ata_flush_def ata_protocolD(3,4) [OF p]\<close>)
    next
      case 4
      show thesis by (rule that [of d]) (use 4 spec in \<open>auto simp: cmds in_range\<close>)
    qed
  qed
qed


text \<open>A drive that is always ready follows the protocol.\<close>

definition sample_drive :: "ata_regs bus" where
  "sample_drive =
     \<lparr>bus_in = (\<lambda>port sz r.
        if port = 0x1F0
        then (case transfer r of
                Data_In (x # y # bs) \<Rightarrow>
                  (ucast (ucast x OR push_bit 8 (ucast y) :: u16), r\<lparr>transfer := Data_In bs\<rparr>)
              | _ \<Rightarrow> (0, r))
        else (0x40, r)),
      bus_out = (\<lambda>port sz v r.
        if port = 0x1F6 then r\<lparr>r_drive := ucast v\<rparr>
        else if port = 0x1F2 then r\<lparr>r_count := ucast v\<rparr>
        else if port = 0x1F3 then r\<lparr>r_low := ucast v\<rparr>
        else if port = 0x1F4 then r\<lparr>r_mid := ucast v\<rparr>
        else if port = 0x1F5 then r\<lparr>r_high := ucast v\<rparr>
        else if port = 0x1F7
        then (if v = 0x20 then r\<lparr>transfer := Data_In (disk r (lba28 r))\<rparr>
              else if v = 0x30 then r\<lparr>transfer := Data_Out []\<rparr> else r)
        else (case transfer r of Data_Out bs \<Rightarrow> accept_word v bs r | _ \<Rightarrow> r)),
      bus_wait_irq = (\<lambda>r. r)\<rparr>"

definition blank_drive :: ata_regs where
  "blank_drive = \<lparr>r_drive = 0, r_count = 0, r_low = 0, r_mid = 0, r_high = 0, transfer = No_Data,
     disk = (\<lambda>_. replicate 512 0)\<rparr>"

lemma ucast_u16_u64: "ucast (ucast (w :: u16) :: u64) = w"
  by (rule bit_word_eqI) (auto simp: bit_simps)

lemma sample_drive_protocol: "ata_protocol sample_drive (\<lambda>r. r)"
proof -
  have "becomes_ready sample_drive 0 d" for d by (simp add: becomes_ready.simps sample_drive_def)
  then show ?thesis
    unfolding ata_protocol_def by (intro conjI allI impI) (auto simp: sample_drive_def ucast_u16_u64)
qed

lemma blank_drive_sectors: "length (disk blank_drive lba) = 512"
  by (simp only: blank_drive_def ata_regs.select_convs length_replicate)


text \<open>
  The bounds check adds 512 to the offset first, so an offset just below \<open>usize::MAX\<close> passes it and
  the slice expression panics: any client can stop the driver.
\<close>

lemma ata_offset_wrap_panics:
  assumes "2 ^ 64 \<le> unat (msg_rdx msg) + 512" and "ucast (msg_rsi msg) < (20480 :: u32)" and "msg_rdi msg \<in> {1, 2}"
  shows "ata_serve b msg (shm, d) = Some (Inl Index_Out_Of_Bounds)"
proof -
  have "unat (msg_rdx msg + 512) = (unat (msg_rdx msg) + 512) mod 2 ^ 64" by (simp add: unat_word_ariths)
  also have "\<dots> = unat (msg_rdx msg) + 512 - 2 ^ 64"
    using le_mod_geq [OF assms(1)] unat_lt_2p64 [of "msg_rdx msg"] by simp
  finally have "\<not> 4096 < msg_rdx msg + 512" "msg_rdx msg + 512 < msg_rdx msg"
    using assms(1) unat_lt_2p64 [of "msg_rdx msg"] by (simp_all add: word_less_nat_alt del: unat_lt_2p64)
  with assms(2,3) show ?thesis
    by (auto simp: ata_serve_def Let_def not_le MSG_BLOCK_READ_def MSG_BLOCK_WRITE_def)
qed

section \<open>The whole stack\<close>

text \<open>The file service answers success whatever the driver answered.\<close>

lemma fat16_ignores_errors:
  assumes "ata (block_message MSG_BLOCK_WRITE 2000 0) s = Some (Inr (reply, s1))"
  shows "fat16_serve ata (msg\<lparr>msg_rdi := VFS_WRITE\<rparr>) s = Some (Inr (msg\<lparr>msg_rdi := 0\<rparr>, s1))"
  using assms by (simp add: fat16_serve_def write_sector_def call_server_def)



end
