(* ===== verification/Network.thy ===== *)
theory Network
  imports Userspace
begin

text \<open>
  The network service (\<^verbatim>\<open>bin/network_service.rs\<close>) and its client (\<^verbatim>\<open>bin/network_test.rs\<close>):
  Internet checksums, ARP, reception and transmission of UDP datagrams through the shared packet
  buffer. The buffer is the single page of the packet-buffer capability: received frames start at
  offset 0, frames to send at 2048, application payloads at 3072. An access outside the page is
  a page fault, which ends the service.
\<close>

section \<open>Constants and state\<close>

definition MSG_NET_RX :: u64 where "MSG_NET_RX = 100"
definition MSG_NET_TX :: u64 where "MSG_NET_TX = 101"
definition MSG_NET_TX_ACK :: u64 where "MSG_NET_TX_ACK = 102"
definition MSG_UDP_BIND :: u64 where "MSG_UDP_BIND = 103"
definition MSG_UDP_SEND :: u64 where "MSG_UDP_SEND = 104"
definition MSG_UDP_RECV :: u64 where "MSG_UDP_RECV = 105"
definition CAP_NIC_DRIVER_EP :: u64 where "CAP_NIC_DRIVER_EP = 11"
definition CAP_NETWORK_SERVICE_EP :: u64 where "CAP_NETWORK_SERVICE_EP = 12"
definition CAP_APPLICATION_EP :: u64 where "CAP_APPLICATION_EP = 13"
definition OUR_IP :: bytes where "OUR_IP = [10, 0, 2, 15]"
definition GATEWAY_IP :: bytes where "GATEWAY_IP = [10, 0, 2, 2]"

lemmas net_msgs = MSG_NET_RX_def MSG_NET_TX_def MSG_NET_TX_ACK_def MSG_UDP_BIND_def MSG_UDP_SEND_def MSG_UDP_RECV_def

record net =
  our_mac :: bytes
  gateway_mac :: bytes
  gateway_mac_resolved :: bool
  bound_port :: u16
  bound_ep :: u64
  packet_buf :: bytes

text \<open>A step of the service changes the state and sends messages to endpoints.\<close>

type_synonym net_result = "panic + net \<times> (u64 \<times> message) list"

definition short_message :: "u64 \<Rightarrow> u64 \<Rightarrow> message" where
  "short_message rdi rsi = \<lparr>msg_rdi = rdi, msg_rsi = rsi, msg_rdx = 0, msg_r10 = 0, msg_r8 = 0, msg_r9 = 0\<rparr>"

section \<open>The packet buffer\<close>

definition page_fault :: panic where "page_fault = Panic ''User page fault''"

text \<open>\<open>copy_nonoverlapping\<close> inside the page.\<close>

definition copy_within :: "bytes \<Rightarrow> nat \<Rightarrow> nat \<Rightarrow> nat \<Rightarrow> panic + bytes" where
  "copy_within buf src dst n =
     (if length buf < src + n \<or> length buf < dst + n then Inl page_fault
      else if src < dst + n \<and> dst < src + n then Inl Undefined_Behaviour
      else Inr (put_at buf dst (slice buf src n)))"

definition be2 :: "'w::len word \<Rightarrow> bytes" where
  "be2 w = [ucast (drop_bit 8 w), ucast w]"

definition get16 :: "bytes \<Rightarrow> nat \<Rightarrow> u16" where
  "get16 p i = push_bit 8 (ucast (p ! i)) OR ucast (p ! (i + 1))"

section \<open>The Internet checksum\<close>

fun sum_words :: "u32 \<Rightarrow> bytes \<Rightarrow> u32" where
  "sum_words s [] = s"
| "sum_words s [a] = s + push_bit 8 (ucast a)"
| "sum_words s (a # b # rest) = sum_words (s + (push_bit 8 (ucast a) OR ucast b)) rest"

lemma halves:
  "unat (s :: u32) = 65536 * unat (drop_bit 16 s) + unat (s AND 0xFFFF)" "unat (s AND 0xFFFF) < 65536"
  "unat (drop_bit 16 s) < 65536"
proof -
  have a: "unat (s AND 0xFFFF) = unat s mod 65536"
  proof -
    have "s AND 0xFFFF = take_bit 16 s" by (simp add: take_bit_eq_mask mask_eq_exp_minus_1)
    then show ?thesis by (simp add: unsigned_take_bit_eq take_bit_eq_mod unat_mod)
  qed
  have "take_bit 32 (unat s) = unat s" by (rule take_bit_nat_eq_self) (use unsigned_less [of s] in simp)
  then have d: "unat (drop_bit 16 s) = unat s div 65536"
    by (simp only: unsigned_drop_bit_eq len_num0 len_num1 len_bit0 len_bit1) (simp add: drop_bit_eq_div)
  have "unat s < 4294967296" using unsigned_less [of s] by simp
  then show "unat (s :: u32) = 65536 * unat (drop_bit 16 s) + unat (s AND 0xFFFF)"
    "unat (s AND 0xFFFF) < 65536" "unat (drop_bit 16 s) < 65536"
    unfolding a d by (simp_all add: less_mult_imp_div_less)
qed

lemma fold_step:
  "unat ((s AND 0xFFFF) + drop_bit 16 s) = unat (s AND 0xFFFF) + unat (drop_bit 16 (s :: u32))"
  using halves(2,3) [of s] by (simp add: unat_word_ariths)

function fold_carry :: "u32 \<Rightarrow> u32" where
  "fold_carry s = (if drop_bit 16 s \<noteq> 0 then fold_carry ((s AND 0xFFFF) + drop_bit 16 s) else s)"
  by pat_completeness auto
termination
proof (relation "measure unat")
  fix s :: u32
  assume "drop_bit 16 s \<noteq> 0"
  then have "0 < unat (drop_bit 16 s)" by (simp add: unat_gt_0)
  with halves(1) [of s] show "((s AND 0xFFFF) + drop_bit 16 s, s) \<in> measure unat"
    by (simp only: in_measure fold_step)
qed simp

declare fold_carry.simps [simp del]

definition compute_checksum :: "bytes \<Rightarrow> u16" where
  "compute_checksum data = NOT (ucast (fold_carry (sum_words 0 data)))"

section \<open>ARP\<close>

definition arp_frame :: "bytes \<Rightarrow> bytes \<Rightarrow> u8 \<Rightarrow> bytes \<Rightarrow> bytes \<Rightarrow> bytes" where
  "arp_frame dst_mac mac opcode target_mac target_ip =
     dst_mac @ mac @ [0x08, 0x06] @
     [0x00, 0x01, 0x08, 0x00, 0x06, 0x04, 0x00, opcode] @ mac @ OUR_IP @ target_mac @ target_ip"

definition send_arp_request :: "net \<Rightarrow> net \<times> (u64 \<times> message) list" where
  "send_arp_request n =
     (n\<lparr>packet_buf := put_at (packet_buf n) 2048
         (arp_frame (replicate 6 0xFF) (our_mac n) 1 (replicate 6 0) GATEWAY_IP)\<rparr>,
      [(CAP_NIC_DRIVER_EP, short_message MSG_NET_TX 42)])"

text \<open>
  A packet is a window of the buffer: its offset and its length. The header fields that the
  handlers read lie in the first 82 bytes of the page.
\<close>

definition handle_arp :: "nat \<Rightarrow> nat \<Rightarrow> net \<Rightarrow> net \<times> (u64 \<times> message) list" where
  "handle_arp off len n =
     (if len < 28 then (n, [])
      else
        let p = drop off (packet_buf n); opcode = get16 p 6
        in if opcode = 2
           then (if slice p 14 4 = GATEWAY_IP
                 then (n\<lparr>gateway_mac := slice p 8 6, gateway_mac_resolved := True\<rparr>, [])
                 else (n, []))
           else if opcode = 1
           then (if slice p 24 4 = OUR_IP
                 then (n\<lparr>packet_buf := put_at (packet_buf n) 2048
                           (arp_frame (slice p 8 6) (our_mac n) 2 (slice p 8 6) (slice p 14 4))\<rparr>,
                       [(CAP_NIC_DRIVER_EP, short_message MSG_NET_TX 42)])
                 else (n, []))
           else (n, []))"

section \<open>Receiving datagrams\<close>

definition handle_udp :: "nat \<Rightarrow> nat \<Rightarrow> bytes \<Rightarrow> net \<Rightarrow> net_result" where
  "handle_udp off len src_ip n =
     (if len < 8 then Inr (n, [])
      else
        let p = drop off (packet_buf n); src_port = get16 p 0; dest_port = get16 p 2;
            udp_length = unat (get16 p 4)
        in if len < udp_length \<or> udp_length < 8 then Inr (n, [])
           else
             let payload_len = udp_length - 8
             in if bound_port n = dest_port \<and> bound_ep n \<noteq> 0
                then and_then (copy_within (packet_buf n) (off + 8) 3072 payload_len) (\<lambda>buf.
                  Inr (n\<lparr>packet_buf := buf\<rparr>,
                    [(bound_ep n,
                      \<lparr>msg_rdi = MSG_UDP_RECV, msg_rsi = of_nat payload_len,
                       msg_rdx = ucast (le_word (rev src_ip) :: u32), msg_r10 = ucast src_port,
                       msg_r8 = 0, msg_r9 = 0\<rparr>)]))
                else Inr (n, []))"

definition handle_ipv4 :: "nat \<Rightarrow> nat \<Rightarrow> net \<Rightarrow> net_result" where
  "handle_ipv4 off len n =
     (if len < 20 then Inr (n, [])
      else
        let p = drop off (packet_buf n); ihl = unat (p ! 0 AND 0x0F) * 4; protocol = p ! 9;
            dest_ip = slice p 16 4
        in if dest_ip \<noteq> OUR_IP \<and> dest_ip \<noteq> [255, 255, 255, 255] then Inr (n, [])
           else if protocol = 17
           then (if len < ihl then Inl Index_Out_Of_Bounds
                 else handle_udp (off + ihl) (len - ihl) (slice p 12 4) n)
           else Inr (n, []))"

section \<open>Sending datagrams\<close>

definition ip_header :: "u64 \<Rightarrow> bytes \<Rightarrow> bytes \<Rightarrow> bytes" where
  "ip_header total_len csum dest_ip =
     [0x45, 0x00] @ be2 total_len @ [0x00, 0x00, 0x40, 0x00, 64, 17] @ csum @ OUR_IP @ dest_ip"

definition udp_headers :: "net \<Rightarrow> u32 \<Rightarrow> u16 \<Rightarrow> u16 \<Rightarrow> u64 \<Rightarrow> bytes" where
  "udp_headers n dest_ip dest_port src_port payload_len =
     (let total_len = 20 + 8 + payload_len; dest_ip_bytes = rev (word_le 4 dest_ip);
          ip_csum = compute_checksum (ip_header total_len [0, 0] dest_ip_bytes)
      in gateway_mac n @ our_mac n @ [0x08, 0x00] @ ip_header total_len (be2 ip_csum) dest_ip_bytes @
         be2 src_port @ be2 dest_port @ be2 (8 + payload_len) @ [0x00, 0x00])"

definition send_udp :: "u32 \<Rightarrow> u16 \<Rightarrow> u16 \<Rightarrow> u64 \<Rightarrow> net \<Rightarrow> net_result" where
  "send_udp dest_ip dest_port src_port payload_len n =
     (if \<not> gateway_mac_resolved n then Inr (n, [])
      else
        let buf = put_at (packet_buf n) 2048 (udp_headers n dest_ip dest_port src_port payload_len);
            slice_end = 42 + payload_len
        in if slice_end < 42 \<or> 1500 < slice_end then Inl Index_Out_Of_Bounds
           else and_then (copy_within buf 3072 (2048 + 42) (unat payload_len)) (\<lambda>buf.
             Inr (n\<lparr>packet_buf := buf\<rparr>,
               [(CAP_NIC_DRIVER_EP, short_message MSG_NET_TX (14 + (20 + 8 + payload_len)))])))"

section \<open>The main loop\<close>

definition mac_of :: "u64 \<Rightarrow> bytes" where
  "mac_of mac_val = rev (word_le 6 mac_val)"

definition handle_frame :: "nat \<Rightarrow> net \<Rightarrow> net_result" where
  "handle_frame len n =
     (if 14 \<le> len
      then let eth_type = get16 (packet_buf n) 12
           in if eth_type = 0x0806 then Inr (handle_arp 14 (len - 14) n)
              else if eth_type = 0x0800 then handle_ipv4 14 (len - 14) n
              else Inr (n, [])
      else Inr (n, []))"

definition net_step :: "message \<Rightarrow> net \<Rightarrow> net_result" where
  "net_step msg n =
     (if msg_rdi msg = MSG_NET_RX
      then (if msg_rsi msg = 0xFFFFFFFF then Inr (send_arp_request (n\<lparr>our_mac := mac_of (msg_rdx msg)\<rparr>))
            else handle_frame (unat (msg_rsi msg)) n)
      else if msg_rdi msg = MSG_NET_TX_ACK then Inr (n, [])
      else if msg_rdi msg = MSG_UDP_BIND
      then Inr (n\<lparr>bound_port := ucast (msg_rsi msg), bound_ep := msg_rdx msg\<rparr>, [])
      else if msg_rdi msg = MSG_UDP_SEND
      then send_udp (ucast (msg_rsi msg)) (ucast (msg_rdx msg)) (ucast (msg_r10 msg)) (msg_r8 msg) n
      else Inr (n, []))"

text \<open>\<open>main\<close> of the client: the message that binds its port, and the echo of a received datagram.\<close>

definition net_test_bind :: message where
  "net_test_bind =
     \<lparr>msg_rdi = MSG_UDP_BIND, msg_rsi = 8080, msg_rdx = CAP_APPLICATION_EP, msg_r10 = 0, msg_r8 = 0, msg_r9 = 0\<rparr>"

definition net_test_step :: "message \<Rightarrow> (u64 \<times> message) list" where
  "net_test_step msg =
     (if msg_rdi msg = MSG_UDP_RECV
      then [(CAP_NETWORK_SERVICE_EP,
             \<lparr>msg_rdi = MSG_UDP_SEND, msg_rsi = ucast (ucast (msg_rdx msg) :: u32),
              msg_rdx = ucast (ucast (msg_r10 msg) :: u16), msg_r10 = 8080, msg_r8 = msg_rsi msg, msg_r9 = 0\<rparr>)]
      else [])"

section \<open>What the checksum computes\<close>

text \<open>The reference: the sum of the big-endian 16-bit words, reduced as a one's complement number.\<close>

fun word_sum :: "bytes \<Rightarrow> nat" where
  "word_sum [] = 0"
| "word_sum [a] = 256 * unat a"
| "word_sum (a # b # rest) = 256 * unat a + unat b + word_sum rest"

definition ones_complement :: "nat \<Rightarrow> nat" where
  "ones_complement n = (if n = 0 then 0 else (n - 1) mod 65535 + 1)"

lemma byte_less: "unat (a :: u8) < 256"
  using unsigned_less [of a] by simp

lemma unat_ucast_byte [simp]: "unat (ucast (a :: u8) :: u32) = unat a"
  using byte_less [of a] by (simp add: unsigned_ucast_eq take_bit_nat_eq_self)

lemma unat_push_8: "unat (push_bit 8 (ucast (a :: u8)) :: u32) = 256 * unat a"
  using byte_less [of a] by (simp add: push_bit_eq_mult unat_word_ariths)

lemma unat_join: "unat (push_bit 8 (ucast (a :: u8)) OR ucast (b :: u8) :: u32) = 256 * unat a + unat b"
proof -
  have b: "take_bit 8 (unat b) = unat b" using byte_less [of b] by (simp add: take_bit_nat_eq_self)
  have "push_bit 8 (ucast a) OR ucast b = (push_bit 8 (ucast a) + ucast b :: u32)"
    by (rule disjunctive_add_eq_or [symmetric]) (rule bit_word_eqI, auto simp: bit_simps dest: bit_imp_le_length)
  moreover have "unat (push_bit 8 (ucast a) + ucast b :: u32) = 256 * unat a + unat b"
    using byte_less [of a] byte_less [of b] by (simp add: unat_word_ariths push_bit_eq_mult)
  ultimately show ?thesis by simp
qed

lemma sum_words_eq: "unat s + word_sum data < 2 ^ 32 \<Longrightarrow> unat (sum_words s data) = unat s + word_sum data"
proof (induction s data rule: sum_words.induct)
  case (2 s a)
  then show ?case by (simp add: unat_word_ariths unat_push_8)
next
  case (3 s a b rest)
  have "unat (s + (push_bit 8 (ucast a) OR ucast b)) = unat s + (256 * unat a + unat b)"
    using "3.prems" by (simp add: unat_word_ariths unat_join)
  with "3.IH" "3.prems" show ?case by simp
qed simp

lemma word_sum_bound: "word_sum data \<le> 65535 * ((length data + 1) div 2)"
proof (induction data rule: word_sum.induct)
  case (2 a)
  then show ?case using byte_less [of a] by simp
next
  case (3 a b rest)
  then show ?case using byte_less [of a] byte_less [of b] by simp
qed simp

lemma ones_complement_fold: "0 < hi \<or> 0 < lo \<Longrightarrow> ones_complement (65536 * hi + lo) = ones_complement (hi + lo)"
proof -
  assume pos: "0 < hi \<or> 0 < lo"
  then have "65536 * hi + lo - 1 = hi + lo - 1 + hi * 65535" by auto
  with pos show ?thesis by (auto simp: ones_complement_def simp del: mult_Suc_right)
qed

lemma fold_carry_eq: "unat (fold_carry s) = ones_complement (unat s)"
proof (induction s rule: fold_carry.induct)
  case (1 s)
  note h = halves [of s]
  show ?case
  proof (cases "drop_bit 16 s = 0")
    case True
    then have "fold_carry s = s" by (subst fold_carry.simps) simp
    with True h show ?thesis by (auto simp: ones_complement_def)
  next
    case False
    then have "0 < unat (drop_bit 16 s)" by (simp add: unat_gt_0)
    then have "ones_complement (unat s) = ones_complement (unat (drop_bit 16 s) + unat (s AND 0xFFFF))"
      by (subst h(1), intro ones_complement_fold) simp
    moreover have "fold_carry s = fold_carry ((s AND 0xFFFF) + drop_bit 16 s)"
      using False by (subst fold_carry.simps) (simp only: if_True simp_thms)
    ultimately show ?thesis using "1.IH" [OF False] fold_step [of s] by (simp add: add.commute)
  qed
qed

lemma compute_checksum_eq:
  assumes "length data \<le> 131072"
  shows "unat (compute_checksum data) = 65535 - ones_complement (word_sum data)"
proof -
  have "(length data + 1) div 2 \<le> 65536" using assms by simp
  then have "word_sum data \<le> 65535 * 65536"
    using word_sum_bound [of data] by (meson le_trans mult_le_mono2)
  then have s: "unat (sum_words 0 data) = word_sum data" by (subst sum_words_eq) simp_all
  have "(word_sum data - 1) mod 65535 < 65535" by simp
  then have oc: "ones_complement (word_sum data) < 65536" unfolding ones_complement_def by simp
  have "unat (NOT (ucast w :: u16)) = 65535 - unat w" if "unat w < 65536" for w :: u32
  proof -
    have "unat (ucast w :: u16) = unat w" using that by (simp add: unsigned_ucast_eq take_bit_nat_eq_self)
    moreover have "NOT (ucast w :: u16) = 65535 - ucast w" by (simp add: not_eq_complement)
    ultimately show ?thesis using that by (simp add: unat_sub word_le_nat_alt)
  qed
  from this [of "fold_carry (sum_words 0 data)"] oc s show ?thesis
    by (simp add: compute_checksum_def fold_carry_eq)
qed

text \<open>
  C29: The optimised checksum loop, with its 32-bit accumulator and carry folding, equals the
  one's complement of the one's complement sum of the 16-bit words, for every input of up to
  128 KiB.
\<close>

theorem compute_checksum_ones_complement:
  assumes "length data \<le> 131072"
  shows "unat (compute_checksum data) = 65535 - ones_complement (word_sum data)"
  by (rule compute_checksum_eq [OF assms])

definition sample_ip_header :: bytes where
  "sample_ip_header =
     [0x45, 0, 0, 0x73, 0, 0, 0x40, 0, 0x40, 0x11, 0, 0, 0xC0, 0xA8, 0, 1, 0xC0, 0xA8, 0, 0xC7]"

theorem compute_checksum_ones_complement_witness:
  "compute_checksum sample_ip_header = 0xB861 \<and> ones_complement (word_sum sample_ip_header) = 65535 - 0xB861"
proof -
  have c: "compute_checksum sample_ip_header = 0xB861" by code_simp
  have "length sample_ip_header \<le> 131072" by (simp add: sample_ip_header_def)
  from compute_checksum_ones_complement [OF this] c show ?thesis by simp
qed

lemma word_sum_append: "even (length a) \<Longrightarrow> word_sum (a @ b) = word_sum a + word_sum b"
  by (induction a rule: word_sum.induct) simp_all

lemma word_sum_be2: "word_sum (be2 (c :: u16)) = unat c"
proof -
  have "take_bit 16 (unat c) = unat c" by (rule take_bit_nat_eq_self) (use unsigned_less [of c] in simp)
  then have d: "unat (drop_bit 8 c) = unat c div 256"
    by (simp only: unsigned_drop_bit_eq len_num0 len_num1 len_bit0 len_bit1) (simp add: drop_bit_eq_div)
  have "unat c < 65536" using unsigned_less [of c] by simp
  then have "unat c div 256 < 256" by (simp add: less_mult_imp_div_less)
  then have "unat (ucast (drop_bit 8 c) :: u8) = unat c div 256"
    by (simp only: unsigned_ucast_eq d) (simp add: take_bit_nat_eq_self)
  moreover have "unat (ucast c :: u8) = unat c mod 256"
    by (simp add: unsigned_ucast_eq take_bit_eq_mod)
  ultimately show ?thesis by (simp add: be2_def)
qed

lemma ones_complement_fill: "ones_complement (n + (65535 - ones_complement n)) = 65535"
proof (cases "n = 0")
  case False
  define q where "q = (n - 1) div 65535"
  define r where "r = (n - 1) mod 65535"
  have r: "r < 65535" "n = q * 65535 + r + 1"
    using False div_mult_mod_eq [of "n - 1" 65535] by (simp_all add: q_def r_def)
  have "ones_complement n = r + 1" using False by (simp add: ones_complement_def r_def)
  with r have "n + (65535 - ones_complement n) - 1 = 65534 + q * 65535" by simp
  then show ?thesis using False by (simp add: ones_complement_def)
qed (simp add: ones_complement_def)

lemma checksum_valid:
  assumes "even (length a)" and "length a + length b \<le> 1000"
  shows "compute_checksum (a @ be2 (compute_checksum (a @ [0, 0] @ b)) @ b) = 0"
proof -
  let ?c = "compute_checksum (a @ [0, 0] @ b)"
  have c: "unat ?c = 65535 - ones_complement (word_sum a + word_sum b)"
    using assms by (subst compute_checksum_eq) (simp_all add: word_sum_append)
  have "word_sum (be2 ?c @ b) = unat ?c + word_sum b"
    by (subst word_sum_append, simp add: be2_def) (simp only: word_sum_be2)
  then have "word_sum (a @ be2 ?c @ b) = word_sum a + word_sum b + unat ?c"
    using assms(1) by (simp only: word_sum_append)
  then have "unat (compute_checksum (a @ be2 ?c @ b)) = 0"
    using assms by (subst compute_checksum_eq) (simp_all add: c [simplified] ones_complement_fill, simp add: be2_def)
  then show ?thesis by (simp add: unat_eq_0)
qed

section \<open>Datagrams on the wire\<close>

text \<open>A frame (possibly padded) that carries a UDP datagram with a plain 20-byte IP header.\<close>

definition udp_frame :: "bytes \<Rightarrow> bytes \<Rightarrow> bytes \<Rightarrow> u16 \<Rightarrow> u16 \<Rightarrow> bytes \<Rightarrow> bool" where
  "udp_frame f src_ip dst_ip src_port dst_port payload \<longleftrightarrow>
     42 + length payload \<le> length f \<and> get16 f 12 = 0x0800 \<and> f ! 14 = 0x45 \<and> f ! 23 = 17 \<and>
     slice f 26 4 = src_ip \<and> slice f 30 4 = dst_ip \<and> get16 f 34 = src_port \<and> get16 f 36 = dst_port \<and>
     unat (get16 f 38) = 8 + length payload \<and> slice f 42 (length payload) = payload"

definition net_ok :: "net \<Rightarrow> bool" where
  "net_ok n \<longleftrightarrow> length (packet_buf n) = 4096 \<and> length (our_mac n) = 6 \<and> length (gateway_mac n) = 6"

definition udp_recv_message :: "bytes \<Rightarrow> u16 \<Rightarrow> nat \<Rightarrow> message" where
  "udp_recv_message src_ip src_port len =
     \<lparr>msg_rdi = MSG_UDP_RECV, msg_rsi = of_nat len, msg_rdx = ucast (le_word (rev src_ip) :: u32),
      msg_r10 = ucast src_port, msg_r8 = 0, msg_r9 = 0\<rparr>"

lemma get16_take: "i + 1 < n \<Longrightarrow> get16 (take n buf) i = get16 buf i"
  by (simp add: get16_def)

lemma get16_drop: "get16 (drop off buf) i = get16 buf (off + i)" if "off + i + 1 < length buf"
  using that by (simp add: get16_def add.assoc)

lemma receive_frame:
  assumes ok: "net_ok n" and f: "udp_frame (take len (packet_buf n)) src_ip OUR_IP src_port dst_port payload"
    and b: "bound_port n = dst_port" "bound_ep n \<noteq> 0" and small: "length payload \<le> 1024"
  shows "handle_frame len n =
    Inr (n\<lparr>packet_buf := put_at (packet_buf n) 3072 payload\<rparr>,
         [(bound_ep n, udp_recv_message src_ip src_port (length payload))])"
proof -
  let ?b = "packet_buf n"
  have l: "length ?b = 4096" using ok by (simp add: net_ok_def)
  have len: "42 + length payload \<le> len" using f by (simp add: udp_frame_def)
  have fields: "get16 ?b 12 = 0x0800" "?b ! 14 = 0x45" "?b ! 23 = 17" "slice ?b 26 4 = src_ip" "slice ?b 30 4 = OUR_IP"
    "get16 ?b 34 = src_port" "get16 ?b 36 = dst_port" "unat (get16 ?b 38) = 8 + length payload"
    "slice ?b 42 (length payload) = payload"
    using f len by (simp_all add: udp_frame_def get16_take slice_take)
  have copy: "copy_within ?b 42 3072 (length payload) = Inr (put_at ?b 3072 payload)"
    using small by (simp add: copy_within_def l fields)
  have udp: "handle_udp 34 (len - 34) src_ip n =
      Inr (n\<lparr>packet_buf := put_at ?b 3072 payload\<rparr>,
           [(bound_ep n, udp_recv_message src_ip src_port (length payload))])"
    using len b by (simp add: handle_udp_def Let_def get16_drop l fields copy udp_recv_message_def)
  have "handle_ipv4 14 (len - 14) n = handle_udp 34 (len - 34) src_ip n"
  proof -
    have "\<not> len - 14 < 20" "len - 14 - 20 = len - 34" using len by simp_all
    then show ?thesis by (simp add: handle_ipv4_def Let_def slice_drop l fields)
  qed
  with len udp show ?thesis by (simp add: handle_frame_def fields)
qed

lemma get16_be2:
  fixes w :: "'w::len word"
  assumes "p ! i = be2 w ! 0" and "p ! (i + 1) = be2 w ! 1" and "16 \<le> LENGTH('w)"
  shows "get16 p i = ucast w"
  using assms by (simp add: get16_def be2_def) (rule bit_word_eqI, auto simp: bit_simps)

lemma udp_headers_frame:
  assumes ok: "net_ok n" and small: "len \<le> 2000" and pl: "length pl = len"
  shows "udp_frame (udp_headers n dest_ip dest_port src_port (of_nat len) @ pl) OUR_IP (rev (word_le 4 dest_ip))
    src_port dest_port pl"
proof -
  define c where "c = compute_checksum (ip_header (20 + 8 + of_nat len) [0, 0] (rev (word_le 4 dest_ip)))"
  let ?f = "udp_headers n dest_ip dest_port src_port (of_nat len) @ pl"
  have l: "length (our_mac n) = 6" "length (gateway_mac n) = 6" using ok by (simp_all add: net_ok_def)
  have f: "?f = gateway_mac n @ our_mac n @ [0x08, 0x00, 0x45, 0x00] @ be2 (20 + 8 + of_nat len :: u64) @
      [0x00, 0x00, 0x40, 0x00, 64, 17] @ be2 c @ OUR_IP @ rev (word_le 4 dest_ip) @
      be2 src_port @ be2 dest_port @ be2 (8 + of_nat len :: u64) @ [0x00, 0x00] @ pl"
    by (simp add: udp_headers_def ip_header_def Let_def c_def)
  have ports: "get16 ?f 34 = ucast src_port" "get16 ?f 36 = ucast dest_port"
    "get16 ?f 38 = ucast (8 + of_nat len :: u64)"
    unfolding f by (rule get16_be2; simp add: nth_append l be2_def OUR_IP_def)+
  have n: "unat (ucast (8 + of_nat len :: u64) :: u16) = 8 + len"
    using small by (simp add: unsigned_ucast_eq unat_word_ariths unat_of_nat take_bit_nat_eq_self)
  have "get16 ?f 12 = 0x0800" "?f ! 14 = 0x45" "?f ! 23 = 17" "42 + length pl \<le> length ?f"
    "slice ?f 26 4 = OUR_IP" "slice ?f 30 4 = rev (word_le 4 dest_ip)" "slice ?f 42 (length pl) = pl"
    unfolding f by (simp_all add: get16_def slice_def nth_append l be2_def OUR_IP_def)
  with ports n pl show ?thesis by (simp add: udp_frame_def)
qed

lemma send_frame:
  assumes ok: "net_ok n" and r: "gateway_mac_resolved n" and small: "len \<le> 982"
  obtains n' where "send_udp dest_ip dest_port src_port (of_nat len) n =
      Inr (n', [(CAP_NIC_DRIVER_EP, short_message MSG_NET_TX (of_nat (42 + len)))])"
    and "udp_frame (slice (packet_buf n') 2048 (42 + len)) OUR_IP (rev (word_le 4 dest_ip)) src_port dest_port
      (slice (packet_buf n) 3072 len)"
    and "compute_checksum (slice (packet_buf n') 2062 20) = 0"
proof -
  let ?h = "udp_headers n dest_ip dest_port src_port (of_nat len)"
  let ?buf = "put_at (packet_buf n) 2048 ?h"
  let ?pl = "slice (packet_buf n) 3072 len"
  define ip where "ip = ip_header (20 + 8 + of_nat len)
    (be2 (compute_checksum (ip_header (20 + 8 + of_nat len) [0, 0] (rev (word_le 4 dest_ip))))) (rev (word_le 4 dest_ip))"
  define n' where "n' = n\<lparr>packet_buf := put_at ?buf 2090 ?pl\<rparr>"
  have l: "length (packet_buf n) = 4096" "length (our_mac n) = 6" "length (gateway_mac n) = 6"
    using ok by (simp_all add: net_ok_def)
  have ip_len: "length ip = 20" by (simp add: ip_def ip_header_def be2_def OUR_IP_def)
  have h: "?h = gateway_mac n @ our_mac n @ [0x08, 0x00] @ ip @ be2 src_port @ be2 dest_port @
      be2 (8 + of_nat len :: u64) @ [0x00, 0x00]"
    by (simp add: udp_headers_def ip_def Let_def)
  have hl: "length ?h = 42" by (simp add: h l ip_len be2_def)
  have pl: "length ?pl = len" using small by (simp add: l)
  have n: "unat (of_nat len :: u64) = len" using small by (simp add: unat_of_nat)
  have wle: "\<not> (42 + of_nat len :: u64) < 42" "\<not> (1500 :: u64) < 42 + of_nat len"
    using small by (simp_all add: word_less_nat_alt unat_word_ariths unat_of_nat)
  have "slice ?buf 3072 len = ?pl" by (rule slice_put_at_after) (simp_all add: hl l)
  then have copy: "copy_within ?buf 3072 2090 len = Inr (put_at ?buf 2090 ?pl)"
    using small by (simp add: copy_within_def hl l)
  have run: "send_udp dest_ip dest_port src_port (of_nat len) n =
      Inr (n', [(CAP_NIC_DRIVER_EP, short_message MSG_NET_TX (of_nat (42 + len)))])"
    using r copy by (simp add: send_udp_def Let_def n wle n'_def short_message_def)
  have buf': "packet_buf n' = take 2048 (packet_buf n) @ (?h @ ?pl) @ drop (len + 2090) (packet_buf n)"
    using small by (simp add: n'_def put_at_def hl pl l)
  have frame: "slice (packet_buf n') 2048 (42 + len) = ?h @ ?pl"
    using small by (simp add: buf' slice_def hl pl l)
  show ?thesis
  proof (rule that [OF run])
    have "slice (packet_buf n') 2062 20 = ip"
      by (simp add: buf' slice_def h l ip_len)
    moreover have "compute_checksum ip = 0"
      using checksum_valid [of "[0x45, 0x00] @ be2 (20 + 8 + of_nat len :: u64) @ [0x00, 0x00, 0x40, 0x00, 64, 17]"
        "OUR_IP @ rev (word_le 4 dest_ip)"]
      by (simp add: ip_def ip_header_def) (simp add: be2_def OUR_IP_def)
    ultimately show "compute_checksum (slice (packet_buf n') 2062 20) = 0" by simp
    show "udp_frame (slice (packet_buf n') 2048 (42 + len)) OUR_IP (rev (word_le 4 dest_ip)) src_port dest_port ?pl"
      unfolding frame by (rule udp_headers_frame [OF ok]) (use small pl in simp_all)
  qed
qed

lemma ucast_u64_back [simp]: "ucast (ucast (x :: u32) :: u64) = x" "ucast (ucast (y :: u16) :: u64) = y"
  by (rule bit_word_eqI, auto simp: bit_simps)+


definition sample_net :: "bytes \<Rightarrow> net" where
  "sample_net payload =
     (let n = \<lparr>our_mac = replicate 6 1, gateway_mac = replicate 6 2, gateway_mac_resolved = True,
               bound_port = 8080, bound_ep = CAP_APPLICATION_EP, packet_buf = []\<rparr>
      in n\<lparr>packet_buf :=
           udp_headers n (le_word (rev OUR_IP)) 8080 5 (of_nat (length payload)) @ payload @
           replicate (4096 - 42 - length payload) 0\<rparr>)"

lemma sample_net_frame:
  assumes "length payload \<le> 2000"
  shows "net_ok (sample_net payload)"
    and "udp_frame (take (42 + length payload) (packet_buf (sample_net payload))) OUR_IP OUR_IP 5 8080 payload"
proof -
  define n where "n = \<lparr>our_mac = replicate 6 1, gateway_mac = replicate 6 2, gateway_mac_resolved = True,
    bound_port = 8080, bound_ep = CAP_APPLICATION_EP, packet_buf = replicate 4096 0\<rparr>"
  have ok: "net_ok n" by (simp only: net_ok_def n_def net.simps length_replicate)
  let ?h = "udp_headers n (le_word (rev OUR_IP)) 8080 5 (of_nat (length payload))"
  have h: "length ?h = 42" by (simp add: udp_headers_def ip_header_def be2_def OUR_IP_def Let_def n_def)
  have b: "packet_buf (sample_net payload) = ?h @ payload @ replicate (4096 - 42 - length payload) 0"
    by (simp only: sample_net_def Let_def udp_headers_def n_def net.simps net.update_convs)
  show "udp_frame (take (42 + length payload) (packet_buf (sample_net payload))) OUR_IP OUR_IP 5 8080 payload"
  proof -
    have "rev (word_le 4 (le_word (rev OUR_IP) :: u32)) = OUR_IP" by (subst word_le_le_word) (simp_all add: OUR_IP_def)
    with udp_headers_frame [OF ok assms refl, of "le_word (rev OUR_IP)" 8080 5] show ?thesis by (simp add: b h)
  qed
  have "length (packet_buf (sample_net payload)) = 4096" using assms by (simp add: b h del: replicate.simps)
  then show "net_ok (sample_net payload)" by (simp add: net_ok_def) (simp add: sample_net_def Let_def)
qed

lemma sample_net_sel [simp]:
  "gateway_mac_resolved (sample_net payload)" "bound_port (sample_net payload) = 8080"
  "bound_ep (sample_net payload) = CAP_APPLICATION_EP"
  by (simp_all add: sample_net_def Let_def)


text \<open>
  C38: A datagram for the bound port with more than 1024 bytes of payload, which a standard
  Ethernet frame can carry, makes the service write past its packet buffer: it takes a page
  fault and is gone. The length that the code checks is that of the frame, not of the buffer.
\<close>

theorem oversized_datagram_faults:
  assumes ok: "net_ok n" and f: "udp_frame (take len (packet_buf n)) src_ip OUR_IP src_port (bound_port n) payload"
    and b: "bound_ep n \<noteq> 0" and big: "1024 < length payload" and len: "len \<le> 4096"
  shows "net_step (short_message MSG_NET_RX (of_nat len)) n = Inl page_fault"
proof -
  let ?b = "packet_buf n"
  have l: "length ?b = 4096" using ok by (simp add: net_ok_def)
  have ln: "42 + length payload \<le> len" using f by (simp add: udp_frame_def)
  have fields: "get16 ?b 12 = 0x0800" "?b ! 14 = 0x45" "?b ! 23 = 17" "slice ?b 26 4 = src_ip" "slice ?b 30 4 = OUR_IP"
    "get16 ?b 36 = bound_port n" "unat (get16 ?b 38) = 8 + length payload"
    using f ln by (simp_all add: udp_frame_def get16_take slice_take)
  have "handle_udp 34 (len - 34) src_ip n = Inl page_fault"
    using ln b big by (simp add: handle_udp_def Let_def get16_drop l fields copy_within_def)
  moreover have "handle_ipv4 14 (len - 14) n = handle_udp 34 (len - 34) src_ip n"
  proof -
    have "\<not> len - 14 < 20" "len - 14 - 20 = len - 34" using ln by simp_all
    then show ?thesis by (simp add: handle_ipv4_def Let_def slice_drop l fields)
  qed
  moreover have "unat (of_nat len :: u64) = len" "(of_nat len :: u64) \<noteq> 0xFFFFFFFF"
    using len by (simp_all add: unat_of_nat word_unat_eq_iff)
  ultimately show ?thesis using ln by (simp add: net_step_def short_message_def handle_frame_def fields)
qed

theorem oversized_datagram_faults_witness:
  "net_step (short_message MSG_NET_RX 1514) (sample_net (replicate 1472 0x41)) = Inl page_fault"
proof -
  have "length (replicate 1472 (0x41 :: u8)) \<le> 2000" by (simp only: length_replicate)
  note f = sample_net_frame [OF this]
  have "1024 < length (replicate 1472 (0x41 :: u8))" by (simp only: length_replicate)
  with oversized_datagram_faults [of "sample_net (replicate 1472 0x41)" 1514 OUR_IP 5 "replicate 1472 0x41"] f
  show ?thesis by (simp only: length_replicate sample_net_sel CAP_APPLICATION_EP_def) simp
qed

end
