(* ===== verification/Rtl8139.thy ===== *)
theory Rtl8139
  imports Network
begin

text \<open>
  The driver of the RTL8139 network card (\<^verbatim>\<open>bin/rtl8139_service.rs\<close>): start-up, the transmit
  thread and the receive loop. The card is hardware: a parameter with port registers and a view of
  the DMA pool, which it writes on its own. The driver shares the packet buffer page with the
  network service; the receive ring is at the start of the DMA pool and four transmit buffers of
  2048 bytes follow at offset 16384.
\<close>

section \<open>The card\<close>

record 'd nic_bus = "'d bus" +
  dma_view :: "'d \<Rightarrow> bytes"
  dma_store :: "nat \<Rightarrow> bytes \<Rightarrow> 'd \<Rightarrow> 'd"

definition REG_MAC0 :: u16 where "REG_MAC0 = 0x00"
definition REG_TX_STATUS0 :: u16 where "REG_TX_STATUS0 = 0x10"
definition REG_TX_ADDR0 :: u16 where "REG_TX_ADDR0 = 0x20"
definition REG_RX_BUF :: u16 where "REG_RX_BUF = 0x30"
definition REG_COMMAND :: u16 where "REG_COMMAND = 0x37"
definition REG_CAPR :: u16 where "REG_CAPR = 0x38"
definition REG_IMR :: u16 where "REG_IMR = 0x3C"
definition REG_ISR :: u16 where "REG_ISR = 0x3E"
definition REG_RCR :: u16 where "REG_RCR = 0x44"
definition REG_CONFIG1 :: u16 where "REG_CONFIG1 = 0x52"

record nic =
  io_base :: u16
  tx_buf_phys :: u64
  next_tx_desc :: u8
  shared_buf :: bytes

section \<open>Start-up\<close>

partial_function (option) nic_reset_wait :: "'d nic_bus \<Rightarrow> u16 \<Rightarrow> 'd \<Rightarrow> 'd option" where
  "nic_reset_wait b base d =
     (let (v, d1) = bus_in b (base + REG_COMMAND) 1 d
      in if v AND 0x10 = 0 then Some d1 else nic_reset_wait b base d1)"

fun read_mac :: "'d nic_bus \<Rightarrow> u16 \<Rightarrow> nat list \<Rightarrow> 'd \<Rightarrow> bytes \<times> 'd" where
  "read_mac b base [] d = ([], d)"
| "read_mac b base (i # is) d =
     (let (v, d1) = bus_in b (base + REG_MAC0 + of_nat i) 1 d; (rest, d2) = read_mac b base is d1
      in (ucast v # rest, d2))"

definition mac_message :: "bytes \<Rightarrow> message" where
  "mac_message mac =
     \<lparr>msg_rdi = MSG_NET_RX, msg_rsi = 0xFFFFFFFF,
      msg_rdx = push_bit 40 (ucast (mac ! 0)) OR push_bit 32 (ucast (mac ! 1)) OR push_bit 24 (ucast (mac ! 2)) OR
        push_bit 16 (ucast (mac ! 3)) OR push_bit 8 (ucast (mac ! 4)) OR ucast (mac ! 5),
      msg_r10 = 0, msg_r8 = 0, msg_r9 = 0\<rparr>"

text \<open>
  \<open>main\<close> up to its loop: the values of \<open>sys_cap_info\<close> for handles 21 and 22, the shared page, the
  card. \<open>None\<close> stands for a missing capability, on which the service spins, and for a card that
  never leaves reset.
\<close>

definition nic_start :: "'d nic_bus \<Rightarrow> u64 \<Rightarrow> u64 \<Rightarrow> bytes \<Rightarrow> 'd \<Rightarrow> (nic \<times> message \<times> 'd) option" where
  "nic_start b cap21 dma_phys shared d =
     (let base = ucast cap21 :: u16
      in if base = 0xFFFF then None
         else
           let d = bus_out b (base + REG_CONFIG1) 1 0x00 d;
               d = bus_out b (base + REG_COMMAND) 1 0x10 d
           in (case nic_reset_wait b base d of
                 None \<Rightarrow> None
               | Some d \<Rightarrow>
                   let d = bus_out b (base + REG_RX_BUF) 4 (ucast dma_phys) d;
                       d = bus_out b (base + REG_IMR) 2 0x0005 d;
                       d = bus_out b (base + REG_RCR) 4 0x8F d;
                       d = bus_out b (base + REG_COMMAND) 1 0x0C d;
                       (mac, d) = read_mac b base [0..<6] d
                   in Some (\<lparr>io_base = base, tx_buf_phys = dma_phys + 16384, next_tx_desc = 0, shared_buf = shared\<rparr>,
                            mac_message mac, d)))"

section \<open>The transmit thread\<close>

definition tx_step :: "'d nic_bus \<Rightarrow> message \<Rightarrow> nic \<Rightarrow> 'd \<Rightarrow> panic + (nic \<times> 'd) \<times> (u64 \<times> message) list" where
  "tx_step b msg n d =
     (if msg_rdi msg = MSG_NET_TX
      then
        let len = unat (msg_rsi msg); desc = next_tx_desc n; dst = 16384 + unat desc * 2048
        in if length (shared_buf n) < 2048 + len \<or> length (dma_view b d) < dst + max len 60 then Inl page_fault
           else
             let d = dma_store b dst (slice (shared_buf n) 2048 len) d;
                 d = (if len < 60 then dma_store b (dst + len) (replicate (60 - len) 0) d else d);
                 send_len = (if len < 60 then 60 else len);
                 d = bus_out b (io_base n + REG_TX_ADDR0 + ucast desc * 4) 4
                       (ucast (tx_buf_phys n + ucast desc * 2048)) d;
                 d = bus_out b (io_base n + REG_TX_STATUS0 + ucast desc * 4) 4 (of_nat send_len) d
             in Inr ((n\<lparr>next_tx_desc := (desc + 1) mod 4\<rparr>, d),
                     [(CAP_NETWORK_SERVICE_EP, short_message MSG_NET_TX_ACK 0)])
      else Inr ((n, d), []))"

section \<open>The receive loop\<close>

text \<open>Each frame that is passed on is recorded with the message and the shared page at that moment.\<close>

type_synonym rx_trace = "(message \<times> bytes) list"

definition next_rx_offset :: "u32 \<Rightarrow> u16 \<Rightarrow> u32" where
  "next_rx_offset rx_offset len =
     (let off = (rx_offset + ucast len + 4 + 3) AND NOT 3
      in if 8192 \<le> off then off - 8192 else off)"

definition rx_packet :: "'d nic_bus \<Rightarrow> u32 \<Rightarrow> nic \<Rightarrow> 'd \<Rightarrow> panic + u32 \<times> nic \<times> 'd \<times> message" where
  "rx_packet b rx_offset n d =
     (let ring = dma_view b d; cur = unat rx_offset; len = le_word (slice ring (cur + 2) 2) :: u16;
          packet_len = unat (len - 4)
      in if length ring < cur + 4 + packet_len \<or> length (shared_buf n) < packet_len then Inl page_fault
         else
           let n1 = n\<lparr>shared_buf := put_at (shared_buf n) 0 (slice ring (cur + 4) packet_len)\<rparr>;
               off = next_rx_offset rx_offset len;
               d1 = bus_out b (io_base n + REG_CAPR) 2 (off - 16) d
           in Inr (off, n1, d1, short_message MSG_NET_RX (of_nat packet_len)))"

partial_function (option) rx_drain ::
  "'d nic_bus \<Rightarrow> u32 \<Rightarrow> nic \<Rightarrow> 'd \<Rightarrow> rx_trace \<Rightarrow> (panic + u32 \<times> nic \<times> 'd \<times> rx_trace) option" where
  "rx_drain b rx_offset n d trace =
     (let (cmd, d1) = bus_in b (io_base n + REG_COMMAND) 1 d
      in if cmd AND 1 \<noteq> 0 then Some (Inr (rx_offset, n, d1, trace))
         else case rx_packet b rx_offset n d1 of
                Inl p \<Rightarrow> Some (Inl p)
              | Inr (off, n1, d2, msg) \<Rightarrow> rx_drain b off n1 d2 (trace @ [(msg, shared_buf n1)]))"

text \<open>One round of the main loop, after \<open>sys_wait_irq\<close>.\<close>

definition rx_interrupt :: "'d nic_bus \<Rightarrow> u32 \<Rightarrow> nic \<Rightarrow> 'd \<Rightarrow> (panic + u32 \<times> nic \<times> 'd \<times> rx_trace) option" where
  "rx_interrupt b rx_offset n d =
     (let port = io_base n + REG_ISR; (status, d) = bus_in b port 2 (bus_wait_irq b d);
          d = (if status AND 0x04 \<noteq> 0 then bus_out b port 2 0x04 d else d)
      in if status AND 0x01 \<noteq> 0
         then (case rx_drain b rx_offset n d [] of
                 Some (Inr (off, n1, d1, trace)) \<Rightarrow> Some (Inr (off, n1, bus_out b port 2 0x01 d1, trace))
               | r \<Rightarrow> r)
         else Some (Inr (rx_offset, n, d, [])))"

section \<open>The receive ring\<close>

text \<open>
  The reference: a frame of \<open>n\<close> bytes occupies its four-byte header, the frame and the four-byte
  CRC, rounded up to a multiple of four, in a ring of 8192 bytes.
\<close>

definition ring_next :: "nat \<Rightarrow> nat \<Rightarrow> nat" where
  "ring_next off n = (off + (n + 8 + 3) div 4 * 4) mod 8192"

definition ring_offset :: "nat \<Rightarrow> bool" where
  "ring_offset off \<longleftrightarrow> off < 8192 \<and> off mod 4 = 0"

lemma ring_offset_next: "ring_offset off \<Longrightarrow> ring_offset (ring_next off n)"
proof -
  assume "ring_offset off"
  then have "4 dvd off" by (simp add: ring_offset_def mod_eq_0_iff_dvd)
  then have "4 dvd off + (n + 8 + 3) div 4 * 4" by simp
  then have "4 dvd ring_next off n" unfolding ring_next_def by (rule dvd_mod) simp
  moreover have "ring_next off n < 8192" by (simp add: ring_next_def)
  ultimately show ?thesis by (simp add: ring_offset_def mod_eq_0_iff_dvd)
qed

lemma next_rx_offset_ring:
  assumes off: "ring_offset (unat off)" and n: "n \<le> 2000"
  shows "unat (next_rx_offset off (of_nat (n + 4))) = ring_next (unat off) n"
proof -
  let ?x = "off + ucast (of_nat (n + 4) :: u16) + 4 + 3 :: u32"
  have o: "unat off < 8192" "4 dvd unat off" using off by (simp_all add: ring_offset_def mod_eq_0_iff_dvd)
  have w: "unat (ucast (of_nat (n + 4) :: u16) :: u32) = n + 4"
  proof -
    have "unat (of_nat (n + 4) :: u16) = n + 4" by (subst unat_of_nat) (use n in simp)
    then show ?thesis using n by (simp only: unsigned_ucast_eq) (simp add: take_bit_nat_eq_self)
  qed
  have x: "unat ?x = unat off + (n + 11)" using o n by (simp only: unat_word_ariths w) simp
  have "(3 :: u32) = mask 2" by (simp add: mask_eq_exp_minus_1)
  then have "unat (?x AND NOT 3) = unat ?x div 4 * 4" using unat_and_not_mask [of ?x 2] by (simp only:) simp
  also have "\<dots> = unat off + (n + 8 + 3) div 4 * 4"
    using o(2) unfolding x by (simp add: div_plus_div_distrib_dvd_left distrib_right)
  finally have y: "unat (?x AND NOT 3) = unat off + (n + 8 + 3) div 4 * 4" .
  have lim: "unat off + (n + 8 + 3) div 4 * 4 < 16384" using o n by linarith
  show ?thesis
  proof (cases "8192 \<le> unat off + (n + 8 + 3) div 4 * 4")
    case True
    then have le: "8192 \<le> ?x AND NOT 3" by (simp only: word_le_nat_alt y) simp
    then have "unat ((?x AND NOT 3) - 8192) = unat off + (n + 8 + 3) div 4 * 4 - 8192"
      by (subst unat_sub) (simp_all only: y, simp)
    moreover have "ring_next (unat off) n = unat off + (n + 8 + 3) div 4 * 4 - 8192"
      unfolding ring_next_def using True lim le_mod_geq [OF True] by simp
    ultimately show ?thesis using le unfolding next_rx_offset_def Let_def by (simp only: if_True)
  next
    case False
    then have "\<not> 8192 \<le> ?x AND NOT 3" by (simp only: word_le_nat_alt y) simp
    then show ?thesis using False unfolding next_rx_offset_def Let_def ring_next_def by (simp only: if_False y) simp
  qed
qed

text \<open>
  What the card promises: while frames are pending it reports a non-empty buffer and each frame lies
  in the ring, behind a header with its length, at the position that follows the previous frame;
  afterwards it reports an empty buffer.
\<close>

fun ring_holds :: "'d nic_bus \<Rightarrow> u16 \<Rightarrow> 'd \<Rightarrow> nat \<Rightarrow> bytes list \<Rightarrow> bool" where
  "ring_holds b base d off [] \<longleftrightarrow> fst (bus_in b (base + REG_COMMAND) 1 d) AND 1 \<noteq> 0"
| "ring_holds b base d off (f # fs) \<longleftrightarrow>
     (let (cmd, d1) = bus_in b (base + REG_COMMAND) 1 d; ring = dma_view b d1; off' = ring_next off (length f)
      in cmd AND 1 = 0 \<and> length f \<le> 2000 \<and> length ring = 65536 \<and>
         slice ring (off + 2) 2 = word_le 2 (of_nat (length f + 4) :: u16) \<and> slice ring (off + 4) (length f) = f \<and>
         ring_holds b base (bus_out b (base + REG_CAPR) 2 (of_nat off' - 16) d1) off' fs)"

definition frame_of :: "message \<times> bytes \<Rightarrow> bytes" where
  "frame_of e = take (unat (msg_rsi (fst e))) (snd e)"

lemma rx_packet_frame:
  assumes off: "ring_offset (unat off)" and sh: "length (shared_buf n) = 4096" and f: "length f \<le> 2000"
    and ring: "length (dma_view b d) = 65536" "slice (dma_view b d) (unat off + 2) 2 = word_le 2 (of_nat (length f + 4) :: u16)"
      "slice (dma_view b d) (unat off + 4) (length f) = f"
  obtains off' where "rx_packet b off n d =
      Inr (off', n\<lparr>shared_buf := put_at (shared_buf n) 0 f\<rparr>,
        bus_out b (io_base n + REG_CAPR) 2 (of_nat (ring_next (unat off) (length f)) - 16) d,
        short_message MSG_NET_RX (of_nat (length f)))"
    and "unat off' = ring_next (unat off) (length f)"
proof -
  let ?len = "of_nat (length f + 4) :: u16"
  let ?off = "next_rx_offset off ?len"
  have len: "le_word (slice (dma_view b d) (unat off + 2) 2) = ?len" by (simp only: ring(2)) (rule le_word_word_le, simp)
  have pl: "unat (?len - 4) = length f" using f by (simp add: unat_of_nat)
  have o: "unat ?off = ring_next (unat off) (length f)" by (rule next_rx_offset_ring [OF off f])
  then have "?off = of_nat (ring_next (unat off) (length f))" by (metis of_nat_unat ucast_id)
  moreover have "\<not> 65536 < unat off + 4 + length f" using off f by (simp add: ring_offset_def)
  moreover have "\<not> 4096 < length f" using f by simp
  ultimately show thesis
    by (intro that [of ?off] o) (unfold rx_packet_def Let_def len pl ring(1,3) sh, simp only: if_False simp_thms)
qed

lemma rx_drain_all:
  assumes "ring_offset (unat off)" and "length (shared_buf n) = 4096" and "ring_holds b (io_base n) d (unat off) fs"
  shows "\<exists>off' n' d' tr. rx_drain b off n d trace = Some (Inr (off', n', d', trace @ tr)) \<and> map frame_of tr = fs \<and>
    (\<forall>e\<in>set tr. msg_rdi (fst e) = MSG_NET_RX) \<and> ring_offset (unat off') \<and> length (shared_buf n') = 4096"
  using assms
proof (induction fs arbitrary: off n d trace)
  case Nil
  then show ?case by (subst rx_drain.simps) (auto simp: split_def Let_def)
next
  case (Cons f fs)
  obtain cmd d1 where c: "bus_in b (io_base n + REG_COMMAND) 1 d = (cmd, d1)" by fastforce
  let ?off = "ring_next (unat off) (length f)"
  let ?d2 = "bus_out b (io_base n + REG_CAPR) 2 (of_nat ?off - 16) d1"
  let ?n1 = "n\<lparr>shared_buf := put_at (shared_buf n) 0 f\<rparr>"
  let ?m = "short_message MSG_NET_RX (of_nat (length f))"
  from Cons.prems(3) c have h: "cmd AND 1 = 0" "length f \<le> 2000" "length (dma_view b d1) = 65536"
    "slice (dma_view b d1) (unat off + 2) 2 = word_le 2 (of_nat (length f + 4) :: u16)"
    "slice (dma_view b d1) (unat off + 4) (length f) = f" "ring_holds b (io_base n) ?d2 ?off fs"
    by (simp_all only: ring_holds.simps Let_def split)
  obtain off' where p: "rx_packet b off n d1 = Inr (off', ?n1, ?d2, ?m)" "unat off' = ?off"
    by (rule rx_packet_frame [OF Cons.prems(1,2) h(2-5)])
  have l: "length (shared_buf ?n1) = 4096" using Cons.prems(2) h(2) by simp
  have step: "rx_drain b off n d trace = rx_drain b off' ?n1 ?d2 (trace @ [(?m, shared_buf ?n1)])"
    using h(1) by (subst rx_drain.simps) (simp add: c p(1) Let_def)
  have "ring_offset (unat off')" unfolding p(2) by (rule ring_offset_next [OF Cons.prems(1)])
  moreover have "ring_holds b (io_base ?n1) ?d2 (unat off') fs" using h(6) by (simp add: p(2))
  moreover have "frame_of (?m, shared_buf ?n1) = f" "msg_rdi ?m = MSG_NET_RX"
    using h(2) by (simp_all add: frame_of_def short_message_def unat_of_nat put_at_def)
  ultimately show ?case
    using Cons.IH [of off' ?n1 ?d2 "trace @ [(?m, shared_buf ?n1)]"] l unfolding step
    by (auto intro!: exI [of _ "(?m, put_at (shared_buf n) 0 f) # tr" for tr])
qed


text \<open>A card with a queue of frames.\<close>

definition ring_image :: "bytes list \<times> nat \<Rightarrow> bytes" where
  "ring_image = (\<lambda>(q, off). case q of
     [] \<Rightarrow> replicate 65536 0
   | f # _ \<Rightarrow> take 65536 (replicate off 0 @ [1, 0] @ word_le 2 (of_nat (length f + 4) :: u16) @ f @ replicate 65536 0))"

definition sample_card :: "(bytes list \<times> nat) nic_bus" where
  "sample_card =
     \<lparr>bus_in = (\<lambda>port sz d. (if fst d = [] then 1 else 0, d)),
      bus_out = (\<lambda>port sz v (q, off). case q of [] \<Rightarrow> (q, off) | f # fs \<Rightarrow> (fs, ring_next off (length f))),
      bus_wait_irq = (\<lambda>d. d), dma_view = ring_image, dma_store = (\<lambda>_ _ d. d)\<rparr>"

lemma sample_card_holds:
  assumes "\<forall>f\<in>set fs. length f \<le> 2000" and "ring_offset off"
  shows "ring_holds sample_card base (fs, off) off fs"
  using assms
proof (induction fs arbitrary: off)
  case Nil
  then show ?case by (simp add: sample_card_def)
next
  case (Cons f fs)
  let ?h = "word_le 2 (of_nat (length f + 4) :: u16)"
  have o: "off < 8192" using Cons.prems(2) by (simp add: ring_offset_def)
  have f: "length f \<le> 2000" using Cons.prems(1) by simp
  have r: "dma_view sample_card (f # fs, off) = take 65536 (replicate off 0 @ [1, 0] @ ?h @ f @ replicate 65536 0)"
    by (simp only: sample_card_def nic_bus.select_convs ring_image_def prod.case list.case)
  have "length (dma_view sample_card (f # fs, off)) = 65536" unfolding r by (simp only: length_take length_append length_replicate)
  moreover have "slice (dma_view sample_card (f # fs, off)) (off + 2) 2 = ?h"
    unfolding r using o by (subst slice_take) (simp_all add: slice_def del: replicate.simps of_nat_add)
  moreover have "slice (dma_view sample_card (f # fs, off)) (off + 4) (length f) = f"
    unfolding r using o f by (subst slice_take) (simp_all add: slice_def del: replicate.simps of_nat_add)
  moreover have "bus_in sample_card (base + REG_COMMAND) 1 (f # fs, off) = (0, f # fs, off)"
    "bus_out sample_card p z v (f # fs, off) = (fs, ring_next off (length f))" for p z v
    by (simp_all add: sample_card_def)
  ultimately show ?case
    using Cons.IH [OF _ ring_offset_next [OF Cons.prems(2), of "length f"]] Cons.prems(1) f
    by (simp only: ring_holds.simps Let_def prod.case) simp
qed


section \<open>Other facts\<close>

text \<open>The hardware address arrives at the network service as the card reports it.\<close>

lemma mac_handed_over: "length mac = 6 \<Longrightarrow> mac_of (msg_rdx (mac_message mac)) = mac"
proof -
  assume "length mac = 6"
  then obtain a b c d e f where m: "mac = [a, b, c, d, e, f]"
    by (auto simp: eval_nat_numeral length_Suc_conv)
  define v where "v = push_bit 40 (ucast a) OR push_bit 32 (ucast b) OR push_bit 24 (ucast c) OR
    push_bit 16 (ucast d) OR push_bit 8 (ucast e) OR (ucast f :: u64)"
  have w: "word_le 6 v = [ucast v, ucast (drop_bit 8 v), ucast (drop_bit 16 v), ucast (drop_bit 24 v),
      ucast (drop_bit 32 v), ucast (drop_bit 40 v)]"
    by (simp add: eval_nat_numeral word_le_code)
  have "ucast v = f" "ucast (drop_bit 8 v) = e" "ucast (drop_bit 16 v) = d" "ucast (drop_bit 24 v) = c"
    "ucast (drop_bit 32 v) = b" "ucast (drop_bit 40 v) = a"
    unfolding v_def by (rule bit_word_eqI, auto simp: bit_simps dest: bit_imp_le_length)+
  moreover have "msg_rdx (mac_message mac) = v" by (simp add: mac_message_def m v_def)
  ultimately show ?thesis by (simp add: mac_of_def w m)
qed

text \<open>A length field below the four bytes of the CRC wraps around, and the driver is gone.\<close>

lemma rx_short_length_faults:
  assumes "le_word (slice (dma_view b d) (unat off + 2) 2) < (4 :: u16)" and "length (shared_buf n) = 4096"
  shows "rx_packet b off n d = Inl page_fault"
proof -
  let ?len = "le_word (slice (dma_view b d) (unat off + 2) 2) :: u16"
  have l: "unat ?len < 4" using assms(1) by (simp only: word_less_nat_alt) simp
  have "unat (?len - 4) = 65536 + unat ?len - 4"
    using l by (simp only: unat_sub_if' word_le_nat_alt) simp
  then have "4096 < unat (?len - 4)" by simp
  then show ?thesis unfolding rx_packet_def Let_def assms(2) by (simp only: simp_thms if_True)
qed

text \<open>The transmit thread uses the four descriptors in turn.\<close>

lemma tx_descriptor_cycles:
  assumes "tx_step b msg n d = Inr ((n', d'), out)" and "next_tx_desc n < 4"
  shows "next_tx_desc n' < 4" and "msg_rdi msg = MSG_NET_TX \<Longrightarrow> next_tx_desc n' = (next_tx_desc n + 1) mod 4"
proof -
  have "(next_tx_desc n + 1) mod 4 < 4" by (simp add: word_less_nat_alt unat_mod)
  then show "next_tx_desc n' < 4" and "msg_rdi msg = MSG_NET_TX \<Longrightarrow> next_tx_desc n' = (next_tx_desc n + 1) mod 4"
    using assms by (auto simp: tx_step_def Let_def split: if_splits)
qed

end
