(* ===== verification/Devices.thy ===== *)
theory Devices
  imports Syscall
begin

text \<open>
  The device code of the kernel: PCI configuration space (\<^verbatim>\<open>pci.rs\<close>), the ACPI tables
  (\<^verbatim>\<open>arch/x86_64/acpi.rs\<close>), the local APIC, the I/O APIC and the timer (\<^verbatim>\<open>apic.rs\<close>, \<^verbatim>\<open>ioapic.rs\<close>,
  \<^verbatim>\<open>timer.rs\<close>) and the order in which \<open>arch::init\<close> starts them. Port and register writes are events of
  the trace; what a port read returns is the parameter \<open>port_in\<close> of the machine, what a device
  register or the masks of the interrupt controller hold are the parameters \<open>mmio\<close> and \<open>masks\<close>, all
  functions of the trace.
\<close>

section \<open>PCI configuration space\<close>

definition PCI_CONFIG_ADDRESS :: u16 where "PCI_CONFIG_ADDRESS = 0xCF8"
definition PCI_CONFIG_DATA :: u16 where "PCI_CONFIG_DATA = 0xCFC"

definition pci_address :: "u8 \<Rightarrow> u8 \<Rightarrow> u8 \<Rightarrow> u8 \<Rightarrow> u32" where
  "pci_address bus slot func offset =
     0x80000000 OR push_bit 16 (ucast bus) OR push_bit 11 (ucast slot) OR push_bit 8 (ucast func) OR
     (ucast offset AND 0xFC)"

definition pci_config_read_dword ::
  "u8 \<Rightarrow> u8 \<Rightarrow> u8 \<Rightarrow> u8 \<Rightarrow> 'a machine_scheme \<Rightarrow> u32 \<times> 'a machine_scheme" where
  "pci_config_read_dword bus slot func offset k =
     (let k1 = io (Port_Write PCI_CONFIG_ADDRESS 4 (pci_address bus slot func offset)) k
      in (port_in k1 (io_trace k1) PCI_CONFIG_DATA 4, io (Port_Read PCI_CONFIG_DATA 4) k1))"

definition pci_config_write_dword ::
  "u8 \<Rightarrow> u8 \<Rightarrow> u8 \<Rightarrow> u8 \<Rightarrow> u32 \<Rightarrow> 'a machine_scheme \<Rightarrow> 'a machine_scheme" where
  "pci_config_write_dword bus slot func offset val k =
     io (Port_Write PCI_CONFIG_DATA 4 val)
       (io (Port_Write PCI_CONFIG_ADDRESS 4 (pci_address bus slot func offset)) k)"

record pci_device =
  pci_bus :: u8
  pci_slot :: u8
  pci_func :: u8
  vendor_id :: u16
  device_id :: u16
  bar0_base :: u32
  bar0_size :: u32
  bar0_is_io :: bool
  irq_line :: u8

definition bar_layout :: "u32 \<Rightarrow> u32 \<Rightarrow> u32 \<times> u32 \<times> bool" where
  "bar_layout bar0 raw =
     (if bar0 AND 1 = 1 then (bar0 AND NOT 3, NOT (raw AND NOT 3) + 1, True)
      else (bar0 AND NOT 0xF, NOT (raw AND NOT 0xF) + 1, False))"

definition probe_nic :: "u8 \<Rightarrow> u32 \<Rightarrow> u32 \<Rightarrow> 'a machine_scheme \<Rightarrow> pci_device \<times> 'a machine_scheme" where
  "probe_nic slot vendor device k =
     (let (bar0, k) = pci_config_read_dword 0 slot 0 0x10 k;
          k = pci_config_write_dword 0 slot 0 0x10 0xFFFFFFFF k;
          (raw, k) = pci_config_read_dword 0 slot 0 0x10 k;
          k = pci_config_write_dword 0 slot 0 0x10 bar0 k;
          (base, sz, is_io) = bar_layout bar0 raw;
          (intr, k) = pci_config_read_dword 0 slot 0 0x3C k;
          (command_reg, k) = pci_config_read_dword 0 slot 0 0x04 k;
          k = pci_config_write_dword 0 slot 0 0x04 (command_reg OR 0x0007) k
      in (\<lparr>pci_bus = 0, pci_slot = slot, pci_func = 0, vendor_id = ucast vendor, device_id = ucast device,
           bar0_base = base, bar0_size = sz, bar0_is_io = is_io, irq_line = ucast (intr AND 0xFF)\<rparr>, k))"

fun scan_slots :: "u8 list \<Rightarrow> 'a machine_scheme \<Rightarrow> pci_device option \<times> 'a machine_scheme" where
  "scan_slots [] k = (None, k)"
| "scan_slots (slot # rest) k =
     (let (v, k) = pci_config_read_dword 0 slot 0 0 k; vendor = v AND 0xFFFF
      in if vendor = 0xFFFF then scan_slots rest k
         else
           let (d, k) = pci_config_read_dword 0 slot 0 0 k; device = drop_bit 16 d AND 0xFFFF
           in if vendor = 0x10EC \<and> device = 0x8139
              then (let (dev, k) = probe_nic slot vendor device k in (Some dev, k))
              else scan_slots rest k)"

definition scan_bus_zero :: "'a machine_scheme \<Rightarrow> pci_device option \<times> 'a machine_scheme" where
  "scan_bus_zero k = scan_slots (map of_nat [0..<32]) k"

section \<open>ACPI tables\<close>

definition get8 :: "mem \<Rightarrow> u64 \<Rightarrow> u8" where "get8 m a = m a"
definition get32 :: "mem \<Rightarrow> u64 \<Rightarrow> u32" where "get32 m a = le_word (read_bytes m a 4)"
definition get64 :: "mem \<Rightarrow> u64 \<Rightarrow> u64" where "get64 m a = le_word (read_bytes m a 8)"

text \<open>Field offsets of the packed structures; the header of a table is 36 bytes, that of the MADT 44.\<close>

definition SDT_HEADER_SIZE :: u64 where "SDT_HEADER_SIZE = 36"
definition MADT_HEADER_SIZE :: u64 where "MADT_HEADER_SIZE = 44"
definition RSDP20_SIZE :: u64 where "RSDP20_SIZE = 36"

definition sdt_signature :: "mem \<Rightarrow> u64 \<Rightarrow> bytes" where "sdt_signature m a = read_bytes m a 4"
definition sdt_length :: "mem \<Rightarrow> u64 \<Rightarrow> u64" where "sdt_length m a = ucast (get32 m (a + 4))"

text \<open>The loop over the entries of the MADT: the addresses of the local and the I/O APIC.\<close>

definition madt_entry :: "mem \<Rightarrow> u64 \<Rightarrow> u64 \<times> u64 \<Rightarrow> u64 \<times> u64" where
  "madt_entry m entry_ptr = (\<lambda>(lapic, ioapic).
     let entry_type = get8 m entry_ptr
     in if entry_type = 1
        then (lapic, if ioapic = 0 then ucast (get32 m (entry_ptr + 4)) else ioapic)
        else if entry_type = 5 then (get64 m (entry_ptr + 4), ioapic)
        else (lapic, ioapic))"

partial_function (option) madt_loop :: "mem \<Rightarrow> u64 \<Rightarrow> u64 \<Rightarrow> u64 \<Rightarrow> u64 \<times> u64 \<Rightarrow> (u64 \<times> u64) option" where
  "madt_loop m madt_virt offset table_end s =
     (if offset < table_end
      then madt_loop m madt_virt (offset + ucast (get8 m (madt_virt + offset + 1))) table_end
             (madt_entry m (madt_virt + offset) s)
      else Some s)"

definition parse_madt :: "u64 \<Rightarrow> 'a machine_scheme \<Rightarrow> 'a machine_scheme option" where
  "parse_madt madt_virt k =
     (let m = kmem k; lapic = ucast (get32 m (madt_virt + 36)) :: u64; flags = get32 m (madt_virt + 40);
          k = (if flags AND 1 = 1 then io (Port_Write 0x23 1 0x01) (io (Port_Write 0x22 1 0x70) k) else k)
      in map_option (\<lambda>(lapic, ioapic). k\<lparr>lapic_addr := lapic, ioapic_addr := ioapic\<rparr>)
           (madt_loop m madt_virt MADT_HEADER_SIZE (sdt_length m madt_virt) (lapic, ioapic_addr k)))"

text \<open>The search for the MADT among the entries of the XSDT or RSDT.\<close>

fun find_madt :: "bool \<Rightarrow> u64 \<Rightarrow> nat list \<Rightarrow> 'a machine_scheme \<Rightarrow> panic + u64 \<times> 'a machine_scheme" where
  "find_madt is_xsdt entries_ptr [] k = Inr (0, k)"
| "find_madt is_xsdt entries_ptr (i # rest) k =
     (let entry_phys = (if is_xsdt then get64 (kmem k) (entries_ptr + of_nat (i * 8))
                        else ucast (get32 (kmem k) (entries_ptr + of_nat (i * 4))));
          entry_virt = entry_phys + hhdm_offset k
      in and_then (ensure_mapped entry_phys 4096 k) (\<lambda>k.
         and_then (ensure_mapped entry_phys (sdt_length (kmem k) entry_virt) k) (\<lambda>k.
         if sdt_signature (kmem k) entry_virt = [0x41, 0x50, 0x49, 0x43] then Inr (entry_virt, k)
         else find_madt is_xsdt entries_ptr rest k)))"

definition acpi_init :: "u64 \<Rightarrow> 'a machine_scheme \<Rightarrow> panic + 'a machine_scheme option" where
  "acpi_init rsdp_addr k =
     (let hhdm = hhdm_offset k;
          rsdp_virt = (if rsdp_addr < hhdm then rsdp_addr + hhdm else rsdp_addr);
          rsdp_phys = (if rsdp_addr < hhdm then rsdp_addr else rsdp_addr - hhdm)
      in and_then (ensure_mapped rsdp_phys RSDP20_SIZE k) (\<lambda>k.
         if read_bytes (kmem k) rsdp_virt 8 \<noteq> [0x52, 0x53, 0x44, 0x20, 0x50, 0x54, 0x52, 0x20] then Inr (Some k)
         else
           let new_rev = 2 \<le> get8 (kmem k) (rsdp_virt + 15);
               xsdt_addr = (if new_rev then get64 (kmem k) (rsdp_virt + 24) else 0);
               rsdt_addr = (if new_rev then 0 else ucast (get32 (kmem k) (rsdp_virt + 16)));
               is_xsdt = xsdt_addr \<noteq> 0; sdt_addr = (if is_xsdt then xsdt_addr else rsdt_addr)
           in and_then (ensure_mapped sdt_addr 4096 k) (\<lambda>k.
              let sdt_virt = sdt_addr + hhdm; len = sdt_length (kmem k) sdt_virt
              in and_then (ensure_mapped sdt_addr len k) (\<lambda>k.
                 let entries_count = (len - SDT_HEADER_SIZE) div (if is_xsdt then 8 else 4)
                 in and_then (find_madt is_xsdt (sdt_virt + SDT_HEADER_SIZE) [0..<unat entries_count] k) (\<lambda>(madt_virt, k).
                    if madt_virt \<noteq> 0 then Inr (parse_madt madt_virt k) else Inr (Some k))))))"

section \<open>The timer chip and the interrupt controllers\<close>

definition kport_in :: "u16 \<Rightarrow> 'a machine_scheme \<Rightarrow> u8 \<times> 'a machine_scheme" where
  "kport_in port k = (ucast (port_in k (io_trace k) port 1), io (Port_Read port 1) k)"

definition kport_out :: "u16 \<Rightarrow> u8 \<Rightarrow> 'a machine_scheme \<Rightarrow> 'a machine_scheme" where
  "kport_out port v k = io (Port_Write port 1 (ucast v)) k"

type_synonym pic_masks = "io_event list \<Rightarrow> u8 \<times> u8"

definition timer_init :: "pic_masks \<Rightarrow> 'a machine_scheme \<Rightarrow> 'a machine_scheme" where
  "timer_init masks k = (let (master, slave) = masks (io_trace k) in io (Pic_Write_Masks (master AND NOT 1) slave) k)"

definition disable_pit_interrupts :: "pic_masks \<Rightarrow> 'a machine_scheme \<Rightarrow> 'a machine_scheme" where
  "disable_pit_interrupts masks k =
     (let (master, slave) = masks (io_trace k) in io (Pic_Write_Masks (master OR 1) slave) k)"

definition interrupts_init :: "'a machine_scheme \<Rightarrow> 'a machine_scheme" where
  "interrupts_init k = io Pic_Initialize k"

definition disable_pic :: "'a machine_scheme \<Rightarrow> 'a machine_scheme" where
  "disable_pic k = io (Pic_Write_Masks 0xFF 0xFF) k"

partial_function (option) pit_poll :: "'a machine_scheme \<Rightarrow> 'a machine_scheme option" where
  "pit_poll k = (let (v, k1) = kport_in 0x61 k in if v AND 0x20 = 0 then pit_poll k1 else Some k1)"

definition pit_wait_10ms :: "'a machine_scheme \<Rightarrow> 'a machine_scheme option" where
  "pit_wait_10ms k =
     (let (prev, k) = kport_in 0x61 k;
          k = kport_out 0x61 (prev AND 0xFC) k;
          k = kport_out 0x43 0xB0 k;
          k = kport_out 0x42 (11931 AND 0xFF) k;
          k = kport_out 0x42 (ucast (drop_bit 8 (11931 :: u32) AND 0xFF)) k;
          (prev, k) = kport_in 0x61 k;
          k = kport_out 0x61 ((prev AND 0xFE) OR 1) k
      in pit_poll k)"

type_synonym mmio = "io_event list \<Rightarrow> u64 \<Rightarrow> u32"

definition mmio_write :: "u64 \<Rightarrow> u32 \<Rightarrow> 'a machine_scheme \<Rightarrow> 'a machine_scheme" where
  "mmio_write a v k = io (Mmio_Write a v) k"

section \<open>The local APIC\<close>

definition apic_init :: "'a machine_scheme \<Rightarrow> panic + 'a machine_scheme" where
  "apic_init k =
     (if lapic_addr k = 0 then Inr k
      else
        let lapic_virt = lapic_addr k + hhdm_offset k
        in and_then (ensure_mapped (lapic_addr k) 4096 k) (\<lambda>k.
           Inr (mmio_write (lapic_virt + 0x80) 0 (mmio_write (lapic_virt + 0xF0) 0x1FF k))))"

definition calibrate_timer :: "mmio \<Rightarrow> pic_masks \<Rightarrow> 'a machine_scheme \<Rightarrow> 'a machine_scheme option" where
  "calibrate_timer mmio masks k =
     (if lapic_addr k = 0 then Some k
      else
        let v = lapic_addr k + hhdm_offset k;
            k = mmio_write (v + 0x320) 0x10000 k;
            k = mmio_write (v + 0x3E0) 0x03 k;
            k = mmio_write (v + 0x380) 0xFFFFFFFF k
        in map_option (\<lambda>k.
             let k = mmio_write (v + 0x320) 0x10000 k;
                 count = mmio (io_trace k) (v + 0x390);
                 ticks_in_10ms = 0xFFFFFFFF - count;
                 k = disable_pit_interrupts masks k;
                 k = mmio_write (v + 0x320) (32 OR 0x20000) k
             in mmio_write (v + 0x380) ticks_in_10ms k) (pit_wait_10ms k))"

section \<open>The I/O APIC\<close>

definition ioapic_read :: "mmio \<Rightarrow> u64 \<Rightarrow> u8 \<Rightarrow> 'a machine_scheme \<Rightarrow> u32 \<times> 'a machine_scheme" where
  "ioapic_read mmio virt reg k =
     (let k1 = mmio_write virt (ucast reg) k in (mmio (io_trace k1) (virt + 0x10), k1))"

definition ioapic_write :: "u64 \<Rightarrow> u8 \<Rightarrow> u32 \<Rightarrow> 'a machine_scheme \<Rightarrow> 'a machine_scheme" where
  "ioapic_write virt reg val k = mmio_write (virt + 0x10) val (mmio_write virt (ucast reg) k)"

definition mask_entry :: "u64 \<Rightarrow> 'a machine_scheme \<Rightarrow> nat \<Rightarrow> 'a machine_scheme" where
  "mask_entry virt k i =
     (let reg = 0x10 + of_nat (i * 2) in ioapic_write virt (reg + 1) 0 (ioapic_write virt reg 0x10000 k))"

definition ioapic_init :: "mmio \<Rightarrow> 'a machine_scheme \<Rightarrow> panic + 'a machine_scheme" where
  "ioapic_init mmio k =
     (if ioapic_addr k = 0 then Inr k
      else
        let virt = ioapic_addr k + hhdm_offset k
        in and_then (ensure_mapped (ioapic_addr k) 4096 k) (\<lambda>k.
           let (ver, k) = ioapic_read mmio virt 0x01 k; max_intr = drop_bit 16 ver AND 0xFF
           in Inr (foldl (mask_entry virt) k [0..<unat max_intr + 1])))"

definition route_irq :: "mmio \<Rightarrow> u8 \<Rightarrow> u8 \<Rightarrow> u8 \<Rightarrow> 'a machine_scheme \<Rightarrow> 'a machine_scheme" where
  "route_irq mmio irq vector apic_id k =
     (if ioapic_addr k = 0 then k
      else
        let virt = ioapic_addr k + hhdm_offset k; reg = 0x10 + irq * 2;
            low = ucast vector; high = push_bit 24 (ucast apic_id);
            k = ioapic_write virt (reg + 1) high k;
            k = ioapic_write virt reg low k;
            k = snd (ioapic_read mmio virt reg k)
        in snd (ioapic_read mmio virt (reg + 1) k))"

section \<open>Start-up order\<close>

text \<open>\<open>arch::init\<close> after the GDT, the per-processor block and the IDT have been loaded. \<open>None\<close> is a start-up that hangs.\<close>

definition arch_init :: "mmio \<Rightarrow> pic_masks \<Rightarrow> u64 \<Rightarrow> 'a machine_scheme \<Rightarrow> panic + 'a machine_scheme option" where
  "arch_init mmio masks rsdp_addr k =
     and_then
       (if rsdp_addr \<noteq> 0
        then and_then (acpi_init rsdp_addr k) (\<lambda>r. case r of
               None \<Rightarrow> Inr None
             | Some k \<Rightarrow> and_then (apic_init k) (\<lambda>k. and_then (ioapic_init mmio k) (\<lambda>k. Inr (Some k))))
        else Inr (Some k))
       (\<lambda>r. case r of
          None \<Rightarrow> Inr None
        | Some k \<Rightarrow>
            let k = timer_init masks (interrupts_init k)
            in if rsdp_addr \<noteq> 0
               then Inr (map_option (\<lambda>k. route_irq mmio 14 46 0 (route_irq mmio 1 33 0 (disable_pic k)))
                      (calibrate_timer mmio masks k))
               else Inr (Some k))"

end
