(* ===== verification/Device_Correctness.thy ===== *)
theory Device_Correctness
  imports Devices Sample_Machine
begin

text \<open>
  What the device code computes: the scan of the MADT terminates and finds the interrupt
  controllers on every well-formed table, and hangs on an entry of length zero; the PCI scan finds
  the network card and sizes its window without disturbing it.
\<close>

section \<open>The MADT\<close>

text \<open>An entry is its type and what follows the two-byte header; the length byte counts the header.\<close>

definition entry_bytes :: "u8 \<times> bytes \<Rightarrow> bytes" where
  "entry_bytes e = [fst e, of_nat (length (snd e) + 2)] @ snd e"

definition wf_entry :: "u8 \<times> bytes \<Rightarrow> bool" where
  "wf_entry e \<longleftrightarrow> length (snd e) \<le> 253 \<and> (fst e = 1 \<longrightarrow> 6 \<le> length (snd e)) \<and> (fst e = 5 \<longrightarrow> 10 \<le> length (snd e))"

definition note_entry :: "u8 \<times> bytes \<Rightarrow> u64 \<times> u64 \<Rightarrow> u64 \<times> u64" where
  "note_entry e = (\<lambda>(lapic, ioapic).
     if fst e = 1 then (lapic, if ioapic = 0 then ucast (le_word (slice (snd e) 2 4) :: u32) else ioapic)
     else if fst e = 5 then (le_word (slice (snd e) 2 8), ioapic)
     else (lapic, ioapic))"

definition table_bytes :: "(u8 \<times> bytes) list \<Rightarrow> bytes" where
  "table_bytes es = concat (map entry_bytes es)"

lemma length_entry_bytes [simp]: "length (entry_bytes e) = length (snd e) + 2"
  by (simp add: entry_bytes_def)

lemma table_bytes_simps [simp]:
  "table_bytes [] = []" "table_bytes (e # es) = entry_bytes e @ table_bytes es"
  by (simp_all add: table_bytes_def)

lemma read_bytes_append:
  "read_bytes m p (a + b) = read_bytes m p a @ read_bytes m (p + of_nat a) b"
  by (rule nth_equalityI) (auto simp: nth_append add.assoc simp flip: of_nat_add)

lemma madt_entry_note:
  assumes "read_bytes m p (length (entry_bytes e)) = entry_bytes e" and wf: "wf_entry e"
  shows "madt_entry m p s = note_entry e s" and "ucast (get8 m (p + 1)) = (of_nat (length (snd e) + 2) :: u64)"
proof -
  let ?n = "length (entry_bytes e)"
  have at: "m (p + of_nat i) = entry_bytes e ! i" if "i < ?n" for i
    using arg_cong [OF assms(1), of "\<lambda>l. l ! i"] that by simp
  have t: "m p = fst e" using at [of 0] by (simp add: entry_bytes_def)
  have l: "m (p + 1) = of_nat (length (snd e) + 2)" using at [of 1] by (simp add: entry_bytes_def)
  have f: "read_bytes m (p + 4) k = slice (snd e) 2 k" if "k + 4 \<le> ?n" for k
  proof -
    have "read_bytes m (p + 4) k = slice (read_bytes m p ?n) 4 k"
      using slice_read_bytes [of 4 k ?n m p] that by (simp add: add.commute)
    also have "\<dots> = slice (snd e) 2 k" by (simp only: assms(1)) (simp add: entry_bytes_def slice_def)
    finally show ?thesis .
  qed
  show "madt_entry m p s = note_entry e s"
    using wf by (auto simp: madt_entry_def note_entry_def get8_def get32_def get64_def t f wf_entry_def split: prod.splits)
  have "length (snd e) + 2 < 256" using wf by (simp add: wf_entry_def)
  moreover have "ucast (of_nat n :: u8) = (of_nat n :: u64)" if "n < 256" for n
    using that by (simp add: word_unat_eq_iff unsigned_ucast_eq unat_of_nat take_bit_nat_eq_self)
  ultimately show "ucast (get8 m (p + 1)) = (of_nat (length (snd e) + 2) :: u64)" by (simp only: get8_def l)
qed

lemma madt_loop_entries:
  assumes "\<forall>e\<in>set es. wf_entry e" and "read_bytes m (v + off) (length (table_bytes es)) = table_bytes es"
    and "unat off + length (table_bytes es) < 2 ^ 64"
  shows "madt_loop m v off (off + of_nat (length (table_bytes es))) s = Some (fold note_entry es s)"
  using assms
proof (induction es arbitrary: off s)
  case Nil
  then show ?case by (subst madt_loop.simps) simp
next
  case (Cons e es)
  let ?n = "length (entry_bytes e)" and ?rest = "length (table_bytes es)"
  have e: "wf_entry e" using Cons.prems(1) by simp
  have split: "read_bytes m (v + off) ?n = entry_bytes e" "read_bytes m (v + off + of_nat ?n) ?rest = table_bytes es"
  proof -
    have "read_bytes m (v + off) ?n @ read_bytes m (v + off + of_nat ?n) ?rest = entry_bytes e @ table_bytes es"
      using Cons.prems(2) by (simp only: table_bytes_simps length_append read_bytes_append)
    then show "read_bytes m (v + off) ?n = entry_bytes e" "read_bytes m (v + off + of_nat ?n) ?rest = table_bytes es"
      by (simp_all only: append_eq_append_conv length_read_bytes simp_thms)
  qed
  note step = madt_entry_note [OF split(1) e]
  have n: "unat (of_nat ?n :: u64) = ?n" by (subst unat_of_nat) (use Cons.prems(3) in simp)
  have t: "unat (of_nat (length (table_bytes (e # es))) :: u64) = length (table_bytes (e # es))"
    by (subst unat_of_nat) (use Cons.prems(3) in simp)
  have o: "unat (off + of_nat ?n) = unat off + ?n"
    using Cons.prems(3) by (subst unat_add_no_wrap) (simp_all only: n, simp)
  have stop: "off + of_nat (length (table_bytes (e # es))) = off + of_nat ?n + of_nat ?rest"
    by (simp add: add.assoc)
  have le: "unat (off + of_nat (length (table_bytes (e # es)))) = unat off + length (table_bytes (e # es))"
    using Cons.prems(3) by (subst unat_add_no_wrap) (simp_all only: t)
  have "off < off + of_nat (length (table_bytes (e # es)))"
    by (simp only: word_less_nat_alt le) simp
  moreover have "off + ucast (get8 m (v + off + 1)) = off + of_nat ?n" by (simp only: step(2) length_entry_bytes)
  ultimately have "madt_loop m v off (off + of_nat (length (table_bytes (e # es)))) s =
      madt_loop m v (off + of_nat ?n) (off + of_nat ?n + of_nat ?rest) (note_entry e s)"
    by (subst madt_loop.simps) (simp only: if_True stop step(1))
  also have "\<dots> = Some (fold note_entry es (note_entry e s))"
    by (rule Cons.IH) (use Cons.prems split(2) o in \<open>simp_all add: add.assoc\<close>)
  finally show ?case by simp
qed

text \<open>
  C30: On every well-formed MADT the scan terminates: the local APIC address is that of the table or
  of the last override entry, the I/O APIC is the first one listed unless one was known before,
  and nothing is skipped or read twice.
\<close>

theorem madt_parsed:
  assumes "\<forall>e\<in>set es. wf_entry e" and "read_bytes (kmem k) (v + 44) (length (table_bytes es)) = table_bytes es"
    and "sdt_length (kmem k) v = 44 + of_nat (length (table_bytes es))" and "length (table_bytes es) < 2 ^ 32"
  shows "\<exists>k'. parse_madt v k = Some k' \<and> (lapic_addr k', ioapic_addr k') =
    fold note_entry es (ucast (get32 (kmem k) (v + 36)), ioapic_addr k)"
proof -
  have "madt_loop (kmem k) v 44 (44 + of_nat (length (table_bytes es))) s = Some (fold note_entry es s)" for s
    by (rule madt_loop_entries) (use assms in simp_all)
  then show ?thesis
    by (auto simp: parse_madt_def Let_def MADT_HEADER_SIZE_def assms(3) io_def split: prod.splits)
qed

definition sample_entries :: "(u8 \<times> bytes) list" where
  "sample_entries =
     [(0, [0, 0, 1, 0, 0, 0]), (1, [2, 0] @ word_le 4 (0xFEC00000 :: u32) @ [0, 0, 0, 0]),
      (5, [0, 0] @ word_le 8 (0xFEE00000 :: u64))]"

definition sample_madt :: bytes where
  "sample_madt = [0x41, 0x50, 0x49, 0x43] @ word_le 4 (44 + 32 :: u32) @ replicate 28 0 @
     word_le 4 (0xFEE01000 :: u32) @ word_le 4 (1 :: u32) @ table_bytes sample_entries"

definition madt_machine :: machine where
  "madt_machine = sample_machine\<lparr>kmem := copy_bytes (\<lambda>_. 0) 0xFFFF800000020000 sample_madt\<rparr>"

theorem madt_parsed_witness:
  "\<exists>k'. parse_madt 0xFFFF800000020000 madt_machine = Some k' \<and>
    (lapic_addr k', ioapic_addr k') = (0xFEE00000, 0xFEC00000)"
proof -
  have wf: "\<forall>e\<in>set sample_entries. wf_entry e" by code_simp
  let ?v = "0xFFFF800000020000 :: u64"
  have len: "length sample_madt = 76" by code_simp
  have "read_bytes (kmem madt_machine) ?v (length sample_madt) = sample_madt"
  proof -
    have "kmem madt_machine = copy_bytes (\<lambda>_. 0) ?v sample_madt" by (simp add: madt_machine_def)
    then show ?thesis using read_copy_bytes [of sample_madt "\<lambda>_. 0" ?v] by (simp add: len)
  qed
  then have part: "read_bytes (kmem madt_machine) (?v + of_nat i) j = slice sample_madt i j" if "i + j \<le> 76" for i j
    using slice_read_bytes [of i j 76 "kmem madt_machine" ?v] that by (simp add: len)
  have m: "read_bytes (kmem madt_machine) (?v + 44) (length (table_bytes sample_entries)) = table_bytes sample_entries"
  proof -
    have "slice sample_madt 44 32 = table_bytes sample_entries" "length (table_bytes sample_entries) = 32" by code_simp+
    then show ?thesis using part [of 44 32] by simp
  qed
  have g: "get32 (kmem madt_machine) (?v + 4) = 76" "get32 (kmem madt_machine) (?v + 36) = 0xFEE01000"
  proof -
    have "le_word (slice sample_madt 4 4) = (76 :: u32)" "le_word (slice sample_madt 36 4) = (0xFEE01000 :: u32)"
      by code_simp+
    then show "get32 (kmem madt_machine) (?v + 4) = 76" "get32 (kmem madt_machine) (?v + 36) = 0xFEE01000"
      using part [of 4 4] part [of 36 4] by (simp_all add: get32_def)
  qed
  have l: "sdt_length (kmem madt_machine) ?v = 44 + of_nat (length (table_bytes sample_entries))"
  proof -
    have "(44 + of_nat (length (table_bytes sample_entries)) :: u64) = 76" by code_simp
    then show ?thesis using g(1) by (simp add: sdt_length_def)
  qed
  have n: "length (table_bytes sample_entries) < 2 ^ 32" by (simp add: sample_entries_def)
  have "fold note_entry sample_entries (0xFEE01000, 0) = (0xFEE00000, 0xFEC00000)" by code_simp
  moreover have "ioapic_addr madt_machine = 0" by (simp add: madt_machine_def sample_machine_def)
  ultimately have f: "fold note_entry sample_entries (ucast (get32 (kmem madt_machine) (?v + 36)), ioapic_addr madt_machine) =
      (0xFEE00000, 0xFEC00000)" using g(2) by simp
  from madt_parsed [OF wf m l n] show ?thesis unfolding f .
qed

text \<open>An entry whose length byte is zero is read again and again: the kernel never finishes booting.\<close>

lemma madt_zero_length_hangs:
  assumes "off < table_end" and "get8 m (v + off + 1) = 0"
  shows "madt_loop m v off table_end s = None"
proof (rule ccontr)
  assume "madt_loop m v off table_end s \<noteq> None"
  then obtain y where "madt_loop m v off table_end s = Some y" by blast
  then have "\<not> (off < table_end \<and> get8 m (v + off + 1) = 0)"
  proof (rule madt_loop.raw_induct [rotated, where P = "\<lambda>m v off table_end s y. \<not> (off < table_end \<and> get8 m (v + off + 1) = 0)"])
    fix f :: "mem \<Rightarrow> u64 \<Rightarrow> u64 \<Rightarrow> u64 \<Rightarrow> u64 \<times> u64 \<Rightarrow> (u64 \<times> u64) option" and m v off table_end s y
    assume IH: "\<And>m v off table_end s y. f m v off table_end s = Some y \<Longrightarrow> \<not> (off < table_end \<and> get8 m (v + off + 1) = 0)"
      and body: "(if off < table_end then f m v (off + ucast (get8 m (v + off + 1))) table_end (madt_entry m (v + off) s)
        else Some s) = Some y"
    show "\<not> (off < table_end \<and> get8 m (v + off + 1) = 0)"
    proof
      assume c: "off < table_end \<and> get8 m (v + off + 1) = 0"
      with body have "f m v off table_end (madt_entry m (v + off) s) = Some y" by simp
      from IH [OF this] c show False by blast
    qed
  qed
  with assms show False by blast
qed

section \<open>The PCI scan\<close>

text \<open>
  Configuration mechanism 1 of the PCI standard: the address port selects a register, the data port
  reads and writes it. \<open>writable\<close> are the bits of a register that a write can change; a base
  address register of size \<open>2 ^ n\<close> has its low \<open>n\<close> bits fixed.
\<close>

type_synonym pci_regs = "u32 \<times> (u32 \<Rightarrow> u32)"

fun pci_event :: "(u32 \<Rightarrow> u32) \<Rightarrow> pci_regs \<Rightarrow> io_event \<Rightarrow> pci_regs" where
  "pci_event writable (a, r) (Port_Write port w v) =
     (if port = 0xCF8 \<and> w = 4 then (v, r)
      else if port = 0xCFC \<and> w = 4 then (a, r(a := (v AND writable a) OR (r a AND NOT (writable a))))
      else (a, r))"
| "pci_event writable (a, r) _ = (a, r)"

definition pci_state :: "(u32 \<Rightarrow> u32) \<Rightarrow> (u32 \<Rightarrow> u32) \<Rightarrow> io_event list \<Rightarrow> pci_regs" where
  "pci_state writable r0 trace = foldl (pci_event writable) (0, r0) trace"

definition pci_mechanism :: "'a machine_scheme \<Rightarrow> (u32 \<Rightarrow> u32) \<Rightarrow> (u32 \<Rightarrow> u32) \<Rightarrow> bool" where
  "pci_mechanism k writable r0 \<longleftrightarrow>
     (\<forall>trace. port_in k trace 0xCFC 4 = (case pci_state writable r0 trace of (a, r) \<Rightarrow> r a))"

definition pci_view :: "(u32 \<Rightarrow> u32) \<Rightarrow> (u32 \<Rightarrow> u32) \<Rightarrow> 'a machine_scheme \<Rightarrow> u32 \<Rightarrow> u32" where
  "pci_view writable r0 k = snd (pci_state writable r0 (io_trace k))"

lemma pci_read:
  assumes "pci_mechanism k writable r0" and "pci_config_read_dword b s f off k = (v, k')"
  shows "v = pci_view writable r0 k (pci_address b s f off)" and "pci_view writable r0 k' = pci_view writable r0 k"
    and "pci_mechanism k' writable r0"
proof -
  obtain a r where "foldl (pci_event writable) (0, r0) (io_trace k) = (a, r)" by fastforce
  then show "v = pci_view writable r0 k (pci_address b s f off)" "pci_view writable r0 k' = pci_view writable r0 k"
    "pci_mechanism k' writable r0"
    using assms by (auto simp: pci_config_read_dword_def Let_def io_def PCI_CONFIG_ADDRESS_def PCI_CONFIG_DATA_def
        pci_mechanism_def pci_state_def pci_view_def)
qed

lemma pci_write:
  assumes "pci_mechanism k writable r0" and a_def: "a = pci_address b s f off"
  shows "pci_view writable r0 (pci_config_write_dword b s f off v k) =
      (pci_view writable r0 k)(a := (v AND writable a) OR (pci_view writable r0 k a AND NOT (writable a)))"
    and "pci_mechanism (pci_config_write_dword b s f off v k) writable r0"
proof -
  obtain x r where "foldl (pci_event writable) (0, r0) (io_trace k) = (x, r)" by fastforce
  then show "pci_view writable r0 (pci_config_write_dword b s f off v k) =
      (pci_view writable r0 k)(a := (v AND writable a) OR (pci_view writable r0 k a AND NOT (writable a)))"
    "pci_mechanism (pci_config_write_dword b s f off v k) writable r0"
    using assms(1) unfolding a_def
    by (auto simp: pci_config_write_dword_def io_def PCI_CONFIG_ADDRESS_def PCI_CONFIG_DATA_def
        pci_mechanism_def pci_state_def pci_view_def)
qed

text \<open>Sizing an I/O window of \<open>2 ^ n\<close> ports: the bits that stick when all ones are written give its size.\<close>

lemma bar_sizing:
  assumes "2 \<le> n" "n < 32" and "bar AND NOT (NOT (mask n)) = 1"
  shows "bar_layout bar ((0xFFFFFFFF AND NOT (mask n)) OR (bar AND NOT (NOT (mask n)))) = (bar - 1, 2 ^ n, True)"
proof -
  have low: "bar AND mask n = 1" using assms(3) by simp
  have m3: "(3 :: u32) = mask 2" by (simp add: mask_eq_exp_minus_1)
  have bits: "bit bar i \<longleftrightarrow> i = 0" if "i < n" for i
  proof -
    have "bit (bar AND mask n) i \<longleftrightarrow> bit bar i" using that assms(2) by (auto simp: bit_simps)
    moreover have "bit (1 :: u32) i \<longleftrightarrow> i = 0" by (simp add: bit_1_iff)
    ultimately show ?thesis using low by metis
  qed
  have one: "bar AND 1 = 1" using bits [of 0] assms(1) by (auto intro!: bit_word_eqI simp: bit_simps bit_1_iff)
  have base: "bar AND NOT 3 = bar - 1"
  proof -
    have "(bar AND NOT 3) OR 1 = bar"
      unfolding m3 using bits assms(1) by (auto intro!: bit_word_eqI simp: bit_simps bit_1_iff)
    moreover have "(bar AND NOT 3) + 1 = (bar AND NOT 3) OR 1"
      unfolding m3 by (rule disjunctive_add_eq_or) (auto intro!: bit_word_eqI simp: bit_simps bit_1_iff)
    ultimately show ?thesis by (simp add: eq_diff_eq)
  qed
  have all: "(0xFFFFFFFF :: u32) = NOT 0" by simp
  have "((0xFFFFFFFF AND NOT (mask n)) OR (bar AND NOT (NOT (mask n)))) AND NOT 3 = NOT (mask n)"
    unfolding assms(3) all m3 using assms(1) by (auto intro!: bit_word_eqI simp: bit_simps bit_1_iff)
  moreover have "NOT (NOT (mask n)) + 1 = (2 ^ n :: u32)" by (simp add: mask_eq_exp_minus_1)
  ultimately show ?thesis using one base by (simp add: bar_layout_def)
qed

lemma pci_address_offset:
  assumes "off AND 0xFC = off" and "off' AND 0xFC = off'" and "off \<noteq> off'"
  shows "pci_address 0 s 0 off \<noteq> pci_address 0 s 0 off'"
proof -
  have low: "ucast (pci_address 0 s 0 off) = off AND (0xFC :: u8)" for off
  proof -
    define c where "c = (0x80000000 :: u32)"
    have e: "c = 2 ^ 31" by (simp add: c_def)
    have c: "bit c n \<longleftrightarrow> n = 31" for n by (simp only: e bit_exp_iff possible_bit_word) auto
    have "ucast (c OR push_bit 11 (ucast s) OR (ucast off AND ucast (0xFC :: u8)) :: u32) = off AND (0xFC :: u8)"
    proof -
      define e where "e = (0xFC :: u8)"
      have "ucast (c OR push_bit 11 (ucast s) OR (ucast off AND ucast e) :: u32) = off AND e"
        by (rule bit_word_eqI) (auto simp: bit_simps c)
      then show ?thesis by (simp only: e_def)
    qed
    then show ?thesis by (simp add: pci_address_def c_def)
  qed
  show ?thesis using low [of off] low [of off'] assms by metis
qed

lemma nic_id:
  "v AND 0xFFFF = 0x10EC \<and> drop_bit 16 v AND 0xFFFF = 0x8139 \<longleftrightarrow> v = (0x813910EC :: u32)"
proof
  assume h: "v AND 0xFFFF = 0x10EC \<and> drop_bit 16 v AND 0xFFFF = 0x8139"
  have "v = push_bit 16 (drop_bit 16 v AND mask 16) OR (v AND mask 16)"
    by (auto intro!: bit_word_eqI simp: bit_simps)
  moreover have "(0xFFFF :: u32) = mask 16" by (simp add: mask_eq_exp_minus_1)
  ultimately have "v = push_bit 16 0x8139 OR 0x10EC" using h by metis
  then show "v = 0x813910EC" by simp
qed simp

lemma probe_nic_sizes:
  assumes mech: "pci_mechanism k writable r0" and n: "2 \<le> n" "n < 32"
    and w: "writable (pci_address 0 s 0 0x10) = NOT (mask n)"
    and bar: "pci_view writable r0 k (pci_address 0 s 0 0x10) = bar" "bar AND mask n = 1"
  defines "cmd \<equiv> pci_address 0 s 0 0x04"
  obtains dev k' where "probe_nic s v d k = (dev, k')" "pci_slot dev = s" "bar0_base dev = bar - 1"
    "bar0_size dev = 2 ^ n" "bar0_is_io dev"
    "irq_line dev = ucast (pci_view writable r0 k (pci_address 0 s 0 0x3C) AND 0xFF)"
    "pci_view writable r0 k' = (pci_view writable r0 k)(cmd :=
       ((pci_view writable r0 k cmd OR 7) AND writable cmd) OR (pci_view writable r0 k cmd AND NOT (writable cmd)))"
proof -
  let ?A = "pci_address 0 s 0"
  let ?V = "pci_view writable r0"
  have ne: "?A 0x10 \<noteq> ?A 0x04" "?A 0x10 \<noteq> ?A 0x3C" "?A 0x04 \<noteq> ?A 0x3C"
    by (rule pci_address_offset; simp)+
  obtain b0 k1 where r1: "pci_config_read_dword 0 s 0 0x10 k = (b0, k1)" by fastforce
  note p1 = pci_read [OF mech r1]
  let ?k2 = "pci_config_write_dword 0 s 0 0x10 0xFFFFFFFF k1"
  note p2 = pci_write [OF p1(3) refl, of 0 s 0 "0x10" "0xFFFFFFFF"]
  obtain raw k3 where r3: "pci_config_read_dword 0 s 0 0x10 ?k2 = (raw, k3)" by fastforce
  note p3 = pci_read [OF p2(2) r3]
  let ?k4 = "pci_config_write_dword 0 s 0 0x10 b0 k3"
  note p4 = pci_write [OF p3(3) refl, of 0 s 0 "0x10" b0]
  obtain intr k5 where r5: "pci_config_read_dword 0 s 0 0x3C ?k4 = (intr, k5)" by fastforce
  note p5 = pci_read [OF p4(2) r5]
  obtain c k6 where r6: "pci_config_read_dword 0 s 0 0x04 k5 = (c, k6)" by fastforce
  note p6 = pci_read [OF p5(3) r6]
  note p7 = pci_write [OF p6(3) refl, of 0 s 0 "0x04" "c OR 7"]
  have b0: "b0 = bar" using p1(1) bar(1) by simp
  have raw: "raw = (0xFFFFFFFF AND NOT (mask n)) OR (bar AND NOT (NOT (mask n)))"
    using p3(1) by (simp add: p2(1) p1(2) w bar(1))
  have "(bar AND NOT (mask n)) OR (((0xFFFFFFFF AND NOT (mask n)) OR (bar AND mask n)) AND mask n) = bar"
    by (rule bit_word_eqI) (auto simp: bit_simps)
  then have v4: "?V ?k4 = ?V k"
    unfolding p4(1) p3(2) p2(1) p1(2) by (simp add: w b0 bar(1) fun_eq_iff)
  have "bar_layout b0 raw = (bar - 1, 2 ^ n, True)"
    unfolding b0 raw by (rule bar_sizing [OF n]) (use bar(2) in simp)
  then have run: "probe_nic s v d k = (\<lparr>pci_bus = 0, pci_slot = s, pci_func = 0, vendor_id = ucast v, device_id = ucast d,
      bar0_base = bar - 1, bar0_size = 2 ^ n, bar0_is_io = True, irq_line = ucast (intr AND 0xFF)\<rparr>,
      pci_config_write_dword 0 s 0 0x04 (c OR 7) k6)"
    by (simp add: probe_nic_def r1 r3 r5 r6)
  have "?V (pci_config_write_dword 0 s 0 0x04 (c OR 7) k6) =
      (?V k)(cmd := ((?V k cmd OR 7) AND writable cmd) OR (?V k cmd AND NOT (writable cmd)))"
    using p6(1) unfolding p7(1) p6(2) p5(2) v4 cmd_def by simp
  moreover have "intr = ?V k (?A 0x3C)" using p5(1) by (simp add: v4)
  ultimately show thesis using that [OF run] by simp
qed

lemma scan_slots_finds:
  assumes "pci_mechanism k writable r0" and "\<forall>t\<in>set xs. pci_view writable r0 k (pci_address 0 t 0 0) \<noteq> 0x813910EC"
    and "pci_view writable r0 k (pci_address 0 s 0 0) = 0x813910EC"
  shows "\<exists>k1. scan_slots (xs @ s # ys) k = (let (dev, k2) = probe_nic s 0x10EC 0x8139 k1 in (Some dev, k2)) \<and>
    pci_mechanism k1 writable r0 \<and> pci_view writable r0 k1 = pci_view writable r0 k"
  using assms
proof (induction xs arbitrary: k)
  case Nil
  obtain v k1 where r1: "pci_config_read_dword 0 s 0 0 k = (v, k1)" by fastforce
  obtain d k2 where r2: "pci_config_read_dword 0 s 0 0 k1 = (d, k2)" by fastforce
  note p1 = pci_read [OF Nil.prems(1) r1]
  note p2 = pci_read [OF p1(3) r2]
  have "v = 0x813910EC" "d = 0x813910EC" using p1 p2 Nil.prems(3) by simp_all
  with p1 p2 show ?case by (auto simp: r1 r2 Let_def intro!: exI [of _ k2])
next
  case (Cons t xs)
  obtain v k1 where r1: "pci_config_read_dword 0 t 0 0 k = (v, k1)" by fastforce
  obtain d k2 where r2: "pci_config_read_dword 0 t 0 0 k1 = (d, k2)" by fastforce
  note p1 = pci_read [OF Cons.prems(1) r1]
  note p2 = pci_read [OF p1(3) r2]
  have v: "v \<noteq> 0x813910EC" "d = v" using p1 p2 Cons.prems(2) by simp_all
  then have "\<not> (v AND 0xFFFF = 0x10EC \<and> drop_bit 16 d AND 0xFFFF = 0x8139)" using nic_id by blast
  then have "scan_slots ((t # xs) @ s # ys) k = scan_slots (xs @ s # ys) k1 \<or>
      scan_slots ((t # xs) @ s # ys) k = scan_slots (xs @ s # ys) k2"
    by (auto simp: r1 r2 Let_def)
  moreover have "\<exists>k'. scan_slots (xs @ s # ys) kk = (let (dev, k2) = probe_nic s 0x10EC 0x8139 k' in (Some dev, k2)) \<and>
      pci_mechanism k' writable r0 \<and> pci_view writable r0 k' = pci_view writable r0 k" if "kk = k1 \<or> kk = k2" for kk
    using that Cons.IH [of kk] Cons.prems p1 p2 by auto
  ultimately show ?case by metis
qed

text \<open>
  C31: The scan of PCI bus 0 returns the first RTL8139 card. Its I/O window is reported with the base
  that the firmware assigned and the true size, its base address register holds the same value
  after the sizing as before, and the only register of the machine that has changed is the
  command register of the card, which now has I/O, memory and bus mastering enabled.
\<close>

theorem pci_scan_finds_nic:
  assumes mech: "pci_mechanism k writable r0" and s: "(s :: nat) < 32"
    and id: "pci_view writable r0 k (pci_address 0 (of_nat s) 0 0) = 0x813910EC"
      "\<forall>t < s. pci_view writable r0 k (pci_address 0 (of_nat t) 0 0) \<noteq> 0x813910EC"
    and n: "2 \<le> n" "n < 32" and w: "writable (pci_address 0 (of_nat s) 0 0x10) = NOT (mask n)"
    and bar: "pci_view writable r0 k (pci_address 0 (of_nat s) 0 0x10) = bar" "bar AND mask n = 1"
    and cmd_def: "cmd = pci_address 0 (of_nat s) 0 0x04"
  shows "\<exists>dev k'. scan_bus_zero k = (Some dev, k') \<and> pci_slot dev = of_nat s \<and> bar0_base dev = bar - 1 \<and>
    bar0_size dev = 2 ^ n \<and> bar0_is_io dev \<and>
    irq_line dev = ucast (pci_view writable r0 k (pci_address 0 (of_nat s) 0 0x3C) AND 0xFF) \<and>
    pci_view writable r0 k' = (pci_view writable r0 k)(cmd :=
      ((pci_view writable r0 k cmd OR 7) AND writable cmd) OR (pci_view writable r0 k cmd AND NOT (writable cmd)))"
proof -
  let ?xs = "map of_nat [0..<s] :: u8 list" and ?ys = "map of_nat [Suc s..<32] :: u8 list"
  have slots: "map of_nat [0..<32] = ?xs @ of_nat s # ?ys"
    using s upt_add_eq_append [of 0 s "32 - s"] by (simp add: upt_conv_Cons)
  have "\<forall>t\<in>set ?xs. pci_view writable r0 k (pci_address 0 t 0 0) \<noteq> 0x813910EC" using id(2) by auto
  from scan_slots_finds [OF mech this id(1), of ?ys] obtain k1 where
    k1: "scan_slots (?xs @ of_nat s # ?ys) k = (let (dev, k2) = probe_nic (of_nat s) 0x10EC 0x8139 k1 in (Some dev, k2))"
      "pci_mechanism k1 writable r0" "pci_view writable r0 k1 = pci_view writable r0 k" by blast
  have b1: "pci_view writable r0 k1 (pci_address 0 (of_nat s) 0 0x10) = bar" using bar(1) k1(3) by simp
  obtain dev k' where dev: "probe_nic (of_nat s) 0x10EC 0x8139 k1 = (dev, k')" "pci_slot dev = of_nat s"
    "bar0_base dev = bar - 1" "bar0_size dev = 2 ^ n" "bar0_is_io dev"
    "irq_line dev = ucast (pci_view writable r0 k1 (pci_address 0 (of_nat s) 0 0x3C) AND 0xFF)"
    "pci_view writable r0 k' = (pci_view writable r0 k1)(pci_address 0 (of_nat s) 0 0x04 :=
       ((pci_view writable r0 k1 (pci_address 0 (of_nat s) 0 0x04) OR 7) AND writable (pci_address 0 (of_nat s) 0 0x04)) OR
       (pci_view writable r0 k1 (pci_address 0 (of_nat s) 0 0x04) AND NOT (writable (pci_address 0 (of_nat s) 0 0x04))))"
    by (rule probe_nic_sizes [OF k1(2) n w b1 bar(2)])
  have "scan_bus_zero k = (Some dev, k')" using k1(1) dev(1) by (simp only: scan_bus_zero_def slots Let_def prod.case)
  with dev(2-) show ?thesis unfolding k1(3) cmd_def by blast
qed

definition nic_regs :: "u32 \<Rightarrow> u32" where
  "nic_regs a =
     (if a = pci_address 0 3 0 0 then 0x813910EC else if a = pci_address 0 3 0 0x10 then 0xC001
      else if a = pci_address 0 3 0 0x3C then 0x10B else if a = pci_address 0 3 0 0x04 then 0x02900000
      else 0xFFFFFFFF)"

definition nic_writable :: "u32 \<Rightarrow> u32" where
  "nic_writable a = (if a = pci_address 0 3 0 0x10 then NOT (mask 8) else 0xFFFF)"

definition pci_machine :: machine where
  "pci_machine = sample_machine\<lparr>port_in := (\<lambda>trace port w.
     if port = 0xCFC \<and> w = 4 then (case pci_state nic_writable nic_regs trace of (a, r) \<Rightarrow> r a) else 0)\<rparr>"

theorem pci_scan_finds_nic_witness:
  "\<exists>dev k'. scan_bus_zero pci_machine = (Some dev, k') \<and> pci_slot dev = 3 \<and> bar0_base dev = 0xC000 \<and>
    bar0_size dev = 256 \<and> bar0_is_io dev \<and> irq_line dev = 11"
proof -
  have mech: "pci_mechanism pci_machine nic_writable nic_regs" by (simp add: pci_mechanism_def pci_machine_def)
  have v: "pci_view nic_writable nic_regs pci_machine = nic_regs"
    by (simp add: pci_view_def pci_state_def pci_machine_def sample_machine_def)
  have id: "nic_regs (pci_address 0 (of_nat 3) 0 0) = 0x813910EC"
    "\<forall>t < 3. nic_regs (pci_address 0 (of_nat t) 0 0) \<noteq> 0x813910EC" by code_simp+
  have r: "nic_writable (pci_address 0 (of_nat 3) 0 0x10) = NOT (mask 8)" by (simp add: nic_writable_def)
  have b: "nic_regs (pci_address 0 (of_nat 3) 0 0x10) = 0xC001" "(0xC001 :: u32) AND mask 8 = 1"
    "(ucast (nic_regs (pci_address 0 (of_nat 3) 0 0x3C) AND 0xFF) :: u8) = 11" by code_simp+
  from pci_scan_finds_nic [OF mech, of 3 8, unfolded v, OF _ id _ _ r b(1,2) refl] b(3) show ?thesis by auto
qed

end
