(* ===== verification/Boot.thy ===== *)
theory Boot
  imports Devices Userspace Sample_Machine
begin

text \<open>
  Processor exceptions (\<^verbatim>\<open>arch/x86_64/idt.rs\<close>), the end of the boot sequence, which starts the
  first process and grants it the hardware (\<^verbatim>\<open>main.rs\<close>), and that process (\<^verbatim>\<open>bin/init.rs\<close>), which
  creates the endpoints and buffers that all services find at fixed handles.
\<close>

section \<open>Exceptions\<close>

datatype cpu_exception =
    Breakpoint
  | Double_Fault u64
  | General_Protection_Fault u64
  | Invalid_Opcode
  | Page_Fault u64
  | Divide_Error

text \<open>Bit 2 of the error code of a page fault says that the access came from user mode.\<close>

definition USER_MODE :: u64 where "USER_MODE = 4"

definition halt_loop :: "string \<Rightarrow> panic" where
  "halt_loop msg = Panic msg"

definition page_fault_handler ::
  "u64 \<Rightarrow> call_inputs \<Rightarrow> 'a machine_scheme \<Rightarrow> panic + u64 outcome \<times> 'a machine_scheme" where
  "page_fault_handler error_code i k =
     (if error_code AND USER_MODE \<noteq> 0
      then and_then (exit_current_thread (in_rax i) (in_old_rsp i) k) (\<lambda>(r, k'). Inr (Switched r, k'))
      else Inl (halt_loop ''KERNEL PAGE FAULT''))"

definition exception_handler ::
  "cpu_exception \<Rightarrow> call_inputs \<Rightarrow> 'a machine_scheme \<Rightarrow> panic + u64 outcome \<times> 'a machine_scheme" where
  "exception_handler e i k =
     (case e of
        Breakpoint \<Rightarrow> Inr (Returned 0, k)
      | Double_Fault _ \<Rightarrow> Inl (halt_loop ''DOUBLE FAULT'')
      | General_Protection_Fault _ \<Rightarrow> Inl (halt_loop ''GENERAL PROTECTION FAULT'')
      | Invalid_Opcode \<Rightarrow> Inl (halt_loop ''INVALID OPCODE'')
      | Page_Fault error_code \<Rightarrow> page_fault_handler error_code i k
      | Divide_Error \<Rightarrow> Inl (halt_loop ''DIVIDE BY ZERO''))"

section \<open>The end of the boot sequence\<close>

definition store_framebuffer :: "u64 \<Rightarrow> u64 \<Rightarrow> u64 \<Rightarrow> u64 \<Rightarrow> u16 \<Rightarrow> 'a machine_scheme \<Rightarrow> 'a machine_scheme" where
  "store_framebuffer addr width height pitch bpp k =
     k\<lparr>framebuffer := Some \<lparr>physical_address = addr - hhdm_offset k, fb_width = width, fb_height = height,
         fb_pitch = pitch, fb_bpp = bpp, fb_size = pitch * height\<rparr>\<rparr>"

definition grant_nic :: "pci_device \<Rightarrow> u64 \<Rightarrow> cspace \<Rightarrow> cspace" where
  "grant_nic nic dma_phys cs =
     (let cs = cspace_insert_at cs 20 (Interrupt (irq_line nic));
          cs = (if bar0_is_io nic
                then cspace_insert_at cs 21 (PortIO (ucast (bar0_base nic)) (ucast (bar0_size nic)) 0)
                else cspace_insert_at cs 21 (MemoryMap (ucast (bar0_base nic)) (ucast (bar0_size nic))))
      in cspace_insert_at cs 22 (MemoryMap dma_phys 65536))"

definition grant_boot_caps :: "framebuffer_info option \<Rightarrow> cspace \<Rightarrow> cspace" where
  "grant_boot_caps fb cs =
     (let cs = cspace_insert_at cs 1 (Interrupt 1);
          cs = cspace_insert_at cs 2 (PortIO 0x60 5 1);
          cs = (case fb of None \<Rightarrow> cs | Some f \<Rightarrow> cspace_insert_at cs 3 (MemoryMap (physical_address f) (fb_size f)));
          cs = cspace_insert_at cs 4 (Interrupt 14);
          cs = cspace_insert_at cs 5 (PortIO 0x1F0 8 0)
      in cspace_insert_at cs 6 (PortIO 0x3F6 1 1))"

definition init_name :: bytes where "init_name = [0x69, 0x6E, 0x69, 0x74]"

definition boot_init :: "mmio \<Rightarrow> u64 \<Rightarrow> 'a machine_scheme \<Rightarrow> panic + 'a machine_scheme" where
  "boot_init mmio stack_ptr k =
     (case find_file (initramfs k) init_name of
        None \<Rightarrow> Inl (Panic ''init not found in initramfs'')
      | Some elf_bytes \<Rightarrow>
          and_then (spawn_from_elf elf_bytes None stack_ptr k) (\<lambda>((ps, c), k).
          let cs = grant_boot_caps (framebuffer k) (cspaces k c); (nic, k) = scan_bus_zero k;
              k = (case nic of None \<Rightarrow> k | Some d \<Rightarrow> route_irq mmio (irq_line d) 47 0 k);
              cs = (case nic of None \<Rightarrow> cs | Some d \<Rightarrow> grant_nic d (DMA_POOL_PHYS (dma k)) cs)
          in Inr (k\<lparr>cspaces := (cspaces k)(c := cs)\<rparr>)))"

section \<open>The first process\<close>

text \<open>The calls of \<open>init\<close> that create capabilities, in order, and the programs it spawns.\<close>

definition init_calls :: "user_regs list" where
  "init_calls =
     [call_ep_create, call_ep_create, call_ep_create, call_ep_create, call_frame_alloc 4096,
      call_ep_create, call_ep_create, call_ep_create, call_frame_alloc 4096]"

fun run_calls :: "user_regs list \<Rightarrow> call_inputs \<Rightarrow> 'a machine_scheme \<Rightarrow> panic + u64 list \<times> 'a machine_scheme" where
  "run_calls [] i k = Inr ([], k)"
| "run_calls (r # rs) i k =
     and_then (syscall_handler r i k) (\<lambda>(res, k1). case res of
       Returned v \<Rightarrow> and_then (run_calls rs i k1) (\<lambda>(vs, k2). Inr (v # vs, k2))
     | Switched _ \<Rightarrow> Inl Undefined_Behaviour)"

text \<open>The handles that the sources of the services name, and what they are used for.\<close>

datatype cap_kind = For_Ipc | For_Interrupts | For_Ports | For_Memory

definition service_needs :: "(string \<times> nat \<times> cap_kind) list" where
  "service_needs =
     [(''terminal_service'', 3, For_Memory), (''terminal_service'', 4, For_Ipc),
      (''keyboard_service'', 1, For_Interrupts), (''keyboard_service'', 2, For_Ports), (''keyboard_service'', 4, For_Ipc),
      (''ata_service'', 4, For_Interrupts), (''ata_service'', 5, For_Ports), (''ata_service'', 8, For_Ipc),
      (''ata_service'', 10, For_Memory),
      (''fat16_service'', 8, For_Ipc), (''fat16_service'', 9, For_Ipc), (''fat16_service'', 10, For_Memory),
      (''storage_test'', 9, For_Ipc), (''storage_test'', 10, For_Memory),
      (''rtl8139_service'', 20, For_Interrupts), (''rtl8139_service'', 21, For_Ports),
      (''rtl8139_service'', 22, For_Memory), (''rtl8139_service'', 11, For_Ipc), (''rtl8139_service'', 12, For_Ipc),
      (''rtl8139_service'', 14, For_Memory),
      (''network_service'', 11, For_Ipc), (''network_service'', 12, For_Ipc), (''network_service'', 14, For_Memory),
      (''network_test'', 12, For_Ipc), (''network_test'', 13, For_Ipc), (''network_test'', 14, For_Memory)]"

fun kind_of :: "capability \<Rightarrow> cap_kind option" where
  "kind_of (Endpoint _ rights) = (if rights_contains rights RIGHTS_ALL then Some For_Ipc else None)"
| "kind_of (Interrupt _) = Some For_Interrupts"
| "kind_of (PortIO _ _ _) = Some For_Ports"
| "kind_of (MemoryMap _ _) = Some For_Memory"
| "kind_of (Process _ _) = None"

definition unmet_needs :: "cspace \<Rightarrow> (string \<times> nat \<times> cap_kind) list" where
  "unmet_needs cs =
     filter (\<lambda>(service, handle, kind). Option.bind (cspace_get cs handle) kind_of \<noteq> Some kind) service_needs"

section \<open>What exceptions do\<close>



section \<open>The handles of the services\<close>

fun frames_left :: "nat \<Rightarrow> bitmap_allocator \<Rightarrow> bool" where
  "frames_left 0 a \<longleftrightarrow> True"
| "frames_left (Suc n) a \<longleftrightarrow>
     (case allocate_frame a of Inr (Some _, a') \<Rightarrow> frames_left n a' | _ \<Rightarrow> False)"

definition made_by :: "user_regs \<Rightarrow> capability \<Rightarrow> bool" where
  "made_by r cap \<longleftrightarrow> (r = call_ep_create \<and> (\<exists>e. cap = Endpoint e RIGHTS_ALL)) \<or>
     (r = call_frame_alloc 4096 \<and> (\<exists>p. cap = MemoryMap p 4096))"

lemma call_ep_create_run:
  assumes "current_cspace k = Inr (t, c)" and "cspace_insert (cspaces k c) (Endpoint (next_ep k) RIGHTS_ALL) = (h, cs)"
  shows "\<exists>k'. syscall_handler call_ep_create i k = Inr (Returned (of_nat h), k') \<and> current_cspace k' = Inr (t, c) \<and>
    cspaces k' c = cs \<and> falloc k' = falloc k"
  using assms by (simp add: user_calls syscall_handler_def sys_ep_create_def sys_endpoint_create_def current_cspace_def)

lemma call_frame_alloc_run:
  assumes "current_cspace k = Inr (t, c)" and "allocate_frame (falloc k) = Inr (Some p, a)"
    and "cspace_insert (cspaces k c) (MemoryMap p 4096) = (h, cs)"
  shows "\<exists>k'. syscall_handler (call_frame_alloc 4096) i k = Inr (Returned (of_nat h), k') \<and>
    current_cspace k' = Inr (t, c) \<and> cspaces k' c = cs \<and> falloc k' = a"
  using assms
  by (simp add: user_calls syscall_handler_def sys_frame_alloc_def insert_cap_def with_cspace_def current_cspace_def)

lemma run_calls_put_all:
  assumes "current_cspace k = Inr (t, c)" and "\<forall>r\<in>set rs. r = call_ep_create \<or> r = call_frame_alloc 4096"
    and "frames_left (length (filter (\<lambda>r. r = call_frame_alloc 4096) rs)) (falloc k)"
  shows "\<exists>caps hs k'. run_calls rs i k = Inr (map of_nat hs, k') \<and> list_all2 made_by rs caps \<and>
    put_all cspace_insert (cspaces k c) caps = (hs, cspaces k' c) \<and> current_cspace k' = Inr (t, c)"
  using assms
proof (induction rs arbitrary: k)
  case (Cons r rs)
  have ne: "call_ep_create \<noteq> call_frame_alloc 4096" by (simp add: user_calls)
  have "\<exists>cap h k1. syscall_handler r i k = Inr (Returned (of_nat h), k1) \<and> current_cspace k1 = Inr (t, c) \<and>
      cspace_insert (cspaces k c) cap = (h, cspaces k1 c) \<and> made_by r cap \<and>
      frames_left (length (filter (\<lambda>r. r = call_frame_alloc 4096) rs)) (falloc k1)"
  proof (cases "r = call_ep_create")
    case True
    obtain h cs where ins: "cspace_insert (cspaces k c) (Endpoint (next_ep k) RIGHTS_ALL) = (h, cs)" by fastforce
    obtain k1 where "syscall_handler call_ep_create i k = Inr (Returned (of_nat h), k1)" "current_cspace k1 = Inr (t, c)"
      "cspaces k1 c = cs" "falloc k1 = falloc k" using call_ep_create_run [OF Cons.prems(1) ins, of i] by blast
    with ins Cons.prems(3) True ne show ?thesis
      by (intro exI [of _ "Endpoint (next_ep k) RIGHTS_ALL"] exI [of _ h] exI [of _ k1]) (simp add: made_by_def)
  next
    case False
    then have r: "r = call_frame_alloc 4096" using Cons.prems(2) by auto
    with Cons.prems(3) obtain p a where p: "allocate_frame (falloc k) = Inr (Some p, a)"
      "frames_left (length (filter (\<lambda>r. r = call_frame_alloc 4096) rs)) a"
      by (auto split: sum.splits option.splits)
    obtain h cs where ins: "cspace_insert (cspaces k c) (MemoryMap p 4096) = (h, cs)" by fastforce
    obtain k1 where "syscall_handler (call_frame_alloc 4096) i k = Inr (Returned (of_nat h), k1)"
      "current_cspace k1 = Inr (t, c)" "cspaces k1 c = cs" "falloc k1 = a"
      using call_frame_alloc_run [OF Cons.prems(1) p(1) ins, of i] by blast
    with ins p(2) r show ?thesis
      by (intro exI [of _ "MemoryMap p 4096"] exI [of _ h] exI [of _ k1]) (simp add: made_by_def)
  qed
  then obtain cap h k1 where s: "syscall_handler r i k = Inr (Returned (of_nat h), k1)" "current_cspace k1 = Inr (t, c)"
    "cspace_insert (cspaces k c) cap = (h, cspaces k1 c)" "made_by r cap"
    "frames_left (length (filter (\<lambda>r. r = call_frame_alloc 4096) rs)) (falloc k1)" by blast
  from Cons.IH [OF s(2) _ s(5)] Cons.prems(2) obtain caps hs k' where
    "run_calls rs i k1 = Inr (map of_nat hs, k')" "list_all2 made_by rs caps"
    "put_all cspace_insert (cspaces k1 c) caps = (hs, cspaces k' c)" "current_cspace k' = Inr (t, c)" by auto
  with s show ?case
    by (intro exI [of _ "cap # caps"] exI [of _ "h # hs"] exI [of _ k']) simp
qed simp

lemma boot_slots:
  "slots (grant_nic nic dma_phys (grant_boot_caps (Some fb) cspace_new)) =
     [None, Some (Interrupt 1), Some (PortIO 0x60 5 1), Some (MemoryMap (physical_address fb) (fb_size fb)),
      Some (Interrupt 14), Some (PortIO 0x1F0 8 0), Some (PortIO 0x3F6 1 1)] @ replicate 13 None @
     [Some (Interrupt (irq_line nic)),
      Some (if bar0_is_io nic then PortIO (ucast (bar0_base nic)) (ucast (bar0_size nic)) 0
            else MemoryMap (ucast (bar0_base nic)) (ucast (bar0_size nic))),
      Some (MemoryMap dma_phys 65536)]"
  by (simp add: grant_nic_def grant_boot_caps_def cspace_insert_at_def cspace_new_def Let_def eval_nat_numeral)


definition sample_nic :: pci_device where
  "sample_nic = \<lparr>pci_bus = 0, pci_slot = 3, pci_func = 0, vendor_id = 0x10EC, device_id = 0x8139, bar0_base = 0xC000,
     bar0_size = 256, bar0_is_io = True, irq_line = 11\<rparr>"

definition sample_framebuffer :: framebuffer_info where
  "sample_framebuffer = \<lparr>physical_address = 0xFD000000, fb_width = 1024, fb_height = 768, fb_pitch = 4096, fb_bpp = 32,
     fb_size = 0x300000\<rparr>"

definition booted_machine :: machine where
  "booted_machine = sample_machine\<lparr>cspaces :=
     (\<lambda>_. grant_nic sample_nic 0x40000 (grant_boot_caps (Some sample_framebuffer) cspace_new))\<rparr>"


end
