(* ===== verification/Spec2Isabelle.thy ===== *)
theory Spec2Isabelle
  imports Cooperative_Safety Ipc_Delivery Scheduling Entry_Code Elf_Image Console Storage Rtl8139 Device_Correctness
    Boot
begin

text \<open>
  Verification of \<^verbatim>\<open>else\<close>, a capability-based research operating system for x86_64: a kernel with
  threads, synchronous message passing and virtual memory (\<^verbatim>\<open>src/kernel\<close>), and drivers and services
  that run as user programs and talk to each other over endpoints (\<^verbatim>\<open>src/userspace\<close>).

  \<^bold>\<open>How the program works.\<close> The boot loader enters \<^verbatim>\<open>_start\<close> (\<^verbatim>\<open>main.rs\<close>), which builds the frame
  allocator, the kernel page table and the heap (\<^verbatim>\<open>memory/\<close>), finds the interrupt controllers in the
  ACPI tables and the network card on the PCI bus, and starts the program \<^verbatim>\<open>init\<close> of the initial tar
  archive with the first capabilities. A program enters the kernel by \<^verbatim>\<open>syscall\<close>
  (\<^verbatim>\<open>syscall/entry.s\<close>, \<^verbatim>\<open>syscall/mod.rs\<close>), and every resource that it names is a handle of its
  capability space. Threads switch in the blocking calls and in the timer interrupt
  (\<^verbatim>\<open>task/scheduler.rs\<close>, \<^verbatim>\<open>task/switch.s\<close>). The services of \<^verbatim>\<open>init\<close> drive keyboard and screen, the disk
  and the network card.

  \<^bold>\<open>Conventions.\<close> The binaries are release builds, so arithmetic on \<open>u8\<close> to \<open>u64\<close> wraps and is
  modelled with words; \<open>usize\<close> counters that stay small are natural numbers. A panic is a value:
  fallible code has type \<open>panic + 'a\<close>. The panic \<open>Undefined_Behaviour\<close> marks an access through a bad
  raw pointer or a jump through a stale stack frame.
  State is passed explicitly in the records \<open>scheduler\<close>, \<open>kernel\<close> (threads, endpoints, processes,
  capability spaces, what the stacks hold) and \<open>machine\<close> (memory, allocator, page tables, devices).
  Code outside the repository is a parameter: the operations of the \<^verbatim>\<open>x86_64\<close> crate on page tables
  and addresses (fields of \<open>machine\<close>, with the laws \<open>crate_ok\<close>, \<open>walk_laws\<close> and \<open>map_to_laws\<close>), the
  processor's address translation, what devices answer (\<open>port_in\<close>, \<open>mmio\<close>, \<open>bus\<close>), the data of the
  boot loader. \<open>Sample_Machine\<close> and the example devices show that the laws can be met.

  \<^bold>\<open>The theories.\<close>
  \<^item> \<open>Else_Prelude\<close>, \<open>Byte_Codec\<close>: machine integers, panics, loops, memory behind pointers, byte order.
  \<^item> \<open>Capability\<close> (\<^verbatim>\<open>capability/mod.rs\<close>): capability spaces; the locale \<open>slot_table\<close> is their contract.
  \<^item> \<open>Frame_Allocator\<close> (\<^verbatim>\<open>memory/frame_allocator.rs\<close>): bitmap, allocation, DMA pool, initialisation. The
    locales \<open>bit_store\<close> and \<open>frame_source\<close> are the contracts of the bitmap and of an allocator, and
    are interpreted on the code. Initialisation frees exactly the usable frames; allocations are
    disjoint; deallocation restores; the DMA pool is respected unless the size wraps around.
  \<^item> \<open>Kernel_State\<close>, \<open>Scheduler\<close> (\<^verbatim>\<open>task/\<close>, \<^verbatim>\<open>ipc/mod.rs\<close>): threads, endpoints, context switches, the timer
    tick, yield, exit and the blocking calls. \<open>Thread_Conservation\<close> shows that no thread is lost or
    duplicated, \<open>Cooperative_Safety\<close> that the cooperative part never resumes a wrong frame (rule
    induction over the reachable states), \<open>Ipc_Delivery\<close> that messages arrive, in order and only with
    authority, \<open>Scheduling\<close> the round robin, the start of threads, exit and interrupts. These theories
    also contain the executions in which the code goes wrong.
  \<^item> \<open>Entry_Code\<close> (\<^verbatim>\<open>syscall/entry.s\<close>, \<^verbatim>\<open>task/switch.s\<close>, the wrappers of \<^verbatim>\<open>arch/x86_64/idt.rs\<close>): the
    assembly instruction by instruction. System call entry, preemption, context switch and
    interrupt wrappers give back the registers, the stack and the GS bases.
  \<^item> \<open>Machine\<close>, \<open>Paging\<close> (\<^verbatim>\<open>memory/\<close>, \<^verbatim>\<open>task/process.rs\<close>): memory, page tables, heap, address spaces.
  \<^item> \<open>Tar\<close> (\<^verbatim>\<open>fs/tar.rs\<close>), \<open>Elf_Loader\<close> (\<^verbatim>\<open>elf/mod.rs\<close>): the search in the archive finds exactly its regular
    files; \<open>Elf_Image\<close> shows that a loaded program is in memory as its file says.
  \<^item> \<open>Syscall\<close> (\<^verbatim>\<open>syscall/mod.rs\<close>): one definition per call and the dispatcher. \<open>Syscall_Authority\<close> and
    \<open>Memory_Authority\<close> show that ports, capabilities and mapped memory are confined by what the caller
    holds, \<open>Syscall_Behaviour\<close> the error paths and what a spawned process gets.
  \<^item> \<open>Devices\<close>, \<open>Device_Correctness\<close> (\<^verbatim>\<open>pci.rs\<close>, \<^verbatim>\<open>arch/x86_64/\<close>): ACPI, APIC, I/O APIC, timers, PCI. The
    parser of the MADT terminates on well-formed tables; the PCI scan finds the card undisturbed.
  \<^item> \<open>Boot\<close> (\<^verbatim>\<open>arch/x86_64/idt.rs\<close>, \<^verbatim>\<open>main.rs\<close>, \<^verbatim>\<open>bin/init.rs\<close>): exceptions, the first capabilities, and the
    handles of \<^verbatim>\<open>init\<close> against those that the services name.
  \<^item> \<open>Userspace\<close> (\<^verbatim>\<open>userspace/src/lib.rs\<close>): the wrappers agree with the dispatcher; number output.
  \<^item> \<open>Console\<close>, \<open>Storage\<close>, \<open>Network\<close>, \<open>Rtl8139\<close> (\<^verbatim>\<open>userspace/src/bin/\<close>): keyboard and terminal print what is
    typed inside the framebuffer; the ATA driver refines a block store and the storage test
    succeeds on it; the network service echoes datagrams with the right checksum; the receive
    ring of the card is drained in order.

  \<^bold>\<open>Loops and bounds.\<close> Loops over lists and counters are structural. Loops that wait for a device or
  follow lengths in memory (\<open>madt_loop\<close>, the polls of the drivers, \<open>rx_drain\<close>) are
  \<open>partial_function (option)\<close>, where \<open>None\<close> is a loop that never ends; the properties of the MADT
  parser, the ATA driver and the receive ring state that the loops return. The idle loop takes the interrupts that arrive as an explicit list of batches;
  running out of batches is waiting. There is no fuel elsewhere.

  \<^bold>\<open>Not modelled.\<close> Text output (\<^verbatim>\<open>logging.rs\<close>, \<^verbatim>\<open>panic.rs\<close>) is formatting; loading the descriptor tables
  (\<^verbatim>\<open>gdt.rs\<close>, \<^verbatim>\<open>idt.rs\<close>) and the model-specific registers (\<open>syscall::init\<close>, \<open>init_per_cpu\<close>) is one-time
  hardware set-up through the \<^verbatim>\<open>x86_64\<close> crate; the requests to the boot loader and the code of the
  \<^verbatim>\<open>linked_list_allocator\<close> crate are not in the repository; the self tests of \<^verbatim>\<open>main.rs\<close> behind cargo
  features are not part of the system; \<^verbatim>\<open>service_a.rs\<close> and \<^verbatim>\<open>fault_service.rs\<close> only exercise calls that
  are modelled. Interleaving is modelled at the points where threads switch and interrupts are
  taken; there is one processor.
\<close>

end
